(* ===== verification/Prelude.thy ===== *)
theory Prelude
  imports Complex_Main "HOL-Library.Word" "HOL-Library.AList"
begin

text \<open>
  Shared vocabulary of the development: the fragment of Go's \<^verbatim>\<open>strings\<close> and
  \<^verbatim>\<open>strconv\<close> packages that the sources call, Go's fixed-width integer
  conversions, association lists for Go maps that are printed or iterated, and the
  generic facts about runs of a step function that every stateful component uses.
  A Go \<^verbatim>\<open>string\<close> (a byte sequence) is a HOL \<^typ>\<open>string\<close>.
\<close>

named_theorems str_simps "facts about the Go string functions"
named_theorems dec_simps "unfolding rules of the JSON decoders"
named_theorems chan_simps "facts about Go channels"

section \<open>Results of fallible Go functions\<close>

text \<open>
  A Go function that returns \<^verbatim>\<open>(T, error)\<close> and whose value is meaningless on error is
  modelled by a sum, \<open>Inl\<close> carrying the error. A panic is a separate outcome.
\<close>

datatype 'a outcome = Returns 'a | Panics string

primrec bind_outcome :: "'a outcome \<Rightarrow> ('a \<Rightarrow> 'b outcome) \<Rightarrow> 'b outcome" where
  "bind_outcome (Returns x) f = f x"
| "bind_outcome (Panics m) f = Panics m"

section \<open>Go strings\<close>

fun has_prefix :: "string \<Rightarrow> string \<Rightarrow> bool" where
  "has_prefix s [] = True"
| "has_prefix [] (c # p) = False"
| "has_prefix (d # s) (c # p) = (d = c \<and> has_prefix s p)"

definition has_suffix :: "string \<Rightarrow> string \<Rightarrow> bool" where
  "has_suffix s p = has_prefix (rev s) (rev p)"

definition trim_prefix :: "string \<Rightarrow> string \<Rightarrow> string" where
  "trim_prefix s p = (if has_prefix s p then drop (length p) s else s)"

definition cut_prefix :: "string \<Rightarrow> string \<Rightarrow> string option" where
  "cut_prefix s p = (if has_prefix s p then Some (drop (length p) s) else None)"

definition cut_suffix :: "string \<Rightarrow> string \<Rightarrow> string option" where
  "cut_suffix s p = (if has_suffix s p then Some (take (length s - length p) s) else None)"

fun contains :: "string \<Rightarrow> string \<Rightarrow> bool" where
  "contains [] p = (p = [])"
| "contains (c # s) p = (has_prefix (c # s) p \<or> contains s p)"

text \<open>
  \<^verbatim>\<open>strings.Split\<close> for a non-empty separator: the second argument counts the
  characters of a separator occurrence that are still to be skipped.
\<close>

fun split_from :: "string \<Rightarrow> nat \<Rightarrow> string \<Rightarrow> string list" where
  "split_from sep k [] = [[]]"
| "split_from sep (Suc k) (c # s) = split_from sep k s"
| "split_from sep 0 (c # s) =
     (if has_prefix (c # s) sep then [] # split_from sep (length sep - 1) s
      else (case split_from sep 0 s of [] \<Rightarrow> [[c]] | p # ps \<Rightarrow> (c # p) # ps))"

definition split :: "string \<Rightarrow> string \<Rightarrow> string list" where
  "split s sep = split_from sep 0 s"

text \<open>\<^verbatim>\<open>strings.SplitN(s, sep, 2)\<close> for a one-character separator.\<close>

lemma append_sep_eq: "c \<notin> set a \<Longrightarrow> c \<notin> set b \<Longrightarrow> a @ c # x = b @ c # y \<longleftrightarrow> a = b \<and> x = y"
proof (induction a arbitrary: b)
  case Nil
  then show ?case by (cases b) auto
next
  case (Cons d a)
  then show ?case by (cases b) auto
qed

fun split_first :: "string \<Rightarrow> char \<Rightarrow> string list" where
  "split_first [] c = [[]]"
| "split_first (d # s) c =
     (if d = c then [[], s]
      else (case split_first s c of [] \<Rightarrow> [[d]] | p # ps \<Rightarrow> (d # p) # ps))"

fun join :: "string list \<Rightarrow> string \<Rightarrow> string" where
  "join [] sep = []"
| "join [p] sep = p"
| "join (p # q # ps) sep = p @ sep @ join (q # ps) sep"

definition replace_all :: "string \<Rightarrow> string \<Rightarrow> string \<Rightarrow> string" where
  "replace_all s old new = join (split s old) new"

definition lower_char :: "char \<Rightarrow> char" where
  "lower_char c =
     (let n = of_char c :: nat in if 65 \<le> n \<and> n \<le> 90 then char_of (n + 32) else c)"

definition to_lower :: "string \<Rightarrow> string" where
  "to_lower s = map lower_char s"

subsection \<open>Facts about Go strings\<close>

lemma has_prefix_append [simp, str_simps]: "has_prefix (p @ s) p"
  by (induction p) auto

lemma has_prefix_self [simp, str_simps]: "has_prefix p p"
  using has_prefix_append [of p "[]"] by simp

lemma has_prefix_iff: "has_prefix s p \<longleftrightarrow> (\<exists>r. s = p @ r)"
  by (induction s p rule: has_prefix.induct) auto

lemma has_prefix_same_len: "has_prefix s p \<Longrightarrow> length s = length p \<Longrightarrow> s = p"
  by (auto simp: has_prefix_iff)

lemma has_prefix_Cons_eq [simp]: "has_prefix (c # s) (c # p) = has_prefix s p"
  by simp

lemma has_suffix_iff: "has_suffix s p \<longleftrightarrow> (\<exists>r. s = r @ p)"
proof
  assume "has_suffix s p"
  then obtain r where "rev s = rev p @ r" by (auto simp: has_suffix_def has_prefix_iff)
  then have "s = rev (rev p @ r)" by (metis rev_rev_ident)
  then show "\<exists>r. s = r @ p" by auto
next
  assume "\<exists>r. s = r @ p"
  then show "has_suffix s p" by (auto simp: has_suffix_def)
qed

lemma has_suffix_append [simp, str_simps]: "has_suffix (s @ p) p"
  by (auto simp: has_suffix_iff)

lemma trim_prefix_append [simp, str_simps]: "trim_prefix (p @ s) p = s"
  by (simp add: trim_prefix_def)

lemma cut_prefix_append [simp, str_simps]: "cut_prefix (p @ s) p = Some s"
  by (simp add: cut_prefix_def)

lemma cut_prefix_Some_iff: "cut_prefix s p = Some r \<longleftrightarrow> s = p @ r"
  by (auto simp: cut_prefix_def has_prefix_iff)

lemma cut_suffix_append [simp, str_simps]: "cut_suffix (s @ p) p = Some s"
  by (simp add: cut_suffix_def)

lemma cut_suffix_Some_iff: "cut_suffix s p = Some r \<longleftrightarrow> s = r @ p"
  by (auto simp: cut_suffix_def has_suffix_iff)

lemma contains_iff: "contains s p \<longleftrightarrow> (\<exists>a b. s = a @ p @ b)"
proof (induction s)
  case Nil
  show ?case by simp
next
  case (Cons c s)
  show ?case
  proof
    assume "contains (c # s) p"
    then consider (here) "has_prefix (c # s) p" | (later) "contains s p" by auto
    then show "\<exists>a b. c # s = a @ p @ b"
    proof cases
      case here
      then obtain r where "c # s = [] @ p @ r" by (auto simp: has_prefix_iff)
      then show ?thesis by blast
    next
      case later
      with Cons.IH obtain a b where "c # s = (c # a) @ p @ b" by auto
      then show ?thesis by blast
    qed
  next
    assume "\<exists>a b. c # s = a @ p @ b"
    then obtain a b where ab: "c # s = a @ p @ b" by blast
    show "contains (c # s) p"
    proof (cases a)
      case Nil
      with ab have "has_prefix (c # s) p" by (auto simp: has_prefix_iff)
      then show ?thesis by simp
    next
      case (Cons a0 as)
      with ab have "s = as @ p @ b" by simp
      then show ?thesis using Cons.IH by auto
    qed
  qed
qed

lemma split_from_not_Nil [simp]: "split_from sep k s \<noteq> []"
  by (induction sep k s rule: split_from.induct) (auto split: list.splits)

lemma split_not_Nil [simp]: "split s sep \<noteq> []"
  by (simp add: split_def)

lemma split_first_no: "c \<notin> set s \<Longrightarrow> split_first s c = [s]"
  by (induction s) auto

lemma split_first_append: "c \<notin> set b \<Longrightarrow> split_first (b @ c # p) c = [b, p]"
  by (induction b) auto

lemma join_Cons_Cons: "ps \<noteq> [] \<Longrightarrow> join (p # ps) sep = p @ sep @ join ps sep"
  by (cases ps) auto

lemma join_hd_Cons: "join ((c # p) # ps) sep = c # join (p # ps) sep"
  by (cases ps) auto

lemma join_split_from:
  "k \<le> length s \<Longrightarrow> sep \<noteq> [] \<Longrightarrow> join (split_from sep k s) sep = drop k s"
proof (induction sep k s rule: split_from.induct)
  case (3 sep c s)
  show ?case
  proof (cases "has_prefix (c # s) sep")
    case True
    then obtain r where r: "c # s = sep @ r" by (auto simp: has_prefix_iff)
    with "3.prems" have len: "length sep - 1 \<le> length s"
      by (metis One_nat_def Suc_le_mono Suc_pred le_add1 length_Cons length_append length_greater_0_conv)
    with "3.IH"(1) True "3.prems" have "join (split_from sep (length sep - 1) s) sep = drop (length sep - 1) s"
      by simp
    moreover have "sep @ drop (length sep - 1) s = c # s"
    proof -
      from "3.prems" r have "drop (length sep - 1) s = r"
        by (cases sep) auto
      with r show ?thesis by simp
    qed
    ultimately show ?thesis using True by (simp add: join_Cons_Cons)
  next
    case False
    with "3.IH"(2) "3.prems" have IH: "join (split_from sep 0 s) sep = s" by simp
    show ?thesis
    proof (cases "split_from sep 0 s")
      case Nil
      then show ?thesis by simp
    next
      case (Cons p ps)
      with False IH show ?thesis by (simp add: join_hd_Cons)
    qed
  qed
qed auto

lemma join_split [str_simps]: "sep \<noteq> [] \<Longrightarrow> join (split s sep) sep = s"
  by (simp add: split_def join_split_from)

text \<open>Splitting at a single character, and replacing a single character.\<close>

lemma split_char_Cons:
  "split (d # s) [c] =
     (if d = c then [] # split s [c]
      else (d # hd (split s [c])) # tl (split s [c]))"
  by (cases "split_from [c] 0 s") (auto simp: split_def)

lemma split_char_Nil [simp]: "split [] [c] = [[]]"
  by (simp add: split_def)

lemma split_char_pieces: "p \<in> set (split s [c]) \<Longrightarrow> c \<notin> set p"
proof (induction s arbitrary: p)
  case Nil
  then show ?case by simp
next
  case (Cons d s)
  have hd_in: "hd (split s [c]) \<in> set (split s [c])"
    by (rule hd_in_set) simp
  have tl_in: "q \<in> set (tl (split s [c])) \<Longrightarrow> q \<in> set (split s [c])" for q
    by (rule list.set_sel(2)) simp_all
  from Cons.prems show ?case
    using Cons.IH hd_in tl_in by (auto simp: split_char_Cons split: if_splits)
qed

lemma split_no_sep: "c \<notin> set s \<Longrightarrow> split s [c] = [s]"
  by (induction s) (auto simp: split_char_Cons)

lemma split_char_append:
  "c \<notin> set a \<Longrightarrow> split (a @ c # b) [c] = a # split b [c]"
  by (induction a) (auto simp: split_char_Cons)

lemma join_replace_char: "ps \<noteq> [] \<Longrightarrow> \<forall>p \<in> set ps. c \<notin> set p \<Longrightarrow>
    map (\<lambda>x. if x = c then d else x) (join ps [c]) = join ps [d]"
  by (induction ps "[c]" rule: join.induct) (auto intro!: map_idI)

lemma replace_all_char:
  "replace_all s [c] [d] = map (\<lambda>x. if x = c then d else x) s"
proof -
  have "map (\<lambda>x. if x = c then d else x) (join (split s [c]) [c]) = join (split s [c]) [d]"
    by (rule join_replace_char) (auto dest: split_char_pieces)
  then show ?thesis by (simp add: replace_all_def join_split)
qed

section \<open>strconv\<close>

definition digit_char :: "nat \<Rightarrow> char" where
  "digit_char n = char_of (48 + n)"

definition char_digit :: "char \<Rightarrow> nat option" where
  "char_digit c =
     (let n = of_char c :: nat in if 48 \<le> n \<and> n \<le> 57 then Some (n - 48) else None)"

fun show_nat :: "nat \<Rightarrow> string" where
  "show_nat n = (if n < 10 then [digit_char n] else show_nat (n div 10) @ [digit_char (n mod 10)])"

declare show_nat.simps [simp del]

text \<open>\<^verbatim>\<open>strconv.Itoa\<close>\<close>

definition itoa :: "int \<Rightarrow> string" where
  "itoa i = (if i < 0 then CHR ''-'' # show_nat (nat (- i)) else show_nat (nat i))"

fun read_digits :: "nat \<Rightarrow> string \<Rightarrow> nat option" where
  "read_digits acc [] = Some acc"
| "read_digits acc (c # s) =
     (case char_digit c of None \<Rightarrow> None | Some d \<Rightarrow> read_digits (10 * acc + d) s)"

definition in_int64 :: "int \<Rightarrow> bool" where
  "in_int64 i \<longleftrightarrow> - (2 ^ 63) \<le> i \<and> i < 2 ^ 63"

text \<open>
  \<^verbatim>\<open>strconv.Atoi\<close> on a 64-bit platform: an optional sign, then at least one decimal
  digit, and the value must fit in 64 bits; \<open>None\<close> is the error return.
\<close>

definition read_sign :: "string \<Rightarrow> int \<times> string" where
  "read_sign s = (case s of [] \<Rightarrow> (1, []) | c # t \<Rightarrow>
     if c = CHR ''-'' then (- 1, t) else if c = CHR ''+'' then (1, t) else (1, s))"

definition atoi :: "string \<Rightarrow> int option" where
  "atoi s = (case read_sign s of (sg, ds) \<Rightarrow>
     if ds = [] then None
     else (case read_digits 0 ds of None \<Rightarrow> None
           | Some n \<Rightarrow> if in_int64 (sg * int n) then Some (sg * int n) else None))"

lemma char_digit_digit_char [simp]: "n < 10 \<Longrightarrow> char_digit (digit_char n) = Some n"
  by (simp add: char_digit_def digit_char_def of_char_of)

lemma show_nat_not_Nil [simp]: "show_nat n \<noteq> []"
  by (subst show_nat.simps) simp

lemma read_digits_append:
  "read_digits acc (s @ t) = (case read_digits acc s of None \<Rightarrow> None | Some a \<Rightarrow> read_digits a t)"
  by (induction acc s rule: read_digits.induct) (auto split: option.splits)

lemma read_digits_show_nat_0: "read_digits 0 (show_nat n) = Some n"
proof (induction n rule: show_nat.induct)
  case (1 n)
  show ?case
  proof (cases "n < 10")
    case True
    then show ?thesis by (simp add: show_nat.simps [of n])
  next
    case False
    with 1 show ?thesis
      by (simp add: show_nat.simps [of n] read_digits_append)
  qed
qed

lemma show_nat_digits: "c \<in> set (show_nat n) \<Longrightarrow> char_digit c \<noteq> None"
proof (induction n rule: show_nat.induct)
  case (1 n)
  then show ?case
    by (cases "n < 10") (auto simp: show_nat.simps [of n])
qed

lemma show_nat_hd: "\<exists>c t. show_nat n = c # t \<and> c \<noteq> CHR ''-'' \<and> c \<noteq> CHR ''+''"
proof (cases "show_nat n")
  case Nil
  then show ?thesis by simp
next
  case (Cons c t)
  then have "char_digit c \<noteq> None" using show_nat_digits [of c n] by simp
  moreover have "char_digit CHR ''-'' = None" "char_digit CHR ''+'' = None"
    by (simp_all add: char_digit_def)
  ultimately show ?thesis using Cons by metis
qed

lemma atoi_itoa: "in_int64 i \<Longrightarrow> atoi (itoa i) = Some i"
proof (cases "i < 0")
  case True
  then have "read_sign (itoa i) = (- 1, show_nat (nat (- i)))"
    by (simp add: itoa_def read_sign_def)
  with True show "in_int64 i \<Longrightarrow> ?thesis"
    by (simp add: atoi_def read_digits_show_nat_0)
next
  case False
  obtain c t where ct: "show_nat (nat i) = c # t" "c \<noteq> CHR ''-''" "c \<noteq> CHR ''+''"
    using show_nat_hd by blast
  with False have "read_sign (itoa i) = (1, show_nat (nat i))"
    by (simp add: itoa_def read_sign_def)
  with False show "in_int64 i \<Longrightarrow> ?thesis"
    by (simp add: atoi_def read_digits_show_nat_0)
qed

lemma atoi_in_int64:
  assumes "atoi s = Some i"
  shows "in_int64 i"
proof -
  obtain sg ds where sd: "read_sign s = (sg, ds)" by (cases "read_sign s")
  with assms obtain n where "read_digits 0 ds = Some n"
    by (auto simp: atoi_def split: if_splits option.splits)
  with assms sd show ?thesis by (auto simp: atoi_def split: if_splits)
qed

lemma itoa_inj:
  assumes "in_int64 i" "in_int64 j" "itoa i = itoa j"
  shows "i = j"
  by (metis assms atoi_itoa option.inject)

text \<open>\<^verbatim>\<open>strconv.FormatBool\<close> and \<^verbatim>\<open>strconv.ParseBool\<close>.\<close>

definition format_bool :: "bool \<Rightarrow> string" where
  "format_bool b = (if b then ''true'' else ''false'')"

definition parse_bool :: "string \<Rightarrow> bool option" where
  "parse_bool s =
     (if s \<in> set [''1'', ''t'', ''T'', ''TRUE'', ''true'', ''True''] then Some True
      else if s \<in> set [''0'', ''f'', ''F'', ''FALSE'', ''false'', ''False''] then Some False
      else None)"

lemma parse_format_bool [simp]: "parse_bool (format_bool b) = Some b"
  by (simp add: parse_bool_def format_bool_def)

section \<open>Fixed-width integers\<close>

text \<open>
  Go's \<^verbatim>\<open>int32\<close> is a \<open>32 word\<close> read with \<^const>\<open>sint\<close>; the conversion
  \<^verbatim>\<open>int32(x)\<close> of a wider integer keeps the low 32 bits.
\<close>

type_synonym i32 = "32 word"

definition to_int32 :: "int \<Rightarrow> i32" where
  "to_int32 i = word_of_int i"

lemma sint_to_int32: "- (2 ^ 31) \<le> i \<Longrightarrow> i < 2 ^ 31 \<Longrightarrow> sint (to_int32 i) = i"
  by (simp add: to_int32_def sint_sbintrunc' signed_take_bit_int_eq_self)

lemma to_int32_wraps: "to_int32 (i + 2 ^ 32) = to_int32 i"
  by (simp add: to_int32_def word_of_int_eq_iff take_bit_eq_mod)

section \<open>Lists\<close>

lemma find_split:
  "find P xs = Some x \<Longrightarrow> \<exists>as bs. xs = as @ x # bs \<and> P x \<and> (\<forall>a \<in> set as. \<not> P a)"
proof (induction xs)
  case Nil
  then show ?case by simp
next
  case (Cons y ys)
  show ?case
  proof (cases "P y")
    case True
    with Cons.prems have "y # ys = [] @ x # ys \<and> P x" by simp
    then show ?thesis by fastforce
  next
    case False
    with Cons obtain as bs where "y # ys = (y # as) @ x # bs" "P x" "\<forall>a \<in> set (y # as). \<not> P a" by auto
    then show ?thesis by blast
  qed
qed

lemma bex_take: "k \<le> length xs \<Longrightarrow> (\<exists>x \<in> set (take k xs). P x) \<longleftrightarrow> (\<exists>j < k. P (xs ! j))"
  by (induction k) (auto simp: take_Suc_conv_app_nth less_Suc_eq)

section \<open>Runs of a step function\<close>

text \<open>
  Every stateful component is a step function on its state. A safety property is an
  invariant of the steps; the locale gives the run-level fact once.
\<close>

fun run :: "('s \<Rightarrow> 'e \<Rightarrow> 's) \<Rightarrow> 's \<Rightarrow> 'e list \<Rightarrow> 's" where
  "run f s [] = s"
| "run f s (e # es) = run f (f s e) es"

lemma run_append [simp]: "run f s (xs @ ys) = run f (run f s xs) ys"
  by (induction xs arbitrary: s) auto

locale step_invariant =
  fixes init :: 's
    and step :: "'s \<Rightarrow> 'e \<Rightarrow> 's"
    and inv :: "'s \<Rightarrow> bool"
  assumes inv_init: "inv init"
    and inv_step: "inv s \<Longrightarrow> inv (step s e)"
begin

lemma inv_run_from: "inv s \<Longrightarrow> inv (run step s es)"
  by (induction es arbitrary: s) (auto simp: inv_step)

lemma inv_run: "inv (run step init es)"
  by (rule inv_run_from) (rule inv_init)

end

section \<open>Bytes as hexadecimal digits\<close>

text \<open>\<^verbatim>\<open>hex.EncodeToString\<close>\<close>

definition hex_lower :: "nat \<Rightarrow> char" where
  "hex_lower n = (if n < 10 then char_of (48 + n) else char_of (87 + n))"

definition hex_encode :: "string \<Rightarrow> string" where
  "hex_encode bs = concat (map (\<lambda>b. [hex_lower (of_char b div 16), hex_lower (of_char b mod 16)]) bs)"

lemma hex_lower_inj: "m < 16 \<Longrightarrow> n < 16 \<Longrightarrow> hex_lower m = hex_lower n \<Longrightarrow> m = n"
proof -
  assume mn: "m < 16" "n < 16" and "hex_lower m = hex_lower n"
  then have "(of_char (hex_lower m) :: nat) = of_char (hex_lower n)" by simp
  with mn show "m = n" by (auto simp: hex_lower_def split: if_splits)
qed

lemma of_char_halves: "of_char b div 16 = of_char c div (16 :: nat) \<Longrightarrow> of_char b mod 16 = of_char c mod (16 :: nat) \<Longrightarrow> b = c"
  by (metis div_mult_mod_eq of_char_eq_iff)

lemma hex_byte_inj:
  assumes "hex_lower (of_char b div 16) = hex_lower (of_char c div 16)"
    and "hex_lower (of_char b mod 16) = hex_lower (of_char c mod 16)"
  shows "b = c"
proof (rule of_char_halves)
  have "of_char b div 16 < (16 :: nat)" "of_char c div 16 < (16 :: nat)"
    by (rule less_mult_imp_div_less, simp)+
  then show "of_char b div 16 = of_char c div (16 :: nat)"
    by (rule hex_lower_inj [OF _ _ assms(1)])
  show "of_char b mod 16 = of_char c mod (16 :: nat)"
    by (intro hex_lower_inj [OF _ _ assms(2)]) auto
qed

lemma hex_encode_inj: "hex_encode a = hex_encode b \<longleftrightarrow> a = b"
proof
  assume "hex_encode a = hex_encode b"
  then show "a = b"
  proof (induction a arbitrary: b)
    case Nil
    then show ?case by (cases b) (auto simp: hex_encode_def)
  next
    case (Cons x a)
    then obtain y b' where b: "b = y # b'" by (cases b) (auto simp: hex_encode_def)
    with Cons.prems have h: "hex_lower (of_char x div 16) = hex_lower (of_char y div 16)"
        "hex_lower (of_char x mod 16) = hex_lower (of_char y mod 16)" "hex_encode a = hex_encode b'"
      by (simp_all only: hex_encode_def list.map concat.simps append.simps list.inject)
    from hex_byte_inj [OF h(1,2)] Cons.IH [OF h(3)] b show ?case by simp
  qed
qed simp

end
