(* ===== verification/Channels.thy ===== *)
theory Channels
  imports Prelude
begin

text \<open>
  Buffered Go channels as values: the queued elements, the buffer size and the closed
  flag. The sources only use a channel through a non-blocking send (a \<^verbatim>\<open>select\<close> with
  a \<^verbatim>\<open>default\<close> branch), a receive and \<^verbatim>\<open>close\<close>; sending on or closing a closed channel
  panics. The interface is a locale over the abstract contents; what the clients rely on
  is proved once there.
\<close>

record 'a chan =
  queued :: "'a list"
  buffer :: nat
  shut :: bool

datatype 'a received = Got 'a | EndOfChannel | WouldBlock

definition make_chan :: "nat \<Rightarrow> 'a chan" where
  "make_chan n = \<lparr>queued = [], buffer = n, shut = False\<rparr>"

text \<open>\<open>Returns (c, sent)\<close>: whether the send branch or the default branch was taken.\<close>

definition try_send :: "'a \<Rightarrow> 'a chan \<Rightarrow> ('a chan \<times> bool) outcome" where
  "try_send x c =
     (if shut c then Panics ''send on closed channel''
      else if length (queued c) < buffer c then Returns (c\<lparr>queued := queued c @ [x]\<rparr>, True)
      else Returns (c, False))"

definition close_chan :: "'a chan \<Rightarrow> 'a chan outcome" where
  "close_chan c = (if shut c then Panics ''close of closed channel'' else Returns (c\<lparr>shut := True\<rparr>))"

definition recv :: "'a chan \<Rightarrow> 'a received \<times> 'a chan" where
  "recv c = (case queued c of
      x # xs \<Rightarrow> (Got x, c\<lparr>queued := xs\<rparr>)
    | [] \<Rightarrow> (if shut c then EndOfChannel else WouldBlock, c))"

locale bounded_channel =
  fixes contents :: "'c \<Rightarrow> 'a list"
    and capacity :: "'c \<Rightarrow> nat"
    and closed :: "'c \<Rightarrow> bool"
    and send :: "'a \<Rightarrow> 'c \<Rightarrow> ('c \<times> bool) outcome"
    and take1 :: "'c \<Rightarrow> 'a received \<times> 'c"
  assumes send_open: "\<not> closed c \<Longrightarrow> \<exists>c'. send x c = Returns (c', length (contents c) < capacity c)
      \<and> contents c' = (if length (contents c) < capacity c then contents c @ [x] else contents c)
      \<and> capacity c' = capacity c \<and> \<not> closed c'"
    and take1_Cons: "contents c = x # xs \<Longrightarrow> \<exists>c'. take1 c = (Got x, c') \<and> contents c' = xs
      \<and> capacity c' = capacity c \<and> closed c' = closed c"
begin

fun send_all :: "'a list \<Rightarrow> 'c \<Rightarrow> 'c outcome" where
  "send_all [] c = Returns c"
| "send_all (x # xs) c = bind_outcome (send x c) (\<lambda>(c', _). send_all xs c')"

text \<open>
  Any number of non-blocking sends keeps the elements that fitted, oldest first, drops the
  rest and never panics while the channel is open.
\<close>

lemma send_all_take:
  assumes "\<not> closed c" "length (contents c) \<le> capacity c"
  shows "\<exists>c'. send_all xs c = Returns c' \<and> \<not> closed c' \<and> capacity c' = capacity c
           \<and> contents c' = take (capacity c) (contents c @ xs)"
  using assms
proof (induction xs arbitrary: c)
  case Nil
  then show ?case by simp
next
  case (Cons x xs)
  obtain d where d: "send x c = Returns (d, length (contents c) < capacity c)"
      "capacity d = capacity c" "\<not> closed d"
      "contents d = (if length (contents c) < capacity c then contents c @ [x] else contents c)"
    using send_open Cons.prems(1) by blast
  then have "length (contents d) \<le> capacity d" using Cons.prems(2) by auto
  with Cons.IH [of d] d Cons.prems(2) show ?case by (auto simp: take_Cons')
qed

fun take_many :: "nat \<Rightarrow> 'c \<Rightarrow> 'a received list \<times> 'c" where
  "take_many 0 c = ([], c)"
| "take_many (Suc n) c = (case take1 c of (r, c') \<Rightarrow> (case take_many n c' of (rs, c'') \<Rightarrow> (r # rs, c'')))"

text \<open>Elements come out in the order in which they went in.\<close>

lemma take_many_contents:
  "n \<le> length (contents c) \<Longrightarrow> fst (take_many n c) = map Got (take n (contents c))"
proof (induction n arbitrary: c)
  case 0
  then show ?case by simp
next
  case (Suc n)
  then obtain x xs where xs: "contents c = x # xs" by (cases "contents c") auto
  then obtain d where d: "take1 c = (Got x, d)" "contents d = xs" using take1_Cons by blast
  with Suc.prems xs have "fst (take_many n d) = map Got (take n xs)" using Suc.IH [of d] by simp
  with d xs show ?case by (cases "take_many n d") simp
qed

end

interpretation go_chan: bounded_channel queued buffer shut try_send recv
  by unfold_locales (auto simp: try_send_def recv_def)

subsection \<open>Facts about single operations\<close>

lemma make_chan_simps [simp]:
  "queued (make_chan n) = []" "buffer (make_chan n) = n" "shut (make_chan n) = False"
  by (simp_all add: make_chan_def)

lemma try_send_open:
  "\<not> shut c \<Longrightarrow> length (queued c) < buffer c
     \<Longrightarrow> try_send x c = Returns (c\<lparr>queued := queued c @ [x]\<rparr>, True)"
  by (simp add: try_send_def)

lemma try_send_full:
  "\<not> shut c \<Longrightarrow> \<not> length (queued c) < buffer c \<Longrightarrow> try_send x c = Returns (c, False)"
  by (simp add: try_send_def)

lemma close_open [simp]: "\<not> shut c \<Longrightarrow> close_chan c = Returns (c\<lparr>shut := True\<rparr>)"
  by (simp add: close_chan_def)

lemmas chan_ops [chan_simps] = try_send_open try_send_full close_open

lemma recv_Got_iff: "recv c = (Got x, c') \<longleftrightarrow> (\<exists>xs. queued c = x # xs \<and> c' = c\<lparr>queued := xs\<rparr>)"
  by (auto simp: recv_def split: list.splits)

lemma recv_never_blocks_shut: "shut c \<Longrightarrow> fst (recv c) \<noteq> WouldBlock"
  by (simp add: recv_def split: list.splits)

end
