(* ===== verification/Broadcaster.thy ===== *)
theory Broadcaster
  imports Channels
begin

text \<open>
  \<^verbatim>\<open>lightBroadcaster\<close> of \<^verbatim>\<open>services/s-rpc-mqtt/mqtt_lights_watch.go\<close>: the fan-out of light
  updates to the streaming subscribers. Channels live in a store indexed by allocation
  number (a Go channel is a reference); the subscriber map is the list of the channels
  registered in it. Every method holds the mutex for its whole body, so one method call is
  one step; the order in which Go iterates over the subscriber map is not determined, so it
  is an argument.
\<close>

definition subscriberBuffer :: nat where
  "subscriberBuffer = 16"

record 'a lightBroadcaster =
  subscribers :: "nat list"
  chans :: "nat \<Rightarrow> 'a chan"
  allocated :: nat
  closed :: bool

definition newLightBroadcaster :: "'a lightBroadcaster" where
  "newLightBroadcaster =
     \<lparr>subscribers = [], chans = (\<lambda>_. make_chan 0), allocated = 0, closed = False\<rparr>"

text \<open>
  \<^verbatim>\<open>subscribe\<close> returns the channel and the unsubscribe function, which is a no-op when
  the broadcaster was closed; the function is represented by the flag that says whether it
  deletes the channel.
\<close>

definition subscribe ::
  "'a lightBroadcaster \<Rightarrow> ((nat \<times> bool) \<times> 'a lightBroadcaster) outcome" where
  "subscribe b =
     (let updates = allocated b; c = make_chan subscriberBuffer in
      if closed b then
        bind_outcome (close_chan c) (\<lambda>c'. Returns ((updates, False),
          b\<lparr>chans := (chans b)(updates := c'), allocated := Suc updates\<rparr>))
      else
        Returns ((updates, True),
          b\<lparr>subscribers := updates # subscribers b,
            chans := (chans b)(updates := c), allocated := Suc updates\<rparr>))"

definition unsubscribe :: "nat \<times> bool \<Rightarrow> 'a lightBroadcaster \<Rightarrow> 'a lightBroadcaster" where
  "unsubscribe f b =
     (case f of (updates, deletes) \<Rightarrow>
        if deletes then b\<lparr>subscribers := removeAll updates (subscribers b)\<rparr> else b)"

definition publish_one :: "'a \<Rightarrow> nat \<Rightarrow> 'a lightBroadcaster \<Rightarrow> 'a lightBroadcaster outcome" where
  "publish_one status updates b =
     bind_outcome (try_send status (chans b updates)) (\<lambda>(c, sent).
       if sent then Returns (b\<lparr>chans := (chans b)(updates := c)\<rparr>)
       else bind_outcome (close_chan c) (\<lambda>c'.
         Returns (b\<lparr>subscribers := removeAll updates (subscribers b),
                    chans := (chans b)(updates := c')\<rparr>)))"

fun publish :: "nat list \<Rightarrow> 'a \<Rightarrow> 'a lightBroadcaster \<Rightarrow> 'a lightBroadcaster outcome" where
  "publish [] status b = Returns b"
| "publish (updates # order) status b =
     bind_outcome (publish_one status updates b) (publish order status)"

fun close_subs :: "nat list \<Rightarrow> 'a lightBroadcaster \<Rightarrow> 'a lightBroadcaster outcome" where
  "close_subs [] b = Returns b"
| "close_subs (updates # order) b =
     bind_outcome (close_chan (chans b updates)) (\<lambda>c.
       close_subs order (b\<lparr>subscribers := removeAll updates (subscribers b),
                           chans := (chans b)(updates := c)\<rparr>))"

definition close_broadcaster :: "nat list \<Rightarrow> 'a lightBroadcaster \<Rightarrow> 'a lightBroadcaster outcome" where
  "close_broadcaster order b = close_subs order (b\<lparr>closed := True\<rparr>)"

section \<open>Invariant\<close>

definition lb_inv :: "'a lightBroadcaster \<Rightarrow> bool" where
  "lb_inv b \<longleftrightarrow>
     distinct (subscribers b)
   \<and> (\<forall>i \<in> set (subscribers b). i < allocated b \<and> \<not> shut (chans b i)
        \<and> buffer (chans b i) = subscriberBuffer
        \<and> length (queued (chans b i)) \<le> subscriberBuffer)
   \<and> (closed b \<longrightarrow> subscribers b = [])"

lemma lb_inv_init: "lb_inv newLightBroadcaster"
  by (simp add: lb_inv_def newLightBroadcaster_def)

subsection \<open>Publishing, as a specification\<close>

text \<open>
  What one publish does to every channel at once: a registered channel with room gets the
  status appended, a full one is closed and dropped, every other channel is untouched.
\<close>

definition has_room :: "'a lightBroadcaster \<Rightarrow> nat \<Rightarrow> bool" where
  "has_room b i \<longleftrightarrow> length (queued (chans b i)) < buffer (chans b i)"

definition deliver :: "nat set \<Rightarrow> 'a \<Rightarrow> 'a lightBroadcaster \<Rightarrow> 'a lightBroadcaster" where
  "deliver I status b =
     b\<lparr>subscribers := filter (\<lambda>i. i \<in> I \<longrightarrow> has_room b i) (subscribers b),
       chans := (\<lambda>i. if i \<in> I then
                       if has_room b i then (chans b i)\<lparr>queued := queued (chans b i) @ [status]\<rparr>
                       else (chans b i)\<lparr>shut := True\<rparr>
                     else chans b i)\<rparr>"

lemma publish_one_deliver:
  assumes "\<not> shut (chans b i)"
  shows "publish_one v i b = Returns (deliver {i} v b)"
proof (cases "has_room b i")
  case True
  then have "filter (\<lambda>j. j = i \<longrightarrow> has_room b j) (subscribers b) = subscribers b"
    by (auto intro: filter_True)
  with True assms show ?thesis
    by (simp add: publish_one_def try_send_open has_room_def)
      (rule lightBroadcaster.equality, auto simp: deliver_def has_room_def)
next
  case False
  then have "filter (\<lambda>j. j = i \<longrightarrow> has_room b j) (subscribers b) = removeAll i (subscribers b)"
    by (auto simp: removeAll_filter_not_eq intro: filter_cong)
  with False assms show ?thesis
    by (simp add: publish_one_def try_send_full has_room_def)
      (rule lightBroadcaster.equality, auto simp: deliver_def has_room_def)
qed

lemma deliver_insert:
  "i \<notin> I \<Longrightarrow> deliver I v (deliver {i} v b) = deliver (insert i I) v b"
  by (rule lightBroadcaster.equality) (auto simp: deliver_def has_room_def intro!: filter_cong)

lemma publish_deliver:
  assumes "distinct order" "\<forall>i \<in> set order. \<not> shut (chans b i)"
  shows "publish order v b = Returns (deliver (set order) v b)"
  using assms
proof (induction order arbitrary: b)
  case Nil
  then show ?case by (simp add: deliver_def)
next
  case (Cons i order)
  then have "\<forall>j \<in> set order. \<not> shut (chans (deliver {i} v b) j)"
    by (auto simp: deliver_def)
  with Cons show ?case
    by (simp add: publish_one_deliver deliver_insert)
qed

lemma close_subs_spec:
  assumes "distinct order" "\<forall>i \<in> set order. \<not> shut (chans b i)"
  shows "close_subs order b = Returns (b\<lparr>
     subscribers := filter (\<lambda>i. i \<notin> set order) (subscribers b),
     chans := (\<lambda>i. if i \<in> set order then (chans b i)\<lparr>shut := True\<rparr> else chans b i)\<rparr>)"
  using assms
proof (induction order arbitrary: b)
  case Nil
  then show ?case by simp
next
  case (Cons i order)
  then show ?case
    by simp (rule lightBroadcaster.equality, auto simp: removeAll_filter_not_eq intro!: filter_cong)
qed

section \<open>Steps\<close>

text \<open>
  One call by any goroutine. \<open>Subscribe i d\<close> returns channel \<open>i\<close> with an unsubscribe
  function described by \<open>d\<close>; \<open>Receive i r\<close> is a receive from channel \<open>i\<close> by its
  consumer, which does not take the mutex.
\<close>

datatype 'a lb_event =
    Subscribe nat bool | Unsubscribe nat bool | Publish 'a | Close | Receive nat "'a received"

inductive lb_step :: "'a lightBroadcaster \<Rightarrow> 'a lb_event \<Rightarrow> 'a lightBroadcaster outcome \<Rightarrow> bool" where
  sub_ok: "subscribe b = Returns ((i, d), b') \<Longrightarrow> lb_step b (Subscribe i d) (Returns b')"
| sub_panic: "subscribe b = Panics m \<Longrightarrow> lb_step b (Subscribe i d) (Panics m)"
| unsub: "lb_step b (Unsubscribe i d) (Returns (unsubscribe (i, d) b))"
| pub: "distinct order \<Longrightarrow> set order = set (subscribers b) \<Longrightarrow>
    lb_step b (Publish v) (publish order v b)"
| cls: "distinct order \<Longrightarrow> set order = set (subscribers b) \<Longrightarrow>
    lb_step b Close (close_broadcaster order b)"
| rcv: "recv (chans b i) = (r, c) \<Longrightarrow>
    lb_step b (Receive i r) (Returns (b\<lparr>chans := (chans b)(i := c)\<rparr>))"

inductive_cases lb_publishE: "lb_step b (Publish v) r"
inductive_cases lb_closeE: "lb_step b Close r"
inductive_cases lb_subscribeE: "lb_step b (Subscribe i d) r"
inductive_cases lb_unsubscribeE: "lb_step b (Unsubscribe i d) r"
inductive_cases lb_receiveE: "lb_step b (Receive i x) r"

lemmas lb_stepE = lb_publishE lb_closeE lb_subscribeE lb_unsubscribeE lb_receiveE

inductive lb_reachable :: "'a lightBroadcaster \<Rightarrow> bool" where
  start: "lb_reachable newLightBroadcaster"
| step: "lb_reachable b \<Longrightarrow> lb_step b e (Returns b') \<Longrightarrow> lb_reachable b'"

lemma lb_inv_shut: "lb_inv b \<Longrightarrow> i \<in> set (subscribers b) \<Longrightarrow> \<not> shut (chans b i)"
  by (simp add: lb_inv_def)

lemma lb_publish_eq:
  assumes "lb_inv b" "distinct order" "set order = set (subscribers b)"
  shows "publish order v b = Returns (deliver (set (subscribers b)) v b)"
  using assms publish_deliver [of order b v] by (auto dest: lb_inv_shut)

lemma lb_close_eq:
  assumes "lb_inv b" "distinct order" "set order = set (subscribers b)"
  shows "close_broadcaster order b = Returns (b\<lparr>closed := True, subscribers := [],
     chans := (\<lambda>i. if i \<in> set (subscribers b) then (chans b i)\<lparr>shut := True\<rparr> else chans b i)\<rparr>)"
  unfolding close_broadcaster_def
  using assms close_subs_spec [of order "b\<lparr>closed := True\<rparr>"]
  by (simp add: lb_inv_shut) (rule lightBroadcaster.equality, auto)

lemma subscribe_eq:
  "subscribe b = Returns ((allocated b, \<not> closed b),
     b\<lparr>subscribers := (if closed b then subscribers b else allocated b # subscribers b),
       chans := (chans b)(allocated b := (make_chan subscriberBuffer)\<lparr>shut := closed b\<rparr>),
       allocated := Suc (allocated b)\<rparr>)"
  by (simp add: subscribe_def Let_def make_chan_def)

lemma lb_inv_deliver:
  assumes "lb_inv b"
  shows "lb_inv (deliver (set (subscribers b)) v b)"
  using assms by (auto simp: lb_inv_def deliver_def has_room_def)

lemma lb_inv_recv:
  assumes "lb_inv b" "recv (chans b i) = (r, c)"
  shows "lb_inv (b\<lparr>chans := (chans b)(i := c)\<rparr>)"
  using assms by (auto simp: lb_inv_def recv_def split: list.splits if_splits)

lemma lb_inv_subscribe:
  assumes "lb_inv b" "subscribe b = Returns (f, b')"
  shows "lb_inv b'"
  using assms by (auto simp: lb_inv_def subscribe_eq less_Suc_eq split: if_splits)

lemma lb_step_safe:
  assumes "lb_step b e r" "lb_inv b"
  shows "\<exists>b'. r = Returns b' \<and> lb_inv b'"
  using assms
proof (induction rule: lb_step.induct)
  case (sub_ok b i d b')
  then show ?case using lb_inv_subscribe by blast
next
  case (sub_panic b m i d)
  then show ?case by (simp add: subscribe_eq)
next
  case (unsub b i d)
  then show ?case by (auto simp: unsubscribe_def lb_inv_def distinct_removeAll)
next
  case (pub order b v)
  then show ?case by (simp add: lb_publish_eq lb_inv_deliver)
next
  case (cls order b)
  then show ?case by (simp add: lb_close_eq) (simp add: lb_inv_def)
next
  case (rcv b i r c)
  then show ?case by (simp add: lb_inv_recv)
qed

lemma lb_reachable_inv: "lb_reachable b \<Longrightarrow> lb_inv b"
proof (induction rule: lb_reachable.induct)
  case start
  show ?case by (rule lb_inv_init)
next
  case (step b e b')
  then show ?case using lb_step_safe by fastforce
qed

section \<open>Whole executions\<close>

inductive lb_trace :: "'a lightBroadcaster \<Rightarrow> 'a lb_event list \<Rightarrow> 'a lightBroadcaster \<Rightarrow> bool" where
  nil: "lb_trace b [] b"
| cons: "lb_step b e (Returns b') \<Longrightarrow> lb_trace b' es b'' \<Longrightarrow> lb_trace b (e # es) b''"

fun published1 :: "'a lb_event \<Rightarrow> 'a list" where
  "published1 (Publish v) = [v]"
| "published1 _ = []"

fun taken1 :: "nat \<Rightarrow> 'a lb_event \<Rightarrow> 'a list" where
  "taken1 i (Receive j (Got v)) = (if i = j then [v] else [])"
| "taken1 i _ = []"

definition published :: "'a lb_event list \<Rightarrow> 'a list" where
  "published es = concat (map published1 es)"

definition taken :: "nat \<Rightarrow> 'a lb_event list \<Rightarrow> 'a list" where
  "taken i es = concat (map (taken1 i) es)"

lemma published_simps [simp]:
  "published [] = []" "published (e # es) = published1 e @ published es"
  by (simp_all add: published_def)

lemma taken_simps [simp]:
  "taken i [] = []" "taken i (e # es) = taken1 i e @ taken i es"
  by (simp_all add: taken_def)

text \<open>
  One step, seen from a channel \<open>i\<close> that already exists: what is registered afterwards was
  registered before, a registered channel gains exactly what is published, any other gains
  nothing, and a channel only stops being registered by its own unsubscribe or by being
  closed.
\<close>

definition step_view :: "nat \<Rightarrow> 'a lightBroadcaster \<Rightarrow> 'a lb_event \<Rightarrow> 'a lightBroadcaster \<Rightarrow> bool" where
  "step_view i b e b' \<longleftrightarrow>
     i < allocated b'
   \<and> (i \<in> set (subscribers b') \<longrightarrow> i \<in> set (subscribers b)
        \<and> taken1 i e @ queued (chans b' i) = queued (chans b i) @ published1 e)
   \<and> (i \<notin> set (subscribers b') \<longrightarrow> taken1 i e @ queued (chans b' i) = queued (chans b i))
   \<and> (shut (chans b i) \<longrightarrow> shut (chans b' i))
   \<and> (i \<in> set (subscribers b) \<and> i \<notin> set (subscribers b') \<and> e \<noteq> Unsubscribe i True
        \<longrightarrow> shut (chans b' i))"

lemma recv_view:
  "recv (chans b j) = (r, c) \<Longrightarrow>
     taken1 i (Receive j r) @ queued (((chans b)(j := c)) i) = queued (chans b i)
   \<and> shut (((chans b)(j := c)) i) = shut (chans b i)"
  by (auto simp: recv_def split: list.splits if_splits)

lemma lb_step_view:
  assumes "lb_step b e (Returns b')" "lb_inv b" "i < allocated b"
  shows "step_view i b e b'"
proof (cases e)
  case (Subscribe j d)
  with assms show ?thesis
    by (auto elim!: lb_subscribeE simp: subscribe_eq step_view_def split: if_splits)
next
  case (Unsubscribe j d)
  with assms show ?thesis
    by (auto elim!: lb_unsubscribeE simp: unsubscribe_def step_view_def split: if_splits)
next
  case (Publish v)
  with assms have "b' = deliver (set (subscribers b)) v b"
    by (auto elim!: lb_publishE simp: lb_publish_eq)
  with Publish assms show ?thesis
    by (auto simp: step_view_def deliver_def has_room_def)
next
  case Close
  with assms(1) obtain order where "distinct order" "set order = set (subscribers b)"
      "close_broadcaster order b = Returns b'"
    by (auto elim: lb_closeE)
  with lb_close_eq [OF assms(2)] have "b' = b\<lparr>closed := True, subscribers := [],
      chans := (\<lambda>i. if i \<in> set (subscribers b) then (chans b i)\<lparr>shut := True\<rparr> else chans b i)\<rparr>"
    by simp
  with Close assms(3) show ?thesis by (simp add: step_view_def)
next
  case (Receive j r)
  with assms obtain c where c: "recv (chans b j) = (r, c)" "b' = b\<lparr>chans := (chans b)(j := c)\<rparr>"
    by (auto elim!: lb_receiveE)
  with Receive recv_view [OF c(1), of i] assms(3) show ?thesis by (auto simp: step_view_def)
qed

definition trace_view :: "nat \<Rightarrow> 'a lightBroadcaster \<Rightarrow> 'a lb_event list \<Rightarrow> 'a lightBroadcaster \<Rightarrow> bool" where
  "trace_view i b es b' \<longleftrightarrow>
     (i \<in> set (subscribers b') \<longrightarrow> i \<in> set (subscribers b)
        \<and> taken i es @ queued (chans b' i) = queued (chans b i) @ published es)
   \<and> (i \<notin> set (subscribers b) \<longrightarrow> taken i es @ queued (chans b' i) = queued (chans b i))
   \<and> (\<exists>k. taken i es @ queued (chans b' i) = queued (chans b i) @ take k (published es))
   \<and> (shut (chans b i) \<longrightarrow> shut (chans b' i))
   \<and> (i \<in> set (subscribers b) \<and> i \<notin> set (subscribers b') \<and> Unsubscribe i True \<notin> set es
        \<longrightarrow> shut (chans b' i))"

lemma append_chain: "a @ y = x @ p \<Longrightarrow> t @ z = y @ r \<Longrightarrow> a @ t @ z = x @ p @ r"
  by (metis append_assoc)

lemma trace_view_cons:
  assumes s: "step_view i b e b1" and t: "trace_view i b1 es b'"
  shows "trace_view i b (e # es) b'"
proof -
  let ?in = "\<lambda>x. i \<in> set (subscribers x)" and ?q = "\<lambda>x. queued (chans x i)"
  have s_in: "?in b1 \<Longrightarrow> ?in b" "?in b1 \<Longrightarrow> taken1 i e @ ?q b1 = ?q b @ published1 e"
    and s_out: "\<not> ?in b1 \<Longrightarrow> taken1 i e @ ?q b1 = ?q b @ []"
    using s by (auto simp: step_view_def)
  have t_in: "?in b' \<Longrightarrow> ?in b1" "?in b' \<Longrightarrow> taken i es @ ?q b' = ?q b1 @ published es"
    and t_out: "\<not> ?in b1 \<Longrightarrow> taken i es @ ?q b' = ?q b1 @ []"
    using t by (auto simp: trace_view_def)
  obtain k where k: "taken i es @ ?q b' = ?q b1 @ take k (published es)"
    using t unfolding trace_view_def by blast
  have out: "\<not> ?in b1 \<Longrightarrow> taken i (e # es) @ ?q b' = ?q b"
    using append_chain [OF s_out t_out] by simp
  have "\<exists>k. taken i (e # es) @ ?q b' = ?q b @ take k (published (e # es))"
  proof (cases "?in b1")
    case True
    have "taken i (e # es) @ ?q b' = ?q b @ take (length (published1 e) + k) (published (e # es))"
      using append_chain [OF s_in(2) [OF True] k] by simp
    then show ?thesis by blast
  next
    case False
    then have "taken i (e # es) @ ?q b' = ?q b @ take 0 (published (e # es))" using out by simp
    then show ?thesis by blast
  qed
  moreover have "?in b' \<Longrightarrow> ?in b \<and> taken i (e # es) @ ?q b' = ?q b @ published (e # es)"
    using append_chain [OF s_in(2) t_in(2)] s_in(1) t_in(1) by simp
  moreover have "\<not> ?in b \<Longrightarrow> taken i (e # es) @ ?q b' = ?q b"
    using out s_in(1) by blast
  moreover have "shut (chans b i) \<Longrightarrow> shut (chans b' i)"
    "?in b \<Longrightarrow> \<not> ?in b' \<Longrightarrow> Unsubscribe i True \<notin> set (e # es) \<Longrightarrow> shut (chans b' i)"
    using s t by (auto simp: step_view_def trace_view_def)
  ultimately show ?thesis unfolding trace_view_def by blast
qed

lemma lb_trace_view:
  assumes "lb_trace b es b'" "lb_inv b" "i < allocated b"
  shows "trace_view i b es b'"
  using assms
proof (induction rule: lb_trace.induct)
  case (nil b)
  then show ?case by (simp add: trace_view_def)
next
  case (cons b e b1 es b2)
  then have v: "step_view i b e b1" using lb_step_view by blast
  from cons have "lb_inv b1" using lb_step_safe by fastforce
  moreover from v have "i < allocated b1" by (simp add: step_view_def)
  ultimately show ?case using cons.IH trace_view_cons [OF v] by blast
qed

section \<open>Properties\<close>

text \<open>
  C1: however subscribers come and go, fall behind, unsubscribe twice or outlive the
  broadcaster, no call on a broadcaster ever sends on a closed channel or closes one twice:
  every step from a reachable state returns.
\<close>

theorem broadcaster_never_panics:
  assumes "lb_reachable b" "lb_step b e r"
  shows "\<exists>b'. r = Returns b' \<and> lb_reachable b'"
proof -
  from assms(1) have "lb_inv b" by (rule lb_reachable_inv)
  with assms(2) obtain b' where "r = Returns b'" using lb_step_safe by blast
  with assms show ?thesis by (auto intro: lb_reachable.step)
qed

theorem broadcaster_never_panics_witness:
  "\<exists>b'. publish [] (7::nat) newLightBroadcaster = Returns b' \<and> lb_reachable b'"
  by (rule broadcaster_never_panics [OF lb_reachable.start lb_step.pub])
    (simp_all add: newLightBroadcaster_def)

text \<open>
  C2: a subscriber never silently misses an update. From the moment \<open>subscribe\<close> returns,
  what a subscriber has received plus what is still buffered for it is a prefix, in order
  and without repetition, of everything published since; it is all of it while the
  subscriber stays registered; and a subscriber that did not unsubscribe and is no longer
  registered finds its channel closed.
\<close>

theorem broadcaster_no_silent_loss:
  assumes "lb_reachable b" "lb_step b (Subscribe i d) (Returns b1)" "lb_trace b1 es b2"
  shows "(\<exists>k. taken i es @ queued (chans b2 i) = take k (published es))
    \<and> (i \<in> set (subscribers b2) \<longrightarrow> taken i es @ queued (chans b2 i) = published es)
    \<and> (i \<notin> set (subscribers b2) \<and> Unsubscribe i True \<notin> set es \<longrightarrow> shut (chans b2 i))"
proof -
  from assms(1) have inv: "lb_inv b" by (rule lb_reachable_inv)
  from assms(2) have new: "i < allocated b1" "queued (chans b1 i) = []"
      "i \<notin> set (subscribers b1) \<longrightarrow> shut (chans b1 i)"
    by (auto elim!: lb_subscribeE simp: subscribe_eq)
  from assms(2) inv have "lb_inv b1" using lb_step_safe by fastforce
  with assms(3) new have "trace_view i b1 es b2" using lb_trace_view by blast
  with new show ?thesis by (auto simp: trace_view_def)
qed

definition demo_events :: "nat lb_event list" where
  "demo_events = [Publish 1, Receive 0 (Got 1), Publish 2]"

theorem broadcaster_no_silent_loss_witness:
  "\<exists>b1 b2. lb_step newLightBroadcaster (Subscribe 0 True) (Returns b1) \<and> lb_trace b1 demo_events b2
     \<and> 0 \<in> set (subscribers b2) \<and> taken 0 demo_events @ queued (chans b2 0) = published demo_events"
proof -
  let ?b = "newLightBroadcaster :: nat lightBroadcaster"
  obtain b1 where b1: "subscribe ?b = Returns ((0, True), b1)"
    by (simp add: subscribe_eq newLightBroadcaster_def)
  then have s: "lb_step ?b (Subscribe 0 True) (Returns b1)" by (rule lb_step.sub_ok)
  from b1 have c1: "chans b1 0 = make_chan 16" "subscribers b1 = [0]"
    by (auto simp: subscribe_eq newLightBroadcaster_def subscriberBuffer_def make_chan_def)
  let ?b2 = "b1\<lparr>chans := (chans b1)(0 := (make_chan 16)\<lparr>queued := [1]\<rparr>)\<rparr>"
  let ?b3 = "b1\<lparr>chans := (chans b1)(0 := make_chan 16)\<rparr>"
  let ?b4 = "b1\<lparr>chans := (chans b1)(0 := (make_chan 16)\<lparr>queued := [2]\<rparr>)\<rparr>"
  have "publish [0] 1 b1 = Returns ?b2" "publish [0] 2 ?b3 = Returns ?b4"
    using c1 by (simp_all add: publish_one_def try_send_def make_chan_def)
  then have p: "lb_step b1 (Publish 1) (Returns ?b2)" "lb_step ?b3 (Publish 2) (Returns ?b4)"
    using lb_step.pub [of "[0]" b1 1] lb_step.pub [of "[0]" ?b3 2] c1 by simp_all
  have r: "lb_step ?b2 (Receive 0 (Got 1)) (Returns ?b3)"
    using lb_step.rcv [of ?b2 0 "Got 1" "make_chan 16"] by (simp add: recv_def make_chan_def)
  have t: "lb_trace b1 demo_events ?b4"
    unfolding demo_events_def
    by (rule lb_trace.cons [OF p(1) lb_trace.cons [OF r lb_trace.cons [OF p(2) lb_trace.nil]]])
  have live: "0 \<in> set (subscribers ?b4)" using c1 by simp
  with broadcaster_no_silent_loss [OF lb_reachable.start s t]
  have "taken 0 demo_events @ queued (chans ?b4 0) = published demo_events" by blast
  with s t live show ?thesis by blast
qed

text \<open>
  Publishing depends on which subscribers are registered and never on the order in
  which Go's map iteration visits them: each registered channel with room gets the status
  appended exactly once, each full one is closed and dropped, and no other channel changes.
\<close>

theorem publish_order_independent:
  assumes "lb_reachable b" "distinct order" "set order = set (subscribers b)"
  shows "publish order v b = Returns (b\<lparr>
      subscribers := filter (\<lambda>i. length (queued (chans b i)) < 16) (subscribers b),
      chans := (\<lambda>i. if i \<notin> set (subscribers b) then chans b i
                    else if length (queued (chans b i)) < 16
                    then (chans b i)\<lparr>queued := queued (chans b i) @ [v]\<rparr>
                    else (chans b i)\<lparr>shut := True\<rparr>)\<rparr>)"
proof -
  have inv: "lb_inv b" using assms(1) by (rule lb_reachable_inv)
  have "filter (\<lambda>i. i \<in> set (subscribers b) \<longrightarrow> has_room b i) (subscribers b)
      = filter (\<lambda>i. length (queued (chans b i)) < 16) (subscribers b)"
    using inv by (auto simp: lb_inv_def has_room_def subscriberBuffer_def intro: filter_cong)
  with inv assms(2,3) show ?thesis
    by (simp add: lb_publish_eq)
      (rule lightBroadcaster.equality, auto simp: deliver_def has_room_def lb_inv_def subscriberBuffer_def)
qed

theorem publish_order_independent_witness:
  "publish [] (3::nat) newLightBroadcaster = Returns newLightBroadcaster"
  using publish_order_independent [OF lb_reachable.start, of "[]" 3]
  by (simp add: newLightBroadcaster_def)

text \<open>
  Closing the broadcaster closes every registered channel and leaves none registered,
  and a channel subscribed afterwards is already closed, so its receiver is told the end of
  the stream instead of waiting.
\<close>

theorem close_ends_subscribers:
  assumes "lb_reachable b" "lb_step b Close (Returns b1)"
  shows "subscribers b1 = [] \<and> (\<forall>i \<in> set (subscribers b). shut (chans b1 i))
    \<and> (\<exists>i b2. subscribe b1 = Returns ((i, False), b2) \<and> fst (recv (chans b2 i)) = EndOfChannel)"
proof -
  have "lb_inv b" using assms(1) by (rule lb_reachable_inv)
  with assms(2) have "b1 = b\<lparr>closed := True, subscribers := [],
      chans := (\<lambda>i. if i \<in> set (subscribers b) then (chans b i)\<lparr>shut := True\<rparr> else chans b i)\<rparr>"
    by (auto elim!: lb_closeE simp: lb_close_eq)
  then show ?thesis by (simp add: subscribe_eq recv_def make_chan_def)
qed

theorem close_ends_subscribers_witness:
  "\<exists>b1::nat lightBroadcaster. close_broadcaster [] newLightBroadcaster = Returns b1 \<and>
     (\<exists>i b2. subscribe b1 = Returns ((i, False), b2) \<and> fst (recv (chans b2 i)) = EndOfChannel)"
proof -
  let ?b1 = "newLightBroadcaster\<lparr>closed := True\<rparr> :: nat lightBroadcaster"
  have c: "close_broadcaster [] newLightBroadcaster = Returns ?b1"
    by (simp add: close_broadcaster_def)
  have "lb_step newLightBroadcaster Close (close_broadcaster [] newLightBroadcaster :: nat lightBroadcaster outcome)"
    by (rule lb_step.cls) (simp_all add: newLightBroadcaster_def)
  then have "lb_step newLightBroadcaster Close (Returns ?b1)" using c by simp
  from close_ends_subscribers [OF lb_reachable.start this] c show ?thesis by blast
qed

end
