(* ===== verification/Terrors.thy ===== *)
theory Terrors
  imports Prelude
begin

text \<open>
  The error values of the program. The sources build and test errors with the vendored
  package \<^verbatim>\<open>github.com/monzo/terrors\<close> and with the standard \<^verbatim>\<open>errors\<close> and
  \<^verbatim>\<open>fmt\<close> packages; the datatype has one constructor per kind of error value.
  A Go \<^verbatim>\<open>error\<close> is a \<open>go_error option\<close>, with \<open>None\<close> for \<^verbatim>\<open>nil\<close>. Stack
  frames, marshal counts and the unexpected flag of a terror are diagnostics that no code
  of the program reads; they are left out.
\<close>

datatype grpc_code =
    DeadlineExceeded | CodeNotFound | InvalidArgument | PermissionDenied | CodeUnknown
  | FailedPrecondition

datatype go_error =
    TError (terr_code: string) (terr_message: string) (terr_chain: "string list")
      (terr_params: "(string \<times> string) list") (terr_retry: "bool option")
      (terr_cause: "go_error option")
  | Plain string               \<comment> \<open>\<^verbatim>\<open>errors.New\<close> and opaque library errors\<close>
  | Sentinel string            \<comment> \<open>package-level errors compared by identity, e.g. \<^verbatim>\<open>io.EOF\<close>\<close>
  | Wrapped string go_error    \<comment> \<open>\<^verbatim>\<open>fmt.Errorf\<close> with \<^verbatim>\<open>%w\<close>\<close>
  | Joined "go_error list"     \<comment> \<open>\<^verbatim>\<open>errors.Join\<close>\<close>
  | Status grpc_code string    \<comment> \<open>\<^verbatim>\<open>status.Error\<close>\<close>

type_synonym err = "go_error option"
type_synonym params = "(string \<times> string) list"

abbreviation io_EOF :: go_error where
  "io_EOF \<equiv> Sentinel ''EOF''"

section \<open>Codes and constructors\<close>

definition ErrBadRequest :: string where "ErrBadRequest = ''bad_request''"
definition ErrForbidden :: string where "ErrForbidden = ''forbidden''"
definition ErrInternalService :: string where "ErrInternalService = ''internal_service''"
definition ErrNotFound :: string where "ErrNotFound = ''not_found''"
definition ErrPreconditionFailed :: string where "ErrPreconditionFailed = ''precondition_failed''"
definition ErrTimeout :: string where "ErrTimeout = ''timeout''"
definition ErrUnknown :: string where "ErrUnknown = ''unknown''"
definition ErrRateLimited :: string where "ErrRateLimited = ''rate_limited''"

lemmas err_code_defs = ErrBadRequest_def ErrForbidden_def ErrInternalService_def ErrNotFound_def
  ErrPreconditionFailed_def ErrTimeout_def ErrUnknown_def ErrRateLimited_def

definition retryableCodes :: "string list" where
  "retryableCodes = [ErrInternalService, ErrTimeout, ErrUnknown, ErrRateLimited]"

definition errCode :: "string \<Rightarrow> string \<Rightarrow> string" where
  "errCode pre code =
     (if code = [] then pre else if pre = [] then code else join [pre, code] ''.'')"

definition errorFactory :: "string \<Rightarrow> string \<Rightarrow> params \<Rightarrow> go_error" where
  "errorFactory code message ps =
     (if code = [] then TError ErrUnknown message [] ps None None
      else TError code message [] ps (Some (list_ex (has_prefix code) retryableCodes)) None)"

definition terrors_New :: "string \<Rightarrow> string \<Rightarrow> params \<Rightarrow> go_error" where
  "terrors_New code message ps = errorFactory code message ps"

definition BadRequest :: "string \<Rightarrow> string \<Rightarrow> params \<Rightarrow> go_error" where
  "BadRequest code message ps = errorFactory (errCode ErrBadRequest code) message ps"

definition NotFound :: "string \<Rightarrow> string \<Rightarrow> params \<Rightarrow> go_error" where
  "NotFound code message ps = errorFactory (errCode ErrNotFound code) message ps"

definition Forbidden :: "string \<Rightarrow> string \<Rightarrow> params \<Rightarrow> go_error" where
  "Forbidden code message ps = errorFactory (errCode ErrForbidden code) message ps"

definition PreconditionFailed :: "string \<Rightarrow> string \<Rightarrow> params \<Rightarrow> go_error" where
  "PreconditionFailed code message ps =
     errorFactory (errCode ErrPreconditionFailed code) message ps"

section \<open>Rendering\<close>

definition legacyErrString :: "string \<Rightarrow> string \<Rightarrow> string" where
  "legacyErrString c m = (if m = [] then c else if c = [] then m else c @ '': '' @ m)"

fun error_text :: "go_error \<Rightarrow> string" and cause_text :: "go_error \<Rightarrow> string" where
  "error_text (TError c m ch ps r None) = legacyErrString c m"
| "error_text (TError c m ch ps r (Some e)) = c @ '': '' @ m @ cause_text e"
| "error_text (Plain s) = s"
| "error_text (Sentinel s) = s"
| "error_text (Wrapped s e) = s @ '': '' @ error_text e"
| "error_text (Joined es) = join (map error_text es) [CHR 0x0A]"
| "error_text (Status c s) = s"
| "cause_text (TError c m ch ps r cz) =
     '': '' @ m @ (case cz of None \<Rightarrow> [] | Some e \<Rightarrow> cause_text e)"
| "cause_text (Plain s) = '': '' @ s"
| "cause_text (Sentinel s) = '': '' @ s"
| "cause_text (Wrapped s e) = '': '' @ s @ '': '' @ error_text e"
| "cause_text (Joined es) = '': '' @ join (map error_text es) [CHR 0x0A]"
| "cause_text (Status c s) = '': '' @ s"

section \<open>Adding context, testing codes\<close>

definition addParams :: "params \<Rightarrow> params \<Rightarrow> params" where
  "addParams old new = fold (\<lambda>(k, v). AList.update k v) new old"

definition NewInternalWithCause :: "go_error \<Rightarrow> string \<Rightarrow> params \<Rightarrow> string \<Rightarrow> go_error" where
  "NewInternalWithCause e message ps subCode =
     (case errorFactory (errCode ErrInternalService subCode) message ps of
        TError c m ch qs r cz \<Rightarrow>
          (case e of
             TError c' m' ch' qs' r' cz' \<Rightarrow>
               TError c m (m' # ch') qs (case r' of None \<Rightarrow> r | Some b \<Rightarrow> Some b) (Some e)
           | _ \<Rightarrow> TError c m [error_text e] qs r (Some e))
      | x \<Rightarrow> x)"

definition Augment :: "err \<Rightarrow> string \<Rightarrow> params \<Rightarrow> err" where
  "Augment e ctx ps = (case e of
      None \<Rightarrow> None
    | Some x \<Rightarrow> (case x of
          TError c m ch qs r cz \<Rightarrow> Some (TError c ctx (m # ch) (addParams qs ps) r (Some x))
        | _ \<Rightarrow> Some (NewInternalWithCause x ctx ps [])))"

definition Propagate :: "err \<Rightarrow> err" where
  "Propagate e = (case e of
      None \<Rightarrow> None
    | Some x \<Rightarrow> (case x of
          TError c m ch qs r cz \<Rightarrow> Some x
        | _ \<Rightarrow> Some (NewInternalWithCause x (error_text x) [] [])))"

fun terrors_Is :: "go_error \<Rightarrow> string \<Rightarrow> bool" where
  "terrors_Is (TError c m ch ps r cz) code =
     (has_prefix c code \<or> (case cz of None \<Rightarrow> False | Some e \<Rightarrow> terrors_Is e code))"
| "terrors_Is _ code = False"

text \<open>
  \<^verbatim>\<open>errors.As\<close> with a \<^verbatim>\<open>*terrors.Error\<close> target, and \<^verbatim>\<open>errors.Is\<close> with a package-level
  error: both walk the tree of wrapped errors in pre-order.
\<close>

fun errors_As :: "go_error \<Rightarrow> go_error option" and errors_As_list :: "go_error list \<Rightarrow> go_error option" where
  "errors_As (TError c m ch ps r cz) = Some (TError c m ch ps r cz)"
| "errors_As (Plain s) = None"
| "errors_As (Sentinel s) = None"
| "errors_As (Wrapped s e) = errors_As e"
| "errors_As (Joined es) = errors_As_list es"
| "errors_As (Status c s) = None"
| "errors_As_list [] = None"
| "errors_As_list (e # es) = (case errors_As e of None \<Rightarrow> errors_As_list es | Some t \<Rightarrow> Some t)"

fun errors_Is :: "go_error \<Rightarrow> string \<Rightarrow> bool" where
  "errors_Is (TError c m ch ps r cz) n = (case cz of None \<Rightarrow> False | Some e \<Rightarrow> errors_Is e n)"
| "errors_Is (Plain s) n = False"
| "errors_Is (Sentinel s) n = (s = n)"
| "errors_Is (Wrapped s e) n = errors_Is e n"
| "errors_Is (Joined es) n = list_ex (\<lambda>e. errors_Is e n) es"
| "errors_Is (Status c s) n = False"

text \<open>\<^verbatim>\<open>errors.Join\<close>: nil errors are dropped, and the result is nil when all are.\<close>

definition errors_Join :: "err list \<Rightarrow> err" where
  "errors_Join es = (case List.map_filter id es of [] \<Rightarrow> None | xs \<Rightarrow> Some (Joined xs))"

section \<open>What wrapping keeps\<close>

definition is_terr :: "go_error \<Rightarrow> bool" where
  "is_terr e = (case e of TError c m ch ps r cz \<Rightarrow> True | _ \<Rightarrow> False)"

lemma is_terr_simps [simp]:
  "is_terr (TError c m ch ps r cz)" "\<not> is_terr (Plain s)" "\<not> is_terr (Sentinel s)"
  "\<not> is_terr (Wrapped s e)" "\<not> is_terr (Joined es)" "\<not> is_terr (Status gc s)"
  by (simp_all add: is_terr_def)

lemma is_terrE:
  assumes "is_terr e"
  obtains c m ch ps r cz where "e = TError c m ch ps r cz"
  using assms by (cases e) auto

lemma errorFactory_TError: "is_terr (errorFactory code message ps)"
  by (simp add: errorFactory_def)

text \<open>
  Every wrapper the sources use shares one contract: it maps nil to nil, an error to a
  terror, and an error that already is a terror to one that answers every code test as
  before.
\<close>

locale error_wrapper =
  fixes wrap :: "err \<Rightarrow> err"
  assumes wrap_nil: "wrap None = None"
    and wrap_terr: "\<exists>t. wrap (Some e) = Some t \<and> is_terr t"
    and wrap_Is: "is_terr e \<Longrightarrow> wrap (Some e) = Some t \<Longrightarrow> terrors_Is t code = terrors_Is e code"
begin

lemma wrap_None_iff: "wrap e = None \<longleftrightarrow> e = None"
  by (metis wrap_nil wrap_terr option.distinct(1) option.exhaust)

lemma wrap_twice_Is:
  assumes "is_terr e" "wrap (Some e) = Some t" "wrap (Some t) = Some u"
  shows "terrors_Is u code = terrors_Is e code"
proof -
  from assms(2) wrap_terr [of e] have "is_terr t" by auto
  with assms show ?thesis using wrap_Is by simp
qed

end

lemma NewInternalWithCause_terr: "is_terr (NewInternalWithCause e m ps sub)"
  by (cases "errorFactory (errCode ErrInternalService sub) m ps"; cases e)
    (auto simp: NewInternalWithCause_def, (simp add: errorFactory_def split: if_splits)+)

lemma Augment_terr: "\<exists>t. Augment (Some e) ctx ps = Some t \<and> is_terr t"
  by (cases e) (auto simp: Augment_def NewInternalWithCause_terr)

lemma Augment_is_Some [simp]: "\<exists>y. Augment (Some e) c ps = Some y"
  using Augment_terr by blast

lemma Propagate_terr: "\<exists>t. Propagate (Some e) = Some t \<and> is_terr t"
  by (cases e) (auto simp: Propagate_def NewInternalWithCause_terr)

interpretation augment: error_wrapper "\<lambda>e. Augment e ctx ps" for ctx ps
  by unfold_locales (simp add: Augment_def, rule Augment_terr, auto simp: Augment_def elim!: is_terrE)

interpretation propagate: error_wrapper Propagate
  by unfold_locales (simp add: Propagate_def, rule Propagate_terr, auto simp: Propagate_def elim!: is_terrE)

lemmas Augment_nil [simp] = augment.wrap_nil
lemmas Propagate_nil [simp] = propagate.wrap_nil
lemmas Augment_None_iff [simp] = augment.wrap_None_iff
lemmas Propagate_None_iff [simp] = propagate.wrap_None_iff

lemma Augment_code:
  "Augment (Some (TError c m ch qs r cz)) ctx ps
     = Some (TError c ctx (m # ch) (addParams qs ps) r (Some (TError c m ch qs r cz)))"
  by (simp add: Augment_def)

lemma Augment_foreign:
  "\<not> is_terr e \<Longrightarrow> \<exists>m ch qs. Augment (Some e) ctx ps
     = Some (TError ErrInternalService m ch qs (Some True) (Some e))"
  by (cases e)
    (auto simp: Augment_def NewInternalWithCause_def errorFactory_def errCode_def
      retryableCodes_def err_code_defs)

subsection \<open>Errors with one code\<close>

text \<open>
  The constructors and wrappers only build terrors whose chain of terror causes carries one
  code; such an error answers a code test by looking at that code alone.
\<close>

fun uniform :: "go_error \<Rightarrow> bool" where
  "uniform (TError c m ch ps r cz) =
     (case cz of None \<Rightarrow> True
      | Some e \<Rightarrow> uniform e \<and> (is_terr e \<longrightarrow> terr_code e = c))"
| "uniform _ = True"

lemma uniform_Is: "uniform e \<Longrightarrow> is_terr e \<Longrightarrow> terrors_Is e code = has_prefix (terr_code e) code"
proof (induction e rule: uniform.induct)
  case (1 c m ch ps r cz)
  show ?case
  proof (cases cz)
    case (Some e)
    with 1 show ?thesis by (cases e) auto
  qed simp
qed auto

lemma uniform_errorFactory: "uniform (errorFactory code message ps)"
  by (simp add: errorFactory_def)

lemma uniform_Augment: "uniform e \<Longrightarrow> Augment (Some e) ctx ps = Some t \<Longrightarrow> uniform t"
  by (cases e)
    (auto simp: Augment_def NewInternalWithCause_def errorFactory_def split: if_splits)

lemma uniform_Propagate: "uniform e \<Longrightarrow> Propagate (Some e) = Some t \<Longrightarrow> uniform t"
  by (cases e)
    (auto simp: Propagate_def NewInternalWithCause_def errorFactory_def split: if_splits)

end
