(* ===== verification/Go_Json.thy ===== *)
theory Go_Json
  imports Terrors
begin

text \<open>
  JSON values and the way Go's \<^verbatim>\<open>encoding/json\<close> decodes them into a struct, which the
  sources rely on for MQTT messages, HTTP bodies and secrets: object keys are matched
  exactly or else ignoring case, unknown keys are skipped, \<^verbatim>\<open>null\<close> leaves a plain field as
  it is and clears a pointer, a repeated key decodes into the value the first one left, and
  a value of the wrong type leaves its field alone, lets decoding continue and makes
  \<^verbatim>\<open>Unmarshal\<close> return an error. The lexical syntax of JSON is abstracted: a payload is the
  value its bytes denote, or nothing when they are not JSON. A number keeps its literal.
\<close>

datatype json =
    JNull | JBool bool | JNum string | JStr string | JArr "json list" | JObj "(string \<times> json) list"

type_synonym payload = "json option"

text \<open>A decoder maps a JSON value and the old field to the new field and whether types matched.\<close>

type_synonym 'a decoder = "json \<Rightarrow> 'a \<Rightarrow> 'a \<times> bool"

definition dec_bool :: "bool decoder" where
  "dec_bool j old = (case j of JBool b \<Rightarrow> (b, True) | JNull \<Rightarrow> (old, True) | _ \<Rightarrow> (old, False))"

definition dec_string :: "string decoder" where
  "dec_string j old = (case j of JStr s \<Rightarrow> (s, True) | JNull \<Rightarrow> (old, True) | _ \<Rightarrow> (old, False))"

text \<open>An integer field accepts an integer literal in range; \<^verbatim>\<open>1.0\<close> and \<^verbatim>\<open>1e3\<close> are type errors.\<close>

definition dec_int :: "int decoder" where
  "dec_int j old = (case j of
      JNum lit \<Rightarrow> (case atoi lit of Some i \<Rightarrow> (i, True) | None \<Rightarrow> (old, False))
    | JNull \<Rightarrow> (old, True)
    | _ \<Rightarrow> (old, False))"

text \<open>
  A \<^verbatim>\<open>float64\<close> field takes any number literal; its value is the rational number the literal
  denotes (rounding to the nearest \<^verbatim>\<open>float64\<close> is not modelled).
\<close>

definition scale10 :: "int \<Rightarrow> int \<Rightarrow> rat" where
  "scale10 n k = (if 0 \<le> k then of_int n * 10 ^ nat k else of_int n / 10 ^ nat (- k))"

definition read_decimal :: "string \<Rightarrow> rat option" where
  "read_decimal lit = (case read_sign lit of (sg, r) \<Rightarrow>
     (case split_first (map (\<lambda>c. if c = CHR ''E'' then CHR ''e'' else c) r) (CHR ''e'') of
        m # x \<Rightarrow> (case split_first m (CHR ''.'') of
            i # f \<Rightarrow> (case (read_digits 0 (concat (i # f)), if x = [] then Some 0 else atoi (hd x)) of
                (Some n, Some k) \<Rightarrow> if i = [] then None
                  else Some (scale10 (sg * int n) (k - int (length (concat f))))
              | _ \<Rightarrow> None)
          | [] \<Rightarrow> None)
      | [] \<Rightarrow> None))"

definition dec_float :: "rat decoder" where
  "dec_float j old = (case j of
      JNum lit \<Rightarrow> (case read_decimal lit of Some q \<Rightarrow> (q, True) | None \<Rightarrow> (old, False))
    | JNull \<Rightarrow> (old, True)
    | _ \<Rightarrow> (old, False))"

definition dec_ptr :: "'a decoder \<Rightarrow> 'a \<Rightarrow> 'a option decoder" where
  "dec_ptr d zero j old = (case j of
      JNull \<Rightarrow> (None, True)
    | _ \<Rightarrow> (case d j (case old of None \<Rightarrow> zero | Some v \<Rightarrow> v) of (v, ok) \<Rightarrow> (Some v, ok)))"

definition dec_slice :: "'a decoder \<Rightarrow> 'a \<Rightarrow> 'a list decoder" where
  "dec_slice d zero j old = (case j of
      JArr js \<Rightarrow> (map (\<lambda>x. fst (d x zero)) js, list_all (\<lambda>x. snd (d x zero)) js)
    | JNull \<Rightarrow> ([], True)
    | _ \<Rightarrow> (old, False))"

definition dec_rawmap :: "(string \<rightharpoonup> json) decoder" where
  "dec_rawmap j old = (case j of
      JObj kvs \<Rightarrow> (fold (\<lambda>(k, v) m. m(k \<mapsto> v)) kvs old, True)
    | JNull \<Rightarrow> (Map.empty, True)
    | _ \<Rightarrow> (old, False))"

text \<open>A struct: one decoder per field, each lifted to the whole record.\<close>

definition field :: "('s \<Rightarrow> 'a) \<Rightarrow> ('a \<Rightarrow> 's \<Rightarrow> 's) \<Rightarrow> 'a decoder \<Rightarrow> 's decoder" where
  "field get put d j s = (case d j (get s) of (v, ok) \<Rightarrow> (put v s, ok))"

definition find_field :: "(string \<times> 's decoder) list \<Rightarrow> string \<Rightarrow> 's decoder option" where
  "find_field fs k = (case map_of fs k of
      Some d \<Rightarrow> Some d
    | None \<Rightarrow> map_option snd (find (\<lambda>(n, _). to_lower n = to_lower k) fs))"

fun dec_fields :: "(string \<times> 's decoder) list \<Rightarrow> (string \<times> json) list \<Rightarrow> 's \<Rightarrow> 's \<times> bool" where
  "dec_fields fs [] s = (s, True)"
| "dec_fields fs ((k, v) # kvs) s =
     (case find_field fs k of
        None \<Rightarrow> dec_fields fs kvs s
      | Some d \<Rightarrow> (case d v s of (s', ok) \<Rightarrow>
          (case dec_fields fs kvs s' of (s'', ok') \<Rightarrow> (s'', ok \<and> ok'))))"

definition dec_struct :: "(string \<times> 's decoder) list \<Rightarrow> 's decoder" where
  "dec_struct fs j s = (case j of
      JObj kvs \<Rightarrow> dec_fields fs kvs s
    | JNull \<Rightarrow> (s, True)
    | _ \<Rightarrow> (s, False))"

definition unmarshal :: "'a decoder \<Rightarrow> payload \<Rightarrow> 'a \<Rightarrow> 'a \<times> err" where
  "unmarshal d p old = (case p of
      None \<Rightarrow> (old, Some (Plain ''invalid character in JSON''))
    | Some j \<Rightarrow> (case d j old of (v, ok) \<Rightarrow>
        (v, if ok then None else Some (Plain ''json: cannot unmarshal value''))))"

text \<open>\<^verbatim>\<open>Unmarshal\<close> into a nil pointer always fails, whatever the bytes.\<close>

definition unmarshal_nil :: "payload \<Rightarrow> err" where
  "unmarshal_nil p = (case p of
      None \<Rightarrow> Some (Plain ''invalid character in JSON'')
    | Some j \<Rightarrow> Some (Plain ''json: Unmarshal(nil)''))"

lemmas json_defs [dec_simps] = dec_bool_def dec_string_def dec_int_def dec_float_def dec_ptr_def dec_slice_def
  dec_rawmap_def field_def find_field_def dec_struct_def unmarshal_def

lemma unmarshal_malformed [simp]: "snd (unmarshal d None old) \<noteq> None" "fst (unmarshal d None old) = old"
  by (simp_all add: unmarshal_def)

lemma unmarshal_nil_fails: "unmarshal_nil p \<noteq> None"
  by (simp add: unmarshal_nil_def split: option.splits)

lemma dec_fields_unknown:
  "\<forall>(k, v) \<in> set kvs. find_field fs k = None \<Longrightarrow> dec_fields fs kvs s = (s, True)"
  by (induction fs kvs s rule: dec_fields.induct) auto

lemma dec_fields_append:
  "dec_fields fs (xs @ ys) s =
     (case dec_fields fs xs s of (s', ok) \<Rightarrow> case dec_fields fs ys s' of (s'', ok') \<Rightarrow> (s'', ok \<and> ok'))"
  by (induction fs xs s rule: dec_fields.induct) (auto split: option.splits prod.splits)

end
