(* ===== verification/Mqtt_Lights.thy ===== *)
theory Mqtt_Lights
  imports Go_Json
begin

text \<open>
  The lights of \<^verbatim>\<open>services/s-rpc-mqtt/mqtt_lights.go\<close>: the fixed table of Shelly devices,
  the protobuf messages, and the operations that set, toggle and read a light with one RPC
  to the device. The RPC transport (\<^verbatim>\<open>shellyRPCResp\<close>) is an argument that threads the
  state of the outside world, so every operation shows which calls it makes and in which
  order.
\<close>

section \<open>Protobuf messages\<close>

record pb_Light =
  Light_Id :: string
  Light_Dimmable :: bool

record pb_SetLightRequest =
  Req_Id :: string
  Req_On :: "bool option"
  Req_Brightness :: "i32 option"

record pb_LightStatus =
  Status_Id :: string
  Status_On :: bool
  Status_Dimmable :: bool
  Status_Brightness :: "i32 option"

definition GetBrightness :: "pb_LightStatus \<Rightarrow> i32" where
  "GetBrightness x = (case Status_Brightness x of Some b \<Rightarrow> b | None \<Rightarrow> 0)"

section \<open>The table of lights\<close>

record lightDef =
  light_id :: string
  dimmable :: bool

definition topic :: "lightDef \<Rightarrow> string" where
  "topic l = ''shelly/'' @ light_id l @ ''/rpc''"

definition component :: "lightDef \<Rightarrow> string" where
  "component l = (if dimmable l then ''Light'' else ''Switch'')"

definition lights :: "lightDef list" where
  "lights =
     [\<lparr>light_id = ''plug103'', dimmable = False\<rparr>,
      \<lparr>light_id = ''plug104'', dimmable = False\<rparr>,
      \<lparr>light_id = ''plug106'', dimmable = False\<rparr>,
      \<lparr>light_id = ''rgb105'', dimmable = True\<rparr>,
      \<lparr>light_id = ''rgb108'', dimmable = True\<rparr>]"

fun find_in :: "lightDef list \<Rightarrow> string \<Rightarrow> go_error + lightDef" where
  "find_in [] i = Inl (NotFound ''light'' ''unknown light'' [(''id'', i)])"
| "find_in (l # ls) i = (if light_id l = i then Inr l else find_in ls i)"

definition findLight :: "string \<Rightarrow> go_error + lightDef" where
  "findLight i = find_in lights i"

definition listLights :: "pb_Light list" where
  "listLights = map (\<lambda>l. \<lparr>Light_Id = light_id l, Light_Dimmable = dimmable l\<rparr>) lights"

section \<open>Replies of a device\<close>

record outputResult =
  Output :: bool
  Brightness :: int

record shellyError =
  Code :: int
  Message :: string

record shellyOutputStatusResponse =
  Result :: outputResult
  Error :: "shellyError option"

definition zero_response :: shellyOutputStatusResponse where
  "zero_response = \<lparr>Result = \<lparr>Output = False, Brightness = 0\<rparr>, Error = None\<rparr>"

definition dec_outputResult :: "outputResult decoder" where
  "dec_outputResult = dec_struct
     [(''output'', field Output (\<lambda>v s. s\<lparr>Output := v\<rparr>) dec_bool),
      (''brightness'', field Brightness (\<lambda>v s. s\<lparr>Brightness := v\<rparr>) dec_int)]"

definition dec_shellyError :: "shellyError decoder" where
  "dec_shellyError = dec_struct
     [(''code'', field Code (\<lambda>v s. s\<lparr>Code := v\<rparr>) dec_int),
      (''message'', field Message (\<lambda>v s. s\<lparr>Message := v\<rparr>) dec_string)]"

definition dec_response :: "shellyOutputStatusResponse decoder" where
  "dec_response = dec_struct
     [(''result'', field Result (\<lambda>v s. s\<lparr>Result := v\<rparr>) dec_outputResult),
      (''error'', field Error (\<lambda>v s. s\<lparr>Error := v\<rparr>)
         (dec_ptr dec_shellyError \<lparr>Code = 0, Message = []\<rparr>))]"

definition parseOutputStatusResponse ::
  "payload \<Rightarrow> string \<Rightarrow> go_error + shellyOutputStatusResponse" where
  "parseOutputStatusResponse p i =
     (case unmarshal dec_response p zero_response of (parsed, e) \<Rightarrow>
        (case e of
           Some x \<Rightarrow> Inl (the (Augment (Some x) ''could not parse shelly response'' [(''id'', i)]))
         | None \<Rightarrow> (case Error parsed of
             Some se \<Rightarrow> Inl (terrors_New ''shelly_error'' (Message se)
                              [(''id'', i), (''code'', itoa (Code se))])
           | None \<Rightarrow> Inr parsed)))"

section \<open>Operations on a light\<close>

type_synonym 'w rpc = "string \<Rightarrow> string \<Rightarrow> json \<Rightarrow> 'w \<Rightarrow> (go_error + payload) \<times> 'w"

text \<open>The parameters of \<^verbatim>\<open>Set\<close>; a marshalled Go map has its keys in sorted order.\<close>

definition set_params :: "pb_SetLightRequest \<Rightarrow> json" where
  "set_params req = JObj
     ((case Req_Brightness req of None \<Rightarrow> [] | Some b \<Rightarrow> [(''brightness'', JNum (itoa (sint b)))])
      @ [(''id'', JNum ''0''), (''on'', JBool (case Req_On req of None \<Rightarrow> True | Some v \<Rightarrow> v))])"

definition check_brightness :: "lightDef \<Rightarrow> pb_SetLightRequest \<Rightarrow> err" where
  "check_brightness l req =
     (case Req_Brightness req of
        None \<Rightarrow> None
      | Some b \<Rightarrow>
          if \<not> dimmable l then
            Some (BadRequest ''not_dimmable'' ''light is not dimmable'' [(''id'', light_id l)])
          else if sint b < 0 \<or> sint b > 100 then
            Some (BadRequest ''brightness_out_of_range'' ''brightness must be within 0-100''
              [(''id'', light_id l)])
          else None)"

definition setLight :: "'w rpc \<Rightarrow> pb_SetLightRequest \<Rightarrow> 'w \<Rightarrow> err \<times> 'w" where
  "setLight rpc req w =
     (case findLight (Req_Id req) of
        Inl e \<Rightarrow> (Some e, w)
      | Inr l \<Rightarrow>
          if Req_On req = None \<and> Req_Brightness req = None then
            (Some (BadRequest ''empty_request'' ''one of on or brightness must be set''
               [(''id'', light_id l)]), w)
          else (case check_brightness l req of
              Some e \<Rightarrow> (Some e, w)
            | None \<Rightarrow> (case rpc (topic l) (component l @ ''.Set'') (set_params req) w of
                (Inl e, w') \<Rightarrow> (Augment (Some e) ''could not set light'' [(''id'', light_id l)], w')
              | (Inr resp, w') \<Rightarrow> (case parseOutputStatusResponse resp (light_id l) of
                    Inl e \<Rightarrow> (Some e, w') | Inr _ \<Rightarrow> (None, w')))))"

definition id_params :: json where
  "id_params = JObj [(''id'', JNum ''0'')]"

definition toggleLight :: "'w rpc \<Rightarrow> string \<Rightarrow> 'w \<Rightarrow> err \<times> 'w" where
  "toggleLight rpc i w =
     (case findLight i of
        Inl e \<Rightarrow> (Some e, w)
      | Inr l \<Rightarrow> (case rpc (topic l) (component l @ ''.Toggle'') id_params w of
            (Inl e, w') \<Rightarrow> (Augment (Some e) ''could not toggle light'' [(''id'', i)], w')
          | (Inr resp, w') \<Rightarrow> (case parseOutputStatusResponse resp i of
                Inl e \<Rightarrow> (Some e, w') | Inr _ \<Rightarrow> (None, w'))))"

definition light_status :: "lightDef \<Rightarrow> shellyOutputStatusResponse \<Rightarrow> pb_LightStatus" where
  "light_status l parsed =
     \<lparr>Status_Id = light_id l, Status_On = Output (Result parsed), Status_Dimmable = dimmable l,
      Status_Brightness = (if dimmable l then Some (to_int32 (Brightness (Result parsed))) else None)\<rparr>"

definition getLight :: "'w rpc \<Rightarrow> string \<Rightarrow> 'w \<Rightarrow> (go_error + pb_LightStatus) \<times> 'w" where
  "getLight rpc i w =
     (case findLight i of
        Inl e \<Rightarrow> (Inl e, w)
      | Inr l \<Rightarrow> (case rpc (topic l) (component l @ ''.GetStatus'') id_params w of
            (Inl e, w') \<Rightarrow>
              (Inl (the (Augment (Some e) ''could not get light status'' [(''id'', i)])), w')
          | (Inr resp, w') \<Rightarrow> (case parseOutputStatusResponse resp i of
                Inl e \<Rightarrow> (Inl e, w')
              | Inr parsed \<Rightarrow> (Inr (light_status l parsed), w'))))"

section \<open>Facts about the table\<close>

lemma lights_distinct: "distinct (map light_id lights)"
  by (simp add: lights_def)

lemma find_in_Inr: "find_in ls i = Inr l \<Longrightarrow> l \<in> set ls \<and> light_id l = i"
  by (induction ls) (auto split: if_splits)

lemma find_in_mem: "l \<in> set ls \<Longrightarrow> distinct (map light_id ls) \<Longrightarrow> find_in ls (light_id l) = Inr l"
  by (induction ls) (auto simp: image_iff)

lemma find_in_Inl:
  "find_in ls i = Inl e \<Longrightarrow> i \<notin> light_id ` set ls \<and> e = NotFound ''light'' ''unknown light'' [(''id'', i)]"
  by (induction ls) (auto split: if_splits)

lemma findLight_Inr: "findLight i = Inr l \<Longrightarrow> l \<in> set lights \<and> light_id l = i"
  by (simp add: findLight_def find_in_Inr)

lemma findLight_mem [simp]: "l \<in> set lights \<Longrightarrow> findLight (light_id l) = Inr l"
  by (simp add: findLight_def find_in_mem lights_distinct)

lemma findLight_Inl:
  "findLight i = Inl e \<Longrightarrow> i \<notin> light_id ` set lights \<and> e = NotFound ''light'' ''unknown light'' [(''id'', i)]"
  by (simp add: findLight_def find_in_Inl)

lemma findLight_code: "findLight i = Inl e \<Longrightarrow> is_terr e \<and> terr_code e = ''not_found.light''"
  by (auto dest!: findLight_Inl simp: NotFound_def errorFactory_def errCode_def err_code_defs)

lemma check_brightness_None:
  "check_brightness l req = None \<longleftrightarrow>
     (\<forall>b. Req_Brightness req = Some b \<longrightarrow> dimmable l \<and> 0 \<le> sint b \<and> sint b \<le> 100)"
  by (auto simp: check_brightness_def split: option.splits)

lemma BadRequest_Is: "terrors_Is (BadRequest code m ps) ErrBadRequest"
  by (simp add: BadRequest_def errorFactory_def errCode_def err_code_defs)

lemma NotFound_Is: "terrors_Is (NotFound code m ps) ErrNotFound"
  by (simp add: NotFound_def errorFactory_def errCode_def err_code_defs)

lemma check_brightness_Is: "check_brightness l req = Some e \<Longrightarrow> terrors_Is e ErrBadRequest"
  by (auto simp: check_brightness_def BadRequest_Is split: option.splits if_splits)

text \<open>A transport that records every call and answers from what was called before.\<close>

definition logged ::
  "((string \<times> string \<times> json) list \<Rightarrow> go_error + payload) \<Rightarrow> (string \<times> string \<times> json) list rpc" where
  "logged answer t m p w = (answer w, w @ [(t, m, p)])"

text \<open>
  The status reply of a device, and the requests of the operations on a dimmable light: what a
  Shelly \<^verbatim>\<open>Light\<close> component documents.
\<close>

definition status_reply :: "bool \<Rightarrow> int \<Rightarrow> payload" where
  "status_reply on b = Some (JObj [(''result'',
     JObj [(''output'', JBool on), (''brightness'', JNum (itoa b))])])"

definition set_json :: "bool \<Rightarrow> int \<Rightarrow> json" where
  "set_json on b = JObj [(''brightness'', JNum (itoa b)), (''id'', JNum ''0''), (''on'', JBool on)]"

lemma lower_literals [simp]:
  "to_lower ''result'' = ''result''" "to_lower ''error'' = ''error''" "to_lower ''output'' = ''output''"
  "to_lower ''brightness'' = ''brightness''"
  by (simp_all add: to_lower_def lower_char_def)

lemma in_int64_small: "0 \<le> b \<Longrightarrow> b \<le> 100 \<Longrightarrow> in_int64 b"
  by (simp add: in_int64_def)

lemma parse_status_reply:
  assumes "in_int64 b"
  shows "parseOutputStatusResponse (status_reply on b) i
    = Inr \<lparr>Result = \<lparr>Output = on, Brightness = b\<rparr>, Error = None\<rparr>"
  by (simp add: parseOutputStatusResponse_def status_reply_def dec_response_def dec_outputResult_def
      zero_response_def dec_simps atoi_itoa [OF assms])

lemma parse_null_reply:
  "parseOutputStatusResponse (Some (JObj [(''result'', JNull)])) i = Inr zero_response"
  by (simp add: parseOutputStatusResponse_def dec_response_def dec_outputResult_def
      zero_response_def dec_simps)

text \<open>
  \<open>shelly_lights rpc st\<close>: the transport reaches devices that keep the documented contract of the
  dimmable component; \<open>st w i\<close> is whether light \<open>i\<close> is on and its brightness in world \<open>w\<close>.
\<close>

definition shelly_lights :: "'w rpc \<Rightarrow> ('w \<Rightarrow> string \<Rightarrow> bool \<times> int) \<Rightarrow> bool" where
  "shelly_lights rpc st \<longleftrightarrow> (\<forall>l \<in> set lights. dimmable l \<longrightarrow> (\<forall>w.
     0 \<le> snd (st w (light_id l)) \<and> snd (st w (light_id l)) \<le> 100
   \<and> (\<exists>w'. rpc (topic l) ''Light.GetStatus'' id_params w
          = (Inr (status_reply (fst (st w (light_id l))) (snd (st w (light_id l)))), w') \<and> st w' = st w)
   \<and> (\<forall>on b. 0 \<le> b \<and> b \<le> 100 \<longrightarrow> (\<exists>w'. rpc (topic l) ''Light.Set'' (set_json on b) w
          = (Inr (Some (JObj [(''result'', JNull)])), w') \<and> st w' = (st w)(light_id l := (on, b))))))"

lemma getLight_device:
  assumes "shelly_lights rpc st" "l \<in> set lights" "dimmable l"
  shows "\<exists>w'. getLight rpc (light_id l) w = (Inr \<lparr>Status_Id = light_id l,
      Status_On = fst (st w (light_id l)), Status_Dimmable = True,
      Status_Brightness = Some (to_int32 (snd (st w (light_id l))))\<rparr>, w') \<and> st w' = st w"
proof -
  from assms obtain w' where "rpc (topic l) ''Light.GetStatus'' id_params w
      = (Inr (status_reply (fst (st w (light_id l))) (snd (st w (light_id l)))), w')" "st w' = st w"
      "in_int64 (snd (st w (light_id l)))"
    unfolding shelly_lights_def using in_int64_small by metis
  with assms show ?thesis
    by (simp add: getLight_def component_def parse_status_reply light_status_def)
qed

lemma shelly_brightness:
  "shelly_lights rpc st \<Longrightarrow> l \<in> set lights \<Longrightarrow> dimmable l \<Longrightarrow>
     0 \<le> snd (st w (light_id l)) \<and> snd (st w (light_id l)) \<le> 100"
  unfolding shelly_lights_def by blast

lemma setLight_device:
  assumes "shelly_lights rpc st" "l \<in> set lights" "dimmable l" "0 \<le> b" "b \<le> 100"
  shows "\<exists>w'. setLight rpc \<lparr>Req_Id = light_id l, Req_On = Some on, Req_Brightness = Some (to_int32 b)\<rparr> w
      = (None, w') \<and> st w' = (st w)(light_id l := (on, b))"
proof -
  have b: "sint (to_int32 b) = b" using assms by (simp add: sint_to_int32)
  from assms obtain w' where "rpc (topic l) ''Light.Set'' (set_json on b) w
      = (Inr (Some (JObj [(''result'', JNull)])), w')" "st w' = (st w)(light_id l := (on, b))"
    unfolding shelly_lights_def by blast
  with assms b show ?thesis
    by (simp add: setLight_def component_def check_brightness_def set_params_def set_json_def parse_null_reply)
qed

subsection \<open>A simulated device\<close>

text \<open>A transport that keeps the contract: the world is the state of every light.\<close>

definition sim_state :: "(string \<Rightarrow> bool \<times> int) \<Rightarrow> string \<Rightarrow> bool \<times> int" where
  "sim_state w i = (fst (w i), max 0 (min 100 (snd (w i))))"

definition sim_id :: "string \<Rightarrow> string" where
  "sim_id t = the (cut_suffix (the (cut_prefix t ''shelly/'')) ''/rpc'')"

definition sim_set :: "json \<Rightarrow> bool \<times> int" where
  "sim_set p = (case p of
      JObj [(_, JNum lit), _, (_, JBool on)] \<Rightarrow> (on, the (atoi lit))
    | _ \<Rightarrow> (False, 0))"

definition sim_rpc :: "(string \<Rightarrow> bool \<times> int) rpc" where
  "sim_rpc t m p w =
     (if m = ''Light.Set'' then (Inr (Some (JObj [(''result'', JNull)])), w(sim_id t := sim_set p))
      else (Inr (case sim_state w (sim_id t) of (on, b) \<Rightarrow> status_reply on b), w))"

lemma sim_id_topic [simp]: "sim_id (topic l) = light_id l"
  using cut_prefix_append [of "''shelly/''" "light_id l @ ''/rpc''"] cut_suffix_append [of "light_id l" "''/rpc''"]
  by (simp add: sim_id_def topic_def)

lemma sim_rpc_set:
  "0 \<le> b \<Longrightarrow> b \<le> 100 \<Longrightarrow> sim_rpc (topic l) ''Light.Set'' (set_json on b) w
     = (Inr (Some (JObj [(''result'', JNull)])), w(light_id l := (on, b)))"
  by (simp add: sim_rpc_def sim_set_def set_json_def in_int64_small atoi_itoa)

lemma sim_state_upd:
  "0 \<le> b \<Longrightarrow> b \<le> 100 \<Longrightarrow> sim_state (w(i := (on, b))) = (sim_state w)(i := (on, b))"
  by (auto simp: sim_state_def fun_eq_iff)

lemma sim_rpc_contract: "shelly_lights sim_rpc sim_state"
  unfolding shelly_lights_def
proof (intro ballI impI allI conjI)
  fix l :: lightDef and w :: "string \<Rightarrow> bool \<times> int"
  show "0 \<le> snd (sim_state w (light_id l))" "snd (sim_state w (light_id l)) \<le> 100"
    by (simp_all add: sim_state_def)
  show "\<exists>w'. sim_rpc (topic l) ''Light.GetStatus'' id_params w = (Inr (status_reply
      (fst (sim_state w (light_id l))) (snd (sim_state w (light_id l)))), w') \<and> sim_state w' = sim_state w"
    by (simp add: sim_rpc_def split: prod.splits)
next
  fix l :: lightDef and w :: "string \<Rightarrow> bool \<times> int" and on and b :: int
  assume "0 \<le> b \<and> b \<le> 100"
  then show "\<exists>w'. sim_rpc (topic l) ''Light.Set'' (set_json on b) w = (Inr (Some (JObj [(''result'', JNull)])), w')
      \<and> sim_state w' = (sim_state w)(light_id l := (on, b))"
    using sim_rpc_set sim_state_upd by blast
qed

section \<open>Properties\<close>

text \<open>
  C3: a request to set a light either is refused before any device is contacted, with a
  not-found or bad-request error, or makes exactly one call, to the device it names, and
  then any brightness it sends lies within 0 and 100 and goes to a dimmable light.
\<close>

theorem setLight_validates:
  "setLight (logged answer) req w = (e, w') \<Longrightarrow>
     (w' = w \<and> (\<exists>t. e = Some t \<and> (terrors_Is t ErrNotFound \<or> terrors_Is t ErrBadRequest)))
   \<or> (\<exists>l \<in> set lights. light_id l = Req_Id req
        \<and> w' = w @ [(''shelly/'' @ Req_Id req @ ''/rpc'', component l @ ''.Set'', set_params req)]
        \<and> (Req_On req \<noteq> None \<or> Req_Brightness req \<noteq> None)
        \<and> (\<forall>b. Req_Brightness req = Some b \<longrightarrow> dimmable l \<and> 0 \<le> sint b \<and> sint b \<le> 100))"
proof (cases "findLight (Req_Id req)")
  case (Inl x)
  moreover assume "setLight (logged answer) req w = (e, w')"
  ultimately show ?thesis by (auto simp: setLight_def NotFound_Is dest!: findLight_Inl)
next
  case (Inr l)
  assume s: "setLight (logged answer) req w = (e, w')"
  from Inr have l: "l \<in> set lights" "light_id l = Req_Id req" by (auto dest: findLight_Inr)
  consider (empty) "Req_On req = None \<and> Req_Brightness req = None"
    | (bad) x where "\<not> (Req_On req = None \<and> Req_Brightness req = None)" "check_brightness l req = Some x"
    | (ok) "\<not> (Req_On req = None \<and> Req_Brightness req = None)" "check_brightness l req = None"
    by (cases "check_brightness l req") blast+
  then show ?thesis
  proof cases
    case empty
    with s Inr show ?thesis by (auto simp: setLight_def BadRequest_Is)
  next
    case (bad x)
    with s Inr have "e = Some x" "w' = w" by (auto simp: setLight_def)
    with check_brightness_Is [OF bad(2)] show ?thesis by blast
  next
    case ok
    with s Inr have "w' = w @ [(topic l, component l @ ''.Set'', set_params req)]"
      by (auto simp: setLight_def logged_def split: sum.splits)
    with ok l show ?thesis by (auto simp: check_brightness_None topic_def)
  qed
qed

theorem setLight_validates_witness:
  "setLight (logged (\<lambda>_. Inl (Plain ''offline''))) \<lparr>Req_Id = ''rgb105'', Req_On = None, Req_Brightness = Some 101\<rparr> []
     = (Some (BadRequest ''brightness_out_of_range'' ''brightness must be within 0-100'' [(''id'', ''rgb105'')]), [])
   \<and> terrors_Is (BadRequest ''brightness_out_of_range'' ''brightness must be within 0-100'' [(''id'', ''rgb105'')]) ErrBadRequest"
proof -
  let ?req = "\<lparr>Req_Id = ''rgb105'', Req_On = None, Req_Brightness = Some 101\<rparr> :: pb_SetLightRequest"
  let ?e = "BadRequest ''brightness_out_of_range'' ''brightness must be within 0-100'' [(''id'', ''rgb105'')]"
  have eq: "setLight (logged (\<lambda>_. Inl (Plain ''offline''))) ?req [] = (Some ?e, [])"
    by (simp add: setLight_def findLight_def lights_def check_brightness_def)
  from setLight_validates [OF eq] show ?thesis
    using eq by (auto simp: BadRequest_def errorFactory_def errCode_def err_code_defs)
qed

end
