(* ===== verification/Shelly_Rpc.thy ===== *)
theory Shelly_Rpc
  imports Channels Mqtt_Lights
begin

text \<open>
  \<^verbatim>\<open>shellyRPCRespAny\<close> of \<^verbatim>\<open>services/s-rpc-mqtt/mqtt.go\<close>: one request and reply over MQTT. The
  MQTT client is outside the sources; what it does during one call (the results of
  subscribing and publishing, the messages it delivers to the reply handler, whether the
  context ends first) is the record \<open>call_env\<close>, and what the call asks of the client is
  its trace of actions, deferred clean-up included.
\<close>

type_synonym packet = "string \<times> payload"

datatype mqtt_act =
    AddOnPublishReceived string   \<comment> \<open>handler for this topic\<close>
  | RemoveHandler string
  | SubscribeTo string
  | UnsubscribeFrom string
  | PublishTo string json

text \<open>
  \<open>params_json\<close> is the result of marshalling the parameters and \<open>payload_err\<close> of marshalling
  the request around them. \<open>ended\<close> is the context's error when the context is done by the
  time the final \<^verbatim>\<open>select\<close> is decided, and \<open>prefer_reply\<close> is the choice \<^verbatim>\<open>select\<close> makes when the
  reply is there too.
\<close>

record call_env =
  params_json :: "go_error + json"
  unix_nano :: int
  subscribe_err :: err
  payload_err :: err
  publish_err :: err
  arrivals :: "packet list"
  ended :: err
  prefer_reply :: bool

abbreviation deadline_exceeded :: go_error where
  "deadline_exceeded \<equiv> Sentinel ''context deadline exceeded''"

definition replyTopic :: "string \<Rightarrow> string \<Rightarrow> int \<Rightarrow> string" where
  "replyTopic t clientId now = t @ ''/'' @ clientId @ ''/'' @ itoa now"

definition replySubTopic :: "string \<Rightarrow> string \<Rightarrow> int \<Rightarrow> string" where
  "replySubTopic t clientId now = replyTopic t clientId now @ ''/rpc''"

definition request_json :: "int \<Rightarrow> string \<Rightarrow> string \<Rightarrow> json \<Rightarrow> json" where
  "request_json now reply rpcMethod params = JObj
     [(''id'', JStr (itoa now)), (''method'', JStr rpcMethod), (''params'', params), (''src'', JStr reply)]"

text \<open>The handler that the call adds: the flag says whether it took the message.\<close>

definition on_reply :: "string \<Rightarrow> packet \<Rightarrow> packet chan \<Rightarrow> (packet chan \<times> bool) outcome" where
  "on_reply sub p c =
     (if fst p \<noteq> sub then Returns (c, False)
      else bind_outcome (try_send p c) (\<lambda>(c', _). Returns (c', True)))"

fun on_replies :: "string \<Rightarrow> packet list \<Rightarrow> packet chan \<Rightarrow> packet chan outcome" where
  "on_replies sub [] c = Returns c"
| "on_replies sub (p # ps) c = bind_outcome (on_reply sub p c) (\<lambda>(c', _). on_replies sub ps c')"

text \<open>
  The final \<^verbatim>\<open>select\<close>. With no reply and a context that is not done yet, the call waits until
  its own deadline of ten seconds passes.
\<close>

definition await :: "call_env \<Rightarrow> packet chan \<Rightarrow> go_error + packet" where
  "await v c = (case (fst (recv c), ended v) of
      (Got m, None) \<Rightarrow> Inr m
    | (Got m, Some e) \<Rightarrow> if prefer_reply v then Inr m else Inl e
    | (_, Some e) \<Rightarrow> Inl e
    | (_, None) \<Rightarrow> Inl deadline_exceeded)"

definition augmented :: "go_error \<Rightarrow> string \<Rightarrow> params \<Rightarrow> go_error" where
  "augmented e m ps = the (Augment (Some e) m ps)"

definition shellyRPCRespAny ::
  "(json \<Rightarrow> string) \<Rightarrow> string \<Rightarrow> string \<Rightarrow> string \<Rightarrow> call_env \<Rightarrow> ((go_error + packet) \<times> mqtt_act list) outcome" where
  "shellyRPCRespAny show_json clientId t rpcMethod v =
     (case params_json v of
        Inl e \<Rightarrow> Returns (Inl (augmented e ''could not marshal params'' [(''rpcMethod'', rpcMethod)]), [])
      | Inr params \<Rightarrow>
       (let reply = replyTopic t clientId (unix_nano v);
            sub = replySubTopic t clientId (unix_nano v);
            errParams = [(''rpcMethod'', rpcMethod), (''paramsJson'', show_json params), (''replyTopic'', reply)];
            added = [AddOnPublishReceived sub, SubscribeTo sub] in
        case subscribe_err v of
          Some e \<Rightarrow> Returns (Inl (augmented e ''could not subscribe to topic'' errParams),
                     added @ [RemoveHandler sub])
        | None \<Rightarrow> (case payload_err v of
            Some e \<Rightarrow> Returns (Inl (augmented e ''could not marshal payload'' errParams),
                       added @ [UnsubscribeFrom sub, RemoveHandler sub])
          | None \<Rightarrow>
             (let asked = added @ [PublishTo t (request_json (unix_nano v) reply rpcMethod params)] in
              case publish_err v of
                Some e \<Rightarrow> Returns (Inl (augmented e ''could not publish message'' errParams),
                           asked @ [UnsubscribeFrom sub, RemoveHandler sub])
              | None \<Rightarrow> bind_outcome (on_replies sub (arrivals v) (make_chan 1)) (\<lambda>c.
                  Returns (case await v c of
                      Inr m \<Rightarrow> Inr m
                    | Inl e \<Rightarrow> Inl (augmented e ''context cancelled'' errParams),
                    asked @ [UnsubscribeFrom sub, RemoveHandler sub]))))))"

section \<open>Replies\<close>

lemma on_replies_send_all:
  "on_replies sub ps c = go_chan.send_all (filter (\<lambda>p. fst p = sub) ps) c"
proof (induction ps arbitrary: c)
  case Nil
  show ?case by simp
next
  case (Cons p ps)
  then show ?case
    by (cases "try_send p c") (auto simp: on_reply_def)
qed

lemma on_replies_first:
  "\<exists>c. on_replies sub ps (make_chan 1) = Returns c \<and> queued c = take 1 (filter (\<lambda>p. fst p = sub) ps)"
  using go_chan.send_all_take [of "make_chan 1" "filter (\<lambda>p. fst p = sub) ps"]
  by (auto simp: on_replies_send_all)

definition first_reply :: "string \<Rightarrow> packet list \<Rightarrow> packet option" where
  "first_reply sub ps = find (\<lambda>p. fst p = sub) ps"

lemma take1_find: "take 1 (filter P xs) = (case find P xs of None \<Rightarrow> [] | Some x \<Rightarrow> [x])"
  by (induction xs) auto

lemma await_first:
  assumes "queued c = take 1 (filter (\<lambda>p. fst p = sub) ps)" "ended v = None"
  shows "await v c = (case first_reply sub ps of None \<Rightarrow> Inl deadline_exceeded | Some m \<Rightarrow> Inr m)"
  using assms unfolding take1_find first_reply_def
  by (auto simp: await_def recv_def split: option.splits)

section \<open>Reply topics\<close>

lemma show_nat_no_slash: "CHR ''/'' \<notin> set (show_nat n)"
  using show_nat_digits [of "CHR ''/''" n] by (auto simp: char_digit_def)

lemma itoa_no_slash: "CHR ''/'' \<notin> set (itoa i)"
  by (simp add: itoa_def show_nat_no_slash)

lemma after_last_slash:
  assumes "x @ c # a = y @ c # b" "c \<notin> set a" "c \<notin> set b"
  shows "a = b"
proof -
  have "takeWhile (\<lambda>d. d \<noteq> c) (rev (x @ c # a)) = rev a"
    using assms(2) by (auto simp: takeWhile_tail takeWhile_eq_all_conv)
  moreover have "takeWhile (\<lambda>d. d \<noteq> c) (rev (y @ c # b)) = rev b"
    using assms(3) by (auto simp: takeWhile_tail takeWhile_eq_all_conv)
  ultimately show ?thesis using assms(1) by (metis rev_rev_ident)
qed

lemma replySubTopic_inj:
  assumes "in_int64 n" "in_int64 n'" "replySubTopic t cid n = replySubTopic t' cid' n'"
  shows "n = n'"
proof -
  from assms(3) have "(t @ ''/'' @ cid) @ CHR ''/'' # itoa n = (t' @ ''/'' @ cid') @ CHR ''/'' # itoa n'"
    by (simp add: replySubTopic_def replyTopic_def)
  then have "itoa n = itoa n'" by (rule after_last_slash) (rule itoa_no_slash)+
  with assms show ?thesis by (metis itoa_inj)
qed

lemma filter_other_topics:
  assumes "in_int64 n" "in_int64 n'" "n \<noteq> n'" "\<forall>p \<in> set qs. fst p = replySubTopic t' cid' n'"
  shows "filter (\<lambda>p. fst p = replySubTopic t cid n) qs = []"
  using assms replySubTopic_inj by (fastforce simp: filter_empty_conv)

section \<open>The transport of the light operations\<close>

text \<open>
  The operations on lights see a call as a function of the outside world: \<open>next\<close> says how the
  MQTT client behaves during the next call and how the world goes on; they read only the
  payload of the reply.
\<close>

definition shellyRPCResp ::
  "(string \<Rightarrow> string \<Rightarrow> json \<Rightarrow> 'w \<Rightarrow> call_env \<times> 'w) \<Rightarrow> (json \<Rightarrow> string) \<Rightarrow> string \<Rightarrow> 'w rpc" where
  "shellyRPCResp next show_json clientId t m params w =
     (case next t m params w of (v, w') \<Rightarrow>
        (case shellyRPCRespAny show_json clientId t m (v\<lparr>params_json := Inr params\<rparr>) of
           Returns (Inr p, _) \<Rightarrow> Inr (snd p)
         | Returns (Inl e, _) \<Rightarrow> Inl e
         | Panics s \<Rightarrow> Inl (Plain s), w'))"

section \<open>Properties\<close>

text \<open>
  C4: a device call never leaks: it never panics and, on every path, every handler it adds is
  removed and every successful subscription is unsubscribed before it returns; the request
  is published at most once and only after the reply topic is subscribed with a handler in
  place, so a reply cannot be missed.
\<close>

theorem rpc_cleans_up:
  "\<exists>r acts. shellyRPCRespAny show_json cid t m v = Returns (r, acts)
   \<and> (let sub = replySubTopic t cid (unix_nano v) in
       (acts = [] \<and> isl (params_json v))
     \<or> (acts = [AddOnPublishReceived sub, SubscribeTo sub, RemoveHandler sub]
         \<and> (\<exists>e. subscribe_err v = Some e) \<and> isl r)
     \<or> (acts = [AddOnPublishReceived sub, SubscribeTo sub, UnsubscribeFrom sub, RemoveHandler sub] \<and> isl r)
     \<or> (\<exists>req. acts = [AddOnPublishReceived sub, SubscribeTo sub, PublishTo t req, UnsubscribeFrom sub, RemoveHandler sub]))"
proof (cases "params_json v")
  case (Inl e)
  then show ?thesis by (simp add: shellyRPCRespAny_def)
next
  case (Inr params)
  let ?sub = "replySubTopic t cid (unix_nano v)"
  obtain c where "on_replies ?sub (arrivals v) (make_chan 1) = Returns c"
    using on_replies_first by blast
  with Inr show ?thesis
    by (cases "subscribe_err v"; cases "payload_err v"; cases "publish_err v")
      (simp_all add: shellyRPCRespAny_def Let_def)
qed

text \<open>
  C7: when subscribing and publishing work and the caller does not give up, the result is
  the first message that arrives on the call's own reply topic, however many other messages
  and repeated deliveries surround it, and a deadline error exactly when there is none; and
  messages for the reply topic of any call started at another nanosecond change nothing.
\<close>

theorem rpc_first_reply_wins:
  assumes "params_json v = Inr params" "subscribe_err v = None" "payload_err v = None"
    "publish_err v = None" "ended v = None"
    "arrivals v = xs @ ys @ zs" "\<forall>p \<in> set ys. fst p = replySubTopic t' cid' n'"
    "in_int64 (unix_nano v)" "in_int64 n'" "unix_nano v \<noteq> n'"
  shows "\<exists>acts e. shellyRPCRespAny show_json cid t m v = Returns
      (case first_reply (replySubTopic t cid (unix_nano v)) (xs @ zs) of
         Some p \<Rightarrow> Inr p
       | None \<Rightarrow> Inl (augmented deadline_exceeded ''context cancelled'' e), acts)"
proof -
  let ?sub = "replySubTopic t cid (unix_nano v)"
  have "filter (\<lambda>p. fst p = ?sub) ys = []" using assms(7-10) by (metis filter_other_topics)
  then have f: "filter (\<lambda>p. fst p = ?sub) (arrivals v) = filter (\<lambda>p. fst p = ?sub) (xs @ zs)"
    using assms(6) by simp
  obtain c where c: "on_replies ?sub (arrivals v) (make_chan 1) = Returns c"
      "queued c = take 1 (filter (\<lambda>p. fst p = ?sub) (arrivals v))"
    using on_replies_first by blast
  from await_first [OF c(2) [unfolded f] assms(5)]
  have "await v c = (case first_reply ?sub (xs @ zs) of None \<Rightarrow> Inl deadline_exceeded | Some m \<Rightarrow> Inr m)" .
  with c(1) assms(1-5) show ?thesis
    by (cases "first_reply ?sub (xs @ zs)") (auto simp: shellyRPCRespAny_def Let_def)
qed

definition demo_call :: call_env where
  "demo_call = \<lparr>params_json = Inr JNull, unix_nano = 7, subscribe_err = None, payload_err = None,
     publish_err = None,
     arrivals = [(replySubTopic ''t'' ''c'' 8, None), (replySubTopic ''t'' ''c'' 7, Some JNull),
                 (replySubTopic ''t'' ''c'' 7, None)],
     ended = None, prefer_reply = True\<rparr>"

theorem rpc_first_reply_wins_witness:
  "\<exists>acts. shellyRPCRespAny (\<lambda>_. []) ''c'' ''t'' ''m'' demo_call
     = Returns (Inr (replySubTopic ''t'' ''c'' 7, Some JNull), acts)"
proof -
  have "\<exists>acts e. shellyRPCRespAny (\<lambda>_. []) ''c'' ''t'' ''m'' demo_call = Returns
      (case first_reply (replySubTopic ''t'' ''c'' (unix_nano demo_call))
          ([] @ [(replySubTopic ''t'' ''c'' 7, Some JNull), (replySubTopic ''t'' ''c'' 7, None)]) of
         Some p \<Rightarrow> Inr p
       | None \<Rightarrow> Inl (augmented deadline_exceeded ''context cancelled'' e), acts)"
    by (rule rpc_first_reply_wins [where params = JNull and ys = "[(replySubTopic ''t'' ''c'' 8, None)]"
          and n' = 8 and t' = "''t''" and cid' = "''c''"])
      (simp_all add: demo_call_def in_int64_def)
  then show ?thesis by (simp add: demo_call_def first_reply_def)
qed

end
