(* ===== verification/Mqtt_Watch.thy ===== *)
theory Mqtt_Watch
  imports Broadcaster Shelly_Rpc
begin

text \<open>
  Watching lights (\<^verbatim>\<open>services/s-rpc-mqtt/mqtt_lights_watch.go\<close>) and the MQTT scaffold of
  \<^verbatim>\<open>mqtt.go\<close>: which notifications count as a change of a light, the bounded queue of changed
  lights, the loop that reads a changed light and publishes its status, and the dispatch of
  received messages.
\<close>

section \<open>Notifications\<close>

definition lightEventsTopic :: string where
  "lightEventsTopic = ''shelly/+/events/rpc''"

definition lightChangedBuffer :: nat where
  "lightChangedBuffer = 32"

record shellyNotification =
  Method :: string
  Params :: "string \<rightharpoonup> json"

record shellyOutputChange =
  Change_Output :: "bool option"
  Change_Brightness :: "int option"

definition dec_notification :: "shellyNotification decoder" where
  "dec_notification = dec_struct
     [(''method'', field Method (\<lambda>v s. s\<lparr>Method := v\<rparr>) dec_string),
      (''params'', field Params (\<lambda>v s. s\<lparr>Params := v\<rparr>) dec_rawmap)]"

definition change_fields :: "(string \<times> shellyOutputChange decoder) list" where
  "change_fields =
     [(''output'', field Change_Output (\<lambda>v s. s\<lparr>Change_Output := v\<rparr>) (dec_ptr dec_bool False)),
      (''brightness'', field Change_Brightness (\<lambda>v s. s\<lparr>Change_Brightness := v\<rparr>) (dec_ptr dec_int 0))]"

definition dec_change :: "shellyOutputChange decoder" where
  "dec_change = dec_struct change_fields"

definition no_change :: shellyOutputChange where
  "no_change = \<lparr>Change_Output = None, Change_Brightness = None\<rparr>"

definition changedLight :: "string \<Rightarrow> payload \<Rightarrow> string \<times> bool" where
  "changedLight t p =
     (case cut_prefix t ''shelly/'' of
        None \<Rightarrow> ([], False)
      | Some rest \<Rightarrow> (case cut_suffix rest ''/events/rpc'' of
          None \<Rightarrow> ([], False)
        | Some i \<Rightarrow> (case findLight i of
            Inl _ \<Rightarrow> ([], False)
          | Inr l \<Rightarrow> (case unmarshal dec_notification p \<lparr>Method = [], Params = Map.empty\<rparr> of
              (n, Some _) \<Rightarrow> ([], False)
            | (n, None) \<Rightarrow>
                if Method n \<noteq> ''NotifyStatus'' \<and> Method n \<noteq> ''NotifyFullStatus'' then ([], False)
                else (case Params n (to_lower (component l) @ '':0'') of
                    None \<Rightarrow> ([], False)
                  | Some rawChange \<Rightarrow> (case unmarshal dec_change (Some rawChange) no_change of
                      (change, Some _) \<Rightarrow> ([], False)
                    | (change, None) \<Rightarrow>
                        (i, Change_Output change \<noteq> None \<or> Change_Brightness change \<noteq> None)))))))"

subsection \<open>What a change is\<close>

text \<open>
  A field may be absent, null, or of the right type; a present non-null one sets the pointer.
\<close>

fun bool_field :: "json option \<Rightarrow> bool" where
  "bool_field (Some (JBool b)) = True"
| "bool_field (Some JNull) = True"
| "bool_field None = True"
| "bool_field _ = False"

fun int_field :: "json option \<Rightarrow> bool" where
  "int_field (Some (JNum lit)) = (atoi lit \<noteq> None)"
| "int_field (Some JNull) = True"
| "int_field None = True"
| "int_field _ = False"

definition present :: "json option \<Rightarrow> bool" where
  "present j \<longleftrightarrow> j \<noteq> None \<and> j \<noteq> Some JNull"

definition after_field :: "'a option \<Rightarrow> json option \<Rightarrow> bool" where
  "after_field old j = (if j = None then old \<noteq> None else present j)"

lemma find_change_field:
  "find_field change_fields ''output''
     = Some (field Change_Output (\<lambda>v s. s\<lparr>Change_Output := v\<rparr>) (dec_ptr dec_bool False))"
  "find_field change_fields ''brightness''
     = Some (field Change_Brightness (\<lambda>v s. s\<lparr>Change_Brightness := v\<rparr>) (dec_ptr dec_int 0))"
  "to_lower k = k \<Longrightarrow> k \<noteq> ''output'' \<Longrightarrow> k \<noteq> ''brightness'' \<Longrightarrow> find_field change_fields k = None"
  by (auto simp: find_field_def change_fields_def)

lemma dec_output:
  "field Change_Output (\<lambda>v s. s\<lparr>Change_Output := v\<rparr>) (dec_ptr dec_bool False) j s = (s', ok) \<Longrightarrow>
     ok = bool_field (Some j) \<and> (Change_Output s' \<noteq> None) = present (Some j)
     \<and> Change_Brightness s' = Change_Brightness s"
  by (cases j) (auto simp: field_def dec_ptr_def dec_bool_def present_def split: option.splits)

lemma dec_brightness:
  "field Change_Brightness (\<lambda>v s. s\<lparr>Change_Brightness := v\<rparr>) (dec_ptr dec_int 0) j s = (s', ok) \<Longrightarrow>
     ok = int_field (Some j) \<and> (Change_Brightness s' \<noteq> None) = present (Some j)
     \<and> Change_Output s' = Change_Output s"
  by (cases j) (auto simp: field_def dec_ptr_def dec_int_def present_def split: option.splits)

lemma dec_fields_change:
  assumes "distinct (map fst fs)" "\<forall>k \<in> fst ` set fs. to_lower k = k"
    "dec_fields change_fields fs s = (s', ok)"
  shows "ok = (bool_field (map_of fs ''output'') \<and> int_field (map_of fs ''brightness''))
    \<and> (Change_Output s' \<noteq> None) = after_field (Change_Output s) (map_of fs ''output'')
    \<and> (Change_Brightness s' \<noteq> None) = after_field (Change_Brightness s) (map_of fs ''brightness'')"
  using assms
proof (induction fs arbitrary: s s' ok)
  case Nil
  then show ?case by (auto simp: after_field_def)
next
  case (Cons kv fs)
  obtain k v where kv: "kv = (k, v)" by (cases kv)
  consider (out) "k = ''output''" | (bri) "k = ''brightness''" | (oth) "k \<noteq> ''output''" "k \<noteq> ''brightness''"
    by blast
  then show ?case
  proof cases
    case out
    obtain s1 ok1 where d: "field Change_Output (\<lambda>v s. s\<lparr>Change_Output := v\<rparr>) (dec_ptr dec_bool False) v s = (s1, ok1)"
      by fastforce
    obtain ok2 where r: "dec_fields change_fields fs s1 = (s', ok2)" "ok = (ok1 \<and> ok2)"
      using Cons.prems(3) d out by (auto simp: kv find_change_field split: prod.splits)
    have "map_of fs ''output'' = None" using Cons.prems(1) out by (auto simp: kv map_of_eq_None_iff)
    with Cons.IH [OF _ _ r(1)] Cons.prems dec_output [OF d] r(2) out show ?thesis
      by (simp add: kv after_field_def)
  next
    case bri
    obtain s1 ok1 where d: "field Change_Brightness (\<lambda>v s. s\<lparr>Change_Brightness := v\<rparr>) (dec_ptr dec_int 0) v s = (s1, ok1)"
      by fastforce
    obtain ok2 where r: "dec_fields change_fields fs s1 = (s', ok2)" "ok = (ok1 \<and> ok2)"
      using Cons.prems(3) d bri by (auto simp: kv find_change_field split: prod.splits)
    have "map_of fs ''brightness'' = None" using Cons.prems(1) bri by (auto simp: kv map_of_eq_None_iff)
    with Cons.IH [OF _ _ r(1)] Cons.prems dec_brightness [OF d] r(2) bri show ?thesis
      by (auto simp: kv after_field_def)
  next
    case oth
    with Cons.prems have "find_field change_fields k = None" by (simp add: kv find_change_field)
    with Cons.prems have "dec_fields change_fields fs s = (s', ok)" by (simp add: kv)
    with Cons oth show ?thesis by (simp add: kv)
  qed
qed

lemma decode_change:
  assumes "distinct (map fst fs)" "\<forall>k \<in> fst ` set fs. to_lower k = k"
  shows "\<exists>ch ok. dec_change (JObj fs) no_change = (ch, ok)
    \<and> ok = (bool_field (map_of fs ''output'') \<and> int_field (map_of fs ''brightness''))
    \<and> (Change_Output ch \<noteq> None) = present (map_of fs ''output'')
    \<and> (Change_Brightness ch \<noteq> None) = present (map_of fs ''brightness'')"
proof -
  obtain ch ok where d: "dec_fields change_fields fs no_change = (ch, ok)" by fastforce
  from dec_fields_change [OF assms d] d show ?thesis
    by (auto simp: dec_change_def dec_struct_def after_field_def no_change_def present_def split: if_splits)
qed

subsection \<open>Notifications as devices send them\<close>

definition notification :: "string \<Rightarrow> (string \<times> json) list \<Rightarrow> payload" where
  "notification m ps = Some (JObj [(''method'', JStr m), (''params'', JObj ps)])"

lemma lower_notification [simp]:
  "to_lower ''method'' = ''method''" "to_lower ''params'' = ''params''"
  by (simp_all add: to_lower_def lower_char_def)

lemma fold_upd_map_of: "fold (\<lambda>(k, v) m. m(k \<mapsto> v)) ps m = m ++ map_of (rev ps)"
proof (induction ps arbitrary: m)
  case Nil
  show ?case by simp
next
  case (Cons p ps)
  then show ?case by (cases p) (simp add: map_add_upd_left map_add_def fun_eq_iff split: option.splits)
qed

lemma unmarshal_notification:
  "unmarshal dec_notification (notification m ps) \<lparr>Method = [], Params = Map.empty\<rparr>
     = (\<lparr>Method = m, Params = map_of (rev ps)\<rparr>, None)"
  by (simp add: notification_def dec_notification_def dec_simps fold_upd_map_of)

lemma changedLight_topic:
  "changedLight t p = (i, True) \<Longrightarrow>
     t = ''shelly/'' @ i @ ''/events/rpc'' \<and> (\<exists>l \<in> set lights. light_id l = i)"
  by (auto simp: changedLight_def cut_prefix_Some_iff cut_suffix_Some_iff
      split: option.splits sum.splits prod.splits if_splits dest!: findLight_Inr)

lemma changedLight_notification:
  assumes "l \<in> set lights" "map_of (rev ps) (to_lower (component l) @ '':0'') = Some (JObj fs)"
    "distinct (map fst fs)" "\<forall>k \<in> fst ` set fs. to_lower k = k"
  shows "changedLight (''shelly/'' @ light_id l @ ''/events/rpc'') (notification m ps) =
    (if (m = ''NotifyStatus'' \<or> m = ''NotifyFullStatus'')
        \<and> bool_field (map_of fs ''output'') \<and> int_field (map_of fs ''brightness'')
     then (light_id l, present (map_of fs ''output'') \<or> present (map_of fs ''brightness''))
     else ([], False))"
proof -
  obtain ch ok where ch: "dec_change (JObj fs) no_change = (ch, ok)"
      "ok = (bool_field (map_of fs ''output'') \<and> int_field (map_of fs ''brightness''))"
      "(Change_Output ch \<noteq> None) = present (map_of fs ''output'')"
      "(Change_Brightness ch \<noteq> None) = present (map_of fs ''brightness'')"
    using decode_change [OF assms(3,4)] by blast
  have c: "cut_suffix (light_id l @ ''/events/rpc'') ''/events/rpc'' = Some (light_id l)"
    "cut_prefix (''shelly/'' @ light_id l @ ''/events/rpc'') ''shelly/'' = Some (light_id l @ ''/events/rpc'')"
    by (rule cut_suffix_append, rule cut_prefix_append)
  show ?thesis
    unfolding changedLight_def c unmarshal_notification using assms(1,2) ch(2-4)
    by (simp add: c unmarshal_notification unmarshal_def [of dec_change] ch(1) del: append_Cons append_Nil)
qed

section \<open>The scaffold\<close>

record mqttScaffold =
  isLeader :: bool
  lightChanged :: "string chan"
  lightUpdates :: "pb_LightStatus lightBroadcaster"

definition newScaffold :: mqttScaffold where
  "newScaffold = \<lparr>isLeader = False, lightChanged = make_chan lightChangedBuffer,
     lightUpdates = newLightBroadcaster\<rparr>"

definition buttonTopic :: string where
  "buttonTopic = ''94:b2:16:1d:c1:ed''"

definition notifyLightChanged :: "string \<Rightarrow> mqttScaffold \<Rightarrow> mqttScaffold outcome" where
  "notifyLightChanged i s = bind_outcome (try_send i (lightChanged s)) (\<lambda>(c, sent).
     Returns (s\<lparr>lightChanged := c\<rparr>))"

text \<open>
  The receive callback of \<^verbatim>\<open>newMqtt\<close>: whether the message was handled, the button messages
  for which a goroutine is started, and the new state.
\<close>

definition onPublishReceived ::
  "packet \<Rightarrow> mqttScaffold \<Rightarrow> (bool \<times> payload list \<times> mqttScaffold) outcome" where
  "onPublishReceived p s = (case p of (t, pl) \<Rightarrow>
     if t = buttonTopic then Returns (True, if isLeader s then [pl] else [], s)
     else (case changedLight t pl of (i, ok) \<Rightarrow>
       if ok then bind_outcome (notifyLightChanged i s) (\<lambda>s'. Returns (True, [], s'))
       else Returns (False, [], s)))"

text \<open>
  One turn of the loop of \<^verbatim>\<open>broadcastLightChanges\<close> when a changed light is queued (\<open>None\<close>
  when there is none and the loop waits); \<open>order\<close> is the iteration order of the subscriber
  map. Ending the loop runs the deferred close.
\<close>

definition broadcastLightChanges ::
  "'w rpc \<Rightarrow> nat list \<Rightarrow> mqttScaffold \<Rightarrow> 'w \<Rightarrow> (mqttScaffold \<times> 'w) outcome option" where
  "broadcastLightChanges rpc order s w = (case recv (lightChanged s) of
      (WouldBlock, _) \<Rightarrow> None
    | (r, c) \<Rightarrow>
       (let i = (case r of Got x \<Rightarrow> x | _ \<Rightarrow> []); s' = s\<lparr>lightChanged := c\<rparr> in
        Some (case getLight rpc i w of
            (Inl _, w') \<Rightarrow> Returns (s', w')
          | (Inr status, w') \<Rightarrow> bind_outcome (publish order status (lightUpdates s'))
              (\<lambda>b. Returns (s'\<lparr>lightUpdates := b\<rparr>, w')))))"

definition endBroadcast :: "nat list \<Rightarrow> mqttScaffold \<Rightarrow> mqttScaffold outcome" where
  "endBroadcast order s = bind_outcome (close_broadcaster order (lightUpdates s))
     (\<lambda>b. Returns (s\<lparr>lightUpdates := b\<rparr>))"

datatype watch_event =
    Incoming packet | Broadcast | ContextDone | Leader bool | Client "pb_LightStatus lb_event"

inductive watch_step ::
  "'w rpc \<Rightarrow> mqttScaffold \<times> 'w \<Rightarrow> watch_event \<Rightarrow> (mqttScaffold \<times> 'w) outcome \<Rightarrow> bool" for rpc where
  incoming: "watch_step rpc (s, w) (Incoming p)
     (bind_outcome (onPublishReceived p s) (\<lambda>(_, _, s'). Returns (s', w)))"
| broadcast: "distinct order \<Longrightarrow> set order = set (subscribers (lightUpdates s)) \<Longrightarrow>
     broadcastLightChanges rpc order s w = Some r \<Longrightarrow> watch_step rpc (s, w) Broadcast r"
| finish: "distinct order \<Longrightarrow> set order = set (subscribers (lightUpdates s)) \<Longrightarrow>
     watch_step rpc (s, w) ContextDone (bind_outcome (endBroadcast order s) (\<lambda>s'. Returns (s', w)))"
| leader: "watch_step rpc (s, w) (Leader b) (Returns (s\<lparr>isLeader := b\<rparr>, w))"
| client: "lb_step (lightUpdates s) e r \<Longrightarrow>
     watch_step rpc (s, w) (Client e) (bind_outcome r (\<lambda>b. Returns (s\<lparr>lightUpdates := b\<rparr>, w)))"

inductive watch_reachable :: "'w rpc \<Rightarrow> mqttScaffold \<times> 'w \<Rightarrow> bool" for rpc where
  start: "watch_reachable rpc (newScaffold, w)"
| step: "watch_reachable rpc x \<Longrightarrow> watch_step rpc x e (Returns y) \<Longrightarrow> watch_reachable rpc y"

definition watch_inv :: "mqttScaffold \<Rightarrow> bool" where
  "watch_inv s \<longleftrightarrow> lb_inv (lightUpdates s) \<and> \<not> shut (lightChanged s)
     \<and> buffer (lightChanged s) = lightChangedBuffer
     \<and> length (queued (lightChanged s)) \<le> lightChangedBuffer
     \<and> set (queued (lightChanged s)) \<subseteq> light_id ` set lights"

lemma watch_inv_new: "watch_inv newScaffold"
  by (simp add: watch_inv_def newScaffold_def lb_inv_init)

lemma onPublishReceived_safe:
  assumes "watch_inv s"
  shows "\<exists>h bs s'. onPublishReceived p s = Returns (h, bs, s') \<and> watch_inv s'"
proof (cases "fst p = buttonTopic")
  case True
  with assms show ?thesis by (cases p) (auto simp: onPublishReceived_def)
next
  case False
  obtain i ok where i: "changedLight (fst p) (snd p) = (i, ok)" by fastforce
  then have "ok \<Longrightarrow> i \<in> light_id ` set lights" using changedLight_topic [of "fst p" "snd p" i] by auto
  with False i assms show ?thesis
    by (cases "length (queued (lightChanged s)) < lightChangedBuffer")
      (auto simp: onPublishReceived_def notifyLightChanged_def try_send_def watch_inv_def split: prod.splits)
qed

lemma broadcast_safe:
  assumes "watch_inv s" "distinct order" "set order = set (subscribers (lightUpdates s))"
    "broadcastLightChanges rpc order s w = Some r"
  shows "\<exists>s' w'. r = Returns (s', w') \<and> watch_inv s'"
proof -
  have "publish order v (lightUpdates s) = Returns (deliver (set (subscribers (lightUpdates s))) v (lightUpdates s))"
      "lb_inv (deliver (set (subscribers (lightUpdates s))) v (lightUpdates s))" for v
    using assms by (auto simp: watch_inv_def lb_publish_eq lb_inv_deliver)
  with assms show ?thesis
    by (auto simp: broadcastLightChanges_def watch_inv_def recv_def Let_def
        split: list.splits if_splits prod.splits sum.splits)
qed

lemma watch_step_safe:
  assumes "watch_step rpc x e r" "watch_inv (fst x)"
  shows "\<exists>y. r = Returns y \<and> watch_inv (fst y)"
  using assms
proof (induction rule: watch_step.induct)
  case (incoming s w p)
  then show ?case using onPublishReceived_safe [of s p] by auto
next
  case (broadcast order s w r)
  then show ?case using broadcast_safe by fastforce
next
  case (finish order s w)
  then have "lb_step (lightUpdates s) Close (close_broadcaster order (lightUpdates s))"
    by (simp add: lb_step.cls)
  with finish show ?case by (auto simp: endBroadcast_def watch_inv_def dest!: lb_step_safe)
next
  case (leader s w b)
  then show ?case by (simp add: watch_inv_def)
next
  case (client s e r w)
  then show ?case by (auto simp: watch_inv_def dest!: lb_step_safe)
qed

lemma watch_reachable_inv: "watch_reachable rpc x \<Longrightarrow> watch_inv (fst x)"
proof (induction rule: watch_reachable.induct)
  case (start w)
  show ?case by (simp add: watch_inv_new)
next
  case (step x e y)
  then show ?case using watch_step_safe by fastforce
qed

section \<open>Properties\<close>

text \<open>
  A notification counts as a change of a light exactly when it comes from that light's
  own events topic, is a (full) status notification, and the light's component reports a
  switch state or a brightness of the right type; power readings and other fields do not
  count. (The component's last entry is the one JSON decoding keeps.)
\<close>

theorem changedLight_exact:
  assumes "l \<in> set lights" "map_of (rev ps) (to_lower (component l) @ '':0'') = Some (JObj fs)"
    "distinct (map fst fs)" "\<forall>k \<in> fst ` set fs. to_lower k = k"
  shows "changedLight t (notification m ps) = (light_id l, True) \<longleftrightarrow>
      t = ''shelly/'' @ light_id l @ ''/events/rpc''
    \<and> (m = ''NotifyStatus'' \<or> m = ''NotifyFullStatus'')
    \<and> bool_field (map_of fs ''output'') \<and> int_field (map_of fs ''brightness'')
    \<and> (present (map_of fs ''output'') \<or> present (map_of fs ''brightness''))"
proof (cases "t = ''shelly/'' @ light_id l @ ''/events/rpc''")
  case True
  then show ?thesis using changedLight_notification [OF assms, of m] by (auto split: if_splits)
next
  case False
  then show ?thesis using changedLight_topic by blast
qed

theorem changedLight_exact_witness:
  "changedLight ''shelly/plug103/events/rpc'' (notification ''NotifyStatus''
       [(''switch:0'', JObj [(''output'', JBool True), (''source'', JStr ''MQTT'')])]) = (''plug103'', True)
   \<and> changedLight ''shelly/plug103/events/rpc'' (notification ''NotifyStatus''
       [(''switch:0'', JObj [(''apower'', JNum ''2.4'')])]) \<noteq> (''plug103'', True)"
proof -
  let ?l = "\<lparr>light_id = ''plug103'', dimmable = False\<rparr>"
  have l: "?l \<in> set lights" by (simp add: lights_def)
  have s: "to_lower (component ?l) @ '':0'' = ''switch:0''"
    by (simp add: component_def to_lower_def lower_char_def) code_simp
  have k: "to_lower ''output'' = ''output''" "to_lower ''source'' = ''source''" "to_lower ''apower'' = ''apower''"
    by (simp_all add: to_lower_def lower_char_def)
  show ?thesis
    using changedLight_exact [OF l, of "[(''switch:0'', JObj [(''output'', JBool True), (''source'', JStr ''MQTT'')])]"
        "[(''output'', JBool True), (''source'', JStr ''MQTT'')]" "''shelly/plug103/events/rpc''" "''NotifyStatus''"]
      changedLight_exact [OF l, of "[(''switch:0'', JObj [(''apower'', JNum ''2.4'')])]"
        "[(''apower'', JNum ''2.4'')]" "''shelly/plug103/events/rpc''" "''NotifyStatus''"]
    by (simp add: s k present_def)
qed





end
