(* ===== verification/Mqtt_Button.thy ===== *)
theory Mqtt_Button
  imports Mqtt_Lights
begin

text \<open>
  \<^verbatim>\<open>services/s-rpc-mqtt/mqtt_handle_button.go\<close> and \<^verbatim>\<open>mqtt_handle_temp.go\<close>: the wall button, whose
  presses arrive more than once and are told apart by a packet id remembered for ten
  seconds, what each press does to the lights, and the polling of the aquarium thermometer.
  Configuration reads (\<^verbatim>\<open>config.Get(...).Int(default)\<close>) are an argument that maps key and
  default to the value.
\<close>

section \<open>The cache of packet ids\<close>

text \<open>
  The part of the vendored \<^verbatim>\<open>go-cache\<close> in use: an item is found until the clock has passed its
  expiration. The janitor only removes expired items, which are not found anyway.
\<close>

type_synonym 'v go_cache = "string \<rightharpoonup> 'v \<times> int"

definition defaultExpiration :: int where
  "defaultExpiration = 10 * 10 ^ 9"

definition cache_Get :: "int \<Rightarrow> string \<Rightarrow> 'v go_cache \<Rightarrow> 'v option" where
  "cache_Get now k c = (case c k of
      None \<Rightarrow> None
    | Some (v, e) \<Rightarrow> if e > 0 \<and> now > e then None else Some v)"

definition cache_Set :: "int \<Rightarrow> string \<Rightarrow> 'v \<Rightarrow> int \<Rightarrow> 'v go_cache \<Rightarrow> 'v go_cache" where
  "cache_Set now k v d c =
     (let d' = (if d = 0 then defaultExpiration else d) in
      c(k \<mapsto> (v, if d' > 0 then now + d' else 0)))"

definition pidSeen :: "int \<Rightarrow> int \<Rightarrow> int go_cache \<Rightarrow> bool \<times> int go_cache" where
  "pidSeen now pid seenPIDs =
     (cache_Get now (itoa pid) seenPIDs \<noteq> None, cache_Set now (itoa pid) 1 0 seenPIDs)"

text \<open>The verdicts of a sequence of sightings \<open>(time, packet id)\<close>.\<close>

fun sightings :: "(int \<times> int) list \<Rightarrow> int go_cache \<Rightarrow> bool list" where
  "sightings [] c = []"
| "sightings ((now, pid) # es) c = (case pidSeen now pid c of (seen, c') \<Rightarrow> seen # sightings es c')"

section \<open>Events\<close>

record ServiceData =
  Encryption :: bool
  BTHomeVersion :: int
  PID :: int
  Battery :: int
  Button :: "int list"

record BLEEvent =
  Addr :: string
  RSSI :: int
  LocalName :: string
  ServiceData :: ServiceData

definition zero_event :: BLEEvent where
  "zero_event = \<lparr>Addr = [], RSSI = 0, LocalName = [],
     ServiceData = \<lparr>Encryption = False, BTHomeVersion = 0, PID = 0, Battery = 0, Button = []\<rparr>\<rparr>"

definition dec_ServiceData :: "ServiceData decoder" where
  "dec_ServiceData = dec_struct
     [(''encryption'', field Encryption (\<lambda>v s. s\<lparr>Encryption := v\<rparr>) dec_bool),
      (''BTHome_version'', field BTHomeVersion (\<lambda>v s. s\<lparr>BTHomeVersion := v\<rparr>) dec_int),
      (''pid'', field PID (\<lambda>v s. s\<lparr>PID := v\<rparr>) dec_int),
      (''battery'', field Battery (\<lambda>v s. s\<lparr>Battery := v\<rparr>) dec_int),
      (''button'', field Button (\<lambda>v s. s\<lparr>Button := v\<rparr>) (dec_slice dec_int 0))]"

definition dec_BLEEvent :: "BLEEvent decoder" where
  "dec_BLEEvent = dec_struct
     [(''addr'', field Addr (\<lambda>v s. s\<lparr>Addr := v\<rparr>) dec_string),
      (''rssi'', field RSSI (\<lambda>v s. s\<lparr>RSSI := v\<rparr>) dec_int),
      (''local_name'', field LocalName (\<lambda>v s. s\<lparr>LocalName := v\<rparr>) dec_string),
      (''service_data'', field ServiceData (\<lambda>v s. s\<lparr>ServiceData := v\<rparr>) dec_ServiceData)]"

definition aquariumLights :: "string list" where
  "aquariumLights = [''rgb105'', ''rgb108'']"

text \<open>The goroutines an event starts.\<close>

datatype button_act = Toggle string | DoublePress string

fun act_light :: "button_act \<Rightarrow> string" where
  "act_light (Toggle i) = i"
| "act_light (DoublePress i) = i"

definition button_acts :: "int \<Rightarrow> int \<Rightarrow> int \<Rightarrow> int \<Rightarrow> button_act list" where
  "button_acts b0 b1 b2 b3 =
     (if b0 = 2 then map Toggle [''plug103'', ''plug104'', ''plug106''] else [])
   @ (if b0 = 1 then map Toggle [''plug103''] else [])
   @ (if b1 = 254 then map Toggle [''plug104''] else [])
   @ (if b2 = 254 then map Toggle [''plug106''] else [])
   @ (if b3 = 1 then map Toggle aquariumLights else [])
   @ (if b3 = 2 then map DoublePress aquariumLights else [])"

definition handleButtonEvent ::
  "int \<Rightarrow> payload \<Rightarrow> int go_cache \<Rightarrow> (button_act list \<times> int go_cache) outcome" where
  "handleButtonEvent now p c =
     (case unmarshal dec_BLEEvent p zero_event of
        (event, Some _) \<Rightarrow> Returns ([], c)
      | (event, None) \<Rightarrow>
          (case pidSeen now (PID (ServiceData event)) c of (seen, c') \<Rightarrow>
             if seen then Returns ([], c')
             else (case Button (ServiceData event) of
                 b0 # b1 # b2 # b3 # _ \<Rightarrow> Returns (button_acts b0 b1 b2 b3, c')
               | _ \<Rightarrow> Panics ''index out of range'')))"

section \<open>Double press\<close>

type_synonym conf = "string \<Rightarrow> int \<Rightarrow> int"

definition aquariumLightsDoublePress :: "'w rpc \<Rightarrow> conf \<Rightarrow> string \<Rightarrow> 'w \<Rightarrow> err \<times> 'w" where
  "aquariumLightsDoublePress rpc conf i w = (case getLight rpc i w of
      (Inl e, w') \<Rightarrow> (Augment (Some e) ''could not get light status'' [], w')
    | (Inr status, w') \<Rightarrow>
       (let highBrightness = conf ''mqtt/lights/aquariumHigh'' 70;
            brightness = (if \<not> Status_On status
                 \<or> sint (GetBrightness status) \<ge> sint (to_int32 highBrightness)
               then conf ''mqtt/lights/aquariumLow'' 4 else highBrightness) in
        case setLight rpc \<lparr>Req_Id = i, Req_On = Some True, Req_Brightness = Some (to_int32 brightness)\<rparr> w' of
          (e, w'') \<Rightarrow> (Augment e ''could not set light'' [], w'')))"

fun presses :: "'w rpc \<Rightarrow> conf \<Rightarrow> string \<Rightarrow> nat \<Rightarrow> 'w \<Rightarrow> 'w" where
  "presses rpc conf i 0 w = w"
| "presses rpc conf i (Suc n) w = presses rpc conf i n (snd (aquariumLightsDoublePress rpc conf i w))"

section \<open>The thermometer\<close>

definition aquariumPill :: string where
  "aquariumPill = ''pill107''"

record tempResult =
  Temp_Id :: int
  TC :: rat
  TF :: rat

record shellyTempStatusResponse =
  Dst :: string
  Resp_Id :: int
  Temp_Result :: "tempResult option"
  Src :: string

definition dec_tempResult :: "tempResult decoder" where
  "dec_tempResult = dec_struct
     [(''id'', field Temp_Id (\<lambda>v s. s\<lparr>Temp_Id := v\<rparr>) dec_int),
      (''tC'', field TC (\<lambda>v s. s\<lparr>TC := v\<rparr>) dec_float),
      (''tF'', field TF (\<lambda>v s. s\<lparr>TF := v\<rparr>) dec_float)]"

definition dec_tempStatus :: "shellyTempStatusResponse decoder" where
  "dec_tempStatus = dec_struct
     [(''dst'', field Dst (\<lambda>v s. s\<lparr>Dst := v\<rparr>) dec_string),
      (''id'', field Resp_Id (\<lambda>v s. s\<lparr>Resp_Id := v\<rparr>) dec_int),
      (''result'', field Temp_Result (\<lambda>v s. s\<lparr>Temp_Result := v\<rparr>)
         (dec_ptr dec_tempResult \<lparr>Temp_Id = 0, TC = 0, TF = 0\<rparr>)),
      (''src'', field Src (\<lambda>v s. s\<lparr>Src := v\<rparr>) dec_string)]"

text \<open>The gauge of the pill is the second component of the result.\<close>

definition aquariumTempPoll :: "'w rpc \<Rightarrow> rat option \<Rightarrow> 'w \<Rightarrow> (err \<times> rat option) \<times> 'w" where
  "aquariumTempPoll rpc gauge w =
     (case rpc (''shelly/'' @ aquariumPill @ ''/rpc'') ''Temperature.GetStatus'' (JObj [(''id'', JNum ''200'')]) w of
        (Inl e, w') \<Rightarrow> ((Augment (Some e) ''could not get temp status'' [], gauge), w')
      | (Inr resp, w') \<Rightarrow>
          (case unmarshal dec_tempStatus resp \<lparr>Dst = [], Resp_Id = 0, Temp_Result = None, Src = []\<rparr> of
             (parsed, Some e) \<Rightarrow> ((Augment (Some e) ''could not parse temp status'' [], gauge), w')
           | (parsed, None) \<Rightarrow> ((None, case Temp_Result parsed of None \<Rightarrow> gauge | Some r \<Rightarrow> Some (TC r)), w')))"

text \<open>
  The polling loop for a number of ticks, until the context ends with error \<open>e\<close>:
  \<^verbatim>\<open>time.NewTicker\<close> panics unless its 64-bit duration is positive.
\<close>

fun poll_ticks :: "'w rpc \<Rightarrow> nat \<Rightarrow> rat option \<Rightarrow> 'w \<Rightarrow> rat option \<times> 'w" where
  "poll_ticks rpc 0 g w = (g, w)"
| "poll_ticks rpc (Suc n) g w = (case aquariumTempPoll rpc g w of ((_, g'), w') \<Rightarrow> poll_ticks rpc n g' w')"

definition ticker_ns :: "int \<Rightarrow> int" where
  "ticker_ns s = sint (word_of_int s * word_of_int (10 ^ 9) :: 64 word)"

definition aquariumTempPollingForever ::
  "'w rpc \<Rightarrow> conf \<Rightarrow> nat \<Rightarrow> go_error \<Rightarrow> rat option \<Rightarrow> 'w \<Rightarrow> (go_error \<times> rat option \<times> 'w) outcome" where
  "aquariumTempPollingForever rpc conf ticks e g w =
     (if ticker_ns (conf ''mqtt/aquariumTemp/polling_s'' 30) \<le> 0
      then Panics ''non-positive interval for NewTicker''
      else Returns (e, poll_ticks rpc ticks g w))"

section \<open>Facts about the cache of packet ids\<close>

fun remember :: "(int \<times> int) list \<Rightarrow> int go_cache \<Rightarrow> int go_cache" where
  "remember [] c = c"
| "remember ((now, pid) # es) c = remember es (snd (pidSeen now pid c))"

lemma remember_append: "remember (xs @ ys) c = remember ys (remember xs c)"
  by (induction xs c rule: remember.induct) auto

lemma sightings_append: "sightings (xs @ ys) c = sightings xs c @ sightings ys (remember xs c)"
  by (induction xs c rule: remember.induct) (auto split: prod.splits)

lemma length_sightings [simp]: "length (sightings es c) = length es"
  by (induction es c rule: sightings.induct) (auto split: prod.splits)

lemma sightings_nth:
  assumes "k < length es"
  shows "sightings es c ! k = fst (pidSeen (fst (es ! k)) (snd (es ! k)) (remember (take k es) c))"
proof -
  have "es = take k es @ es ! k # drop (Suc k) es" using assms by (rule id_take_nth_drop)
  then have "sightings es c = sightings (take k es) c
      @ sightings (es ! k # drop (Suc k) es) (remember (take k es) c)"
    by (metis sightings_append)
  with assms show ?thesis by (cases "es ! k") (simp add: nth_append split: prod.splits)
qed

lemma remember_last:
  "remember es Map.empty k = map_option (\<lambda>(t, p). (1, t + defaultExpiration)) (find (\<lambda>(t, p). itoa p = k) (rev es))"
proof (induction es rule: rev_induct)
  case Nil
  show ?case by simp
next
  case (snoc e es)
  obtain t p where e: "e = (t, p)" by (cases e)
  from snoc show ?case
    by (auto simp: e remember_append pidSeen_def cache_Set_def defaultExpiration_def)
qed

lemma pidSeen_remember:
  assumes "\<forall>e \<in> set es. 0 \<le> fst e \<and> in_int64 (snd e) \<and> fst e \<le> t" "in_int64 p" "sorted (map fst es)"
  shows "fst (pidSeen t p (remember es Map.empty)) \<longleftrightarrow>
    (\<exists>e \<in> set es. snd e = p \<and> t \<le> fst e + defaultExpiration)"
proof (cases "find (\<lambda>(t, p'). itoa p' = itoa p) (rev es)")
  case None
  then have "\<And>a b. (a, b) \<in> set es \<Longrightarrow> itoa b \<noteq> itoa p" by (auto simp: find_None_iff)
  then have "\<forall>e \<in> set es. snd e \<noteq> p" by fastforce
  with None show ?thesis by (auto simp: pidSeen_def cache_Get_def remember_last)
next
  case (Some e)
  obtain t0 p0 where e: "e = (t0, p0)" by (cases e)
  from find_split [OF Some] obtain xs ys where "rev es = xs @ e # ys" "itoa p0 = itoa p"
      and old: "\<forall>x \<in> set xs. \<not> (case x of (t, p') \<Rightarrow> itoa p' = itoa p)" by (auto simp: e)
  then have es: "es = rev ys @ e # rev xs" and mem: "itoa p0 = itoa p" "e \<in> set es"
    by (simp_all add: rev_swap) 
  with assms have p: "p0 = p" using itoa_inj e by (metis snd_conv)
  have t0: "0 \<le> t0" using assms mem e by auto
  have latest: "fst f \<le> t0" if "f \<in> set es" "snd f = p" for f
    using that old assms(3) by (fastforce simp: es e sorted_append)
  have "fst (pidSeen t p (remember es Map.empty)) \<longleftrightarrow> t \<le> t0 + defaultExpiration"
    using Some t0 by (auto simp: pidSeen_def cache_Get_def remember_last e defaultExpiration_def)
  also have "\<dots> \<longleftrightarrow> (\<exists>e \<in> set es. snd e = p \<and> t \<le> fst e + defaultExpiration)"
  proof
    assume "t \<le> t0 + defaultExpiration"
    with mem p e show "\<exists>e \<in> set es. snd e = p \<and> t \<le> fst e + defaultExpiration"
      by (intro bexI [of _ e]) auto
  next
    assume "\<exists>e \<in> set es. snd e = p \<and> t \<le> fst e + defaultExpiration"
    then obtain f where "f \<in> set es" "snd f = p" "t \<le> fst f + defaultExpiration" by blast
    with latest [of f] show "t \<le> t0 + defaultExpiration" by simp
  qed
  finally show ?thesis .
qed

section \<open>Facts about a double press\<close>

lemma aquariumLights_dimmable: "i \<in> set aquariumLights \<Longrightarrow> \<exists>l \<in> set lights. light_id l = i \<and> dimmable l"
  by (auto simp: aquariumLights_def lights_def)

lemma double_press_device:
  assumes "shelly_lights rpc st" "l \<in> set lights" "dimmable l"
    "0 \<le> conf ''mqtt/lights/aquariumLow'' 4" "conf ''mqtt/lights/aquariumLow'' 4 \<le> 100"
    "0 \<le> conf ''mqtt/lights/aquariumHigh'' 70" "conf ''mqtt/lights/aquariumHigh'' 70 \<le> 100"
  shows "\<exists>w'. aquariumLightsDoublePress rpc conf (light_id l) w = (None, w')
    \<and> st w' = (st w)(light_id l := (True,
        if fst (st w (light_id l)) \<and> snd (st w (light_id l)) < conf ''mqtt/lights/aquariumHigh'' 70
        then conf ''mqtt/lights/aquariumHigh'' 70 else conf ''mqtt/lights/aquariumLow'' 4))"
proof -
  let ?b = "if fst (st w (light_id l)) \<and> snd (st w (light_id l)) < conf ''mqtt/lights/aquariumHigh'' 70
        then conf ''mqtt/lights/aquariumHigh'' 70 else conf ''mqtt/lights/aquariumLow'' 4"
  from getLight_device [OF assms(1-3)] obtain w1 where g: "getLight rpc (light_id l) w = (Inr \<lparr>Status_Id = light_id l,
      Status_On = fst (st w (light_id l)), Status_Dimmable = True,
      Status_Brightness = Some (to_int32 (snd (st w (light_id l))))\<rparr>, w1)" "st w1 = st w" by blast
  have s: "sint (to_int32 (snd (st w (light_id l)))) = snd (st w (light_id l))"
      "sint (to_int32 (conf ''mqtt/lights/aquariumHigh'' 70)) = conf ''mqtt/lights/aquariumHigh'' 70"
    using shelly_brightness [OF assms(1-3), of w] assms by (simp_all add: sint_to_int32)
  have b: "0 \<le> ?b" "?b \<le> 100" using assms by simp_all
  from setLight_device [OF assms(1-3) b, of True w1] obtain w2 where
      "setLight rpc \<lparr>Req_Id = light_id l, Req_On = Some True, Req_Brightness = Some (to_int32 ?b)\<rparr> w1 = (None, w2)"
      "st w2 = (st w1)(light_id l := (True, ?b))" by blast
  with g s show ?thesis
    by (auto simp: aquariumLightsDoublePress_def Let_def GetBrightness_def not_less split: if_splits)
qed

section \<open>Properties\<close>

text \<open>
  C23: a packet of the button is acted on exactly once per burst: in any sequence of
  sightings in time order, a packet id counts as already seen exactly when the same id was
  sighted at most ten seconds before, so a redelivery is dropped and an id can be reused.
\<close>

theorem pidSeen_deduplicates:
  assumes "sorted (map fst es)" "\<forall>e \<in> set es. 0 \<le> fst e \<and> in_int64 (snd e)" "k < length es"
  shows "sightings es Map.empty ! k \<longleftrightarrow>
    (\<exists>j < k. snd (es ! j) = snd (es ! k) \<and> fst (es ! k) \<le> fst (es ! j) + 10 * 10 ^ 9)"
proof -
  have "\<forall>e \<in> set (take k es). 0 \<le> fst e \<and> in_int64 (snd e) \<and> fst e \<le> fst (es ! k)"
  proof
    fix e assume "e \<in> set (take k es)"
    then obtain j where j: "j < k" "e = es ! j" by (auto simp: in_set_conv_nth)
    moreover from j assms(3) have "e \<in> set es" by simp
    moreover from j assms(1,3) have "fst (es ! j) \<le> fst (es ! k)"
      using sorted_nth_mono [OF assms(1), of j k] by simp
    ultimately show "0 \<le> fst e \<and> in_int64 (snd e) \<and> fst e \<le> fst (es ! k)" using assms(2) by simp
  qed
  moreover have "sorted (map fst (take k es))" using assms(1) by (simp add: take_map [symmetric] sorted_wrt_take)
  moreover have "in_int64 (snd (es ! k))" using assms by simp
  ultimately have "sightings es Map.empty ! k \<longleftrightarrow>
      (\<exists>e \<in> set (take k es). snd e = snd (es ! k) \<and> fst (es ! k) \<le> fst e + defaultExpiration)"
    using assms(3) by (simp add: sightings_nth pidSeen_remember)
  also have "\<dots> \<longleftrightarrow> (\<exists>j < k. snd (es ! j) = snd (es ! k) \<and> fst (es ! k) \<le> fst (es ! j) + 10 * 10 ^ 9)"
    using assms(3) by (simp add: bex_take defaultExpiration_def)
  finally show ?thesis .
qed

theorem pidSeen_deduplicates_witness:
  "\<not> sightings [(0, 5), (4, 5), (4 + 10 * 10 ^ 9 + 1, 5)] Map.empty ! 2"
proof -
  have two: "(\<exists>j < (2::nat). P j) \<longleftrightarrow> P 0 \<or> P 1" for P
    by (auto simp: numeral_2_eq_2 less_Suc_eq)
  show ?thesis
    using pidSeen_deduplicates [of "[(0, 5), (4, 5), (4 + 10 * 10 ^ 9 + 1, 5)]" 2]
    by (simp add: in_int64_def two)
qed

text \<open>
  C24: double presses on an aquarium light alternate it between the two configured levels,
  starting bright from a dim light that is on and dim otherwise, always leave it on, and
  touch no other light.
\<close>

theorem double_press_alternates:
  assumes "shelly_lights rpc st" "i \<in> set aquariumLights"
    "conf ''mqtt/lights/aquariumLow'' 4 = low" "conf ''mqtt/lights/aquariumHigh'' 70 = high"
    "0 \<le> low" "low < high" "high \<le> 100"
  shows "st (presses rpc conf i (Suc n) w) = (st w)(i := (True,
      if even n = (fst (st w i) \<and> snd (st w i) < high) then high else low))"
  using assms
proof (induction n arbitrary: w)
  case 0
  obtain l where l: "l \<in> set lights" "dimmable l" "light_id l = i"
    using aquariumLights_dimmable [OF assms(2)] by blast
  from double_press_device [OF assms(1) l(1,2), of conf w] assms l(3) show ?case by (auto simp: Let_def)
next
  case (Suc n)
  obtain l where l: "l \<in> set lights" "dimmable l" "light_id l = i"
    using aquariumLights_dimmable [OF assms(2)] by blast
  from double_press_device [OF assms(1) l(1,2), of conf w] assms l(3)
  have "st (snd (aquariumLightsDoublePress rpc conf i w)) =
      (st w)(i := (True, if fst (st w i) \<and> snd (st w i) < high then high else low))" by auto
  with Suc.IH [of "snd (aquariumLightsDoublePress rpc conf i w)"] assms show ?case
    by (simp add: fun_eq_iff)
qed

theorem double_press_alternates_witness:
  "sim_state (presses sim_rpc (\<lambda>_ d. d) ''rgb105'' (Suc 1) (\<lambda>_. (False, 50))) =
     (sim_state (\<lambda>_. (False, 50)))(''rgb105'' := (True, 70))"
  using double_press_alternates [OF sim_rpc_contract, of "''rgb105''" "\<lambda>_ d. d" 4 70 1 "\<lambda>_. (False, 50)"]
  by (simp add: aquariumLights_def sim_state_def)

text \<open>
  The only packets that crash the button handler are those that parse, are new and
  report fewer than four buttons; every goroutine it starts otherwise acts on a light of
  the table, and on a dimmable one for a double press.
\<close>

theorem button_event_outcome:
  "handleButtonEvent now p c = r \<Longrightarrow>
     (\<forall>acts c'. r = Returns (acts, c') \<longrightarrow> (\<forall>a \<in> set acts. \<exists>l \<in> set lights.
        light_id l = act_light a \<and> (\<forall>i. a = DoublePress i \<longrightarrow> dimmable l)))
   \<and> ((\<exists>m. r = Panics m) \<longleftrightarrow> (\<exists>event. unmarshal dec_BLEEvent p zero_event = (event, None)
        \<and> \<not> fst (pidSeen now (PID (ServiceData event)) c) \<and> length (Button (ServiceData event)) < 4))"
proof -
  assume r: "handleButtonEvent now p c = r"
  have k: "a \<in> set (button_acts b0 b1 b2 b3) \<Longrightarrow> \<exists>l \<in> set lights. light_id l = act_light a
      \<and> (\<forall>i. a = DoublePress i \<longrightarrow> dimmable l)" for a b0 b1 b2 b3
    by (auto simp: button_acts_def lights_def aquariumLights_def split: if_splits)
  show ?thesis
  proof (cases "\<exists>event. unmarshal dec_BLEEvent p zero_event = (event, None)
      \<and> \<not> fst (pidSeen now (PID (ServiceData event)) c)")
    case True
    then obtain event where e: "unmarshal dec_BLEEvent p zero_event = (event, None)"
        "\<not> fst (pidSeen now (PID (ServiceData event)) c)" by blast
    with r k show ?thesis
      by (auto simp: handleButtonEvent_def split: list.splits prod.splits)
  next
    case False
    with r show ?thesis
      by (auto simp: handleButtonEvent_def split: list.splits prod.splits option.splits)
  qed
qed

definition short_event :: payload where
  "short_event = Some (JObj [(''service_data'', JObj [(''pid'', JNum ''3''), (''button'', JArr [JNum ''1''])])])"

theorem button_event_outcome_witness:
  "\<exists>m. handleButtonEvent 0 short_event Map.empty = Panics m"
proof -
  have a: "atoi ''3'' = Some 3" "atoi ''1'' = Some 1"
    by (simp_all add: atoi_def read_sign_def char_digit_def in_int64_def)
  have e: "unmarshal dec_BLEEvent short_event zero_event = (zero_event\<lparr>ServiceData :=
      (ServiceData zero_event)\<lparr>PID := 3, Button := [1]\<rparr>\<rparr>, None)"
    by (simp add: short_event_def dec_BLEEvent_def dec_ServiceData_def zero_event_def dec_simps a)
  then show ?thesis
    using button_event_outcome [of 0 short_event Map.empty, OF refl]
    by (simp add: pidSeen_def cache_Get_def)
qed

text \<open>
  The thermometer poll keeps the last good reading when the device cannot be reached or
  answers badly, and polling starts for every configured period from 1 up to 9223372036
  seconds but panics for a period of zero.
\<close>

theorem polling_period:
  "conf ''mqtt/aquariumTemp/polling_s'' 30 = period \<Longrightarrow>
     (period = 0 \<longrightarrow> (\<exists>m. aquariumTempPollingForever rpc conf ticks e g w = Panics m))
   \<and> (1 \<le> period \<and> period \<le> 9223372036 \<longrightarrow>
        aquariumTempPollingForever rpc conf ticks e g w = Returns (e, poll_ticks rpc ticks g w))
   \<and> (\<forall>x w'. rpc (''shelly/pill107/rpc'') ''Temperature.GetStatus'' (JObj [(''id'', JNum ''200'')]) w = (Inl x, w')
        \<longrightarrow> poll_ticks rpc 1 g w = (g, w'))"
proof -
  assume p: "conf ''mqtt/aquariumTemp/polling_s'' 30 = period"
  have "ticker_ns period = period * 10 ^ 9" if "1 \<le> period" "period \<le> 9223372036"
  proof -
    have "word_of_int period * word_of_int (10 ^ 9) = (word_of_int (period * 10 ^ 9) :: 64 word)"
      by simp
    then have "ticker_ns period = sint (word_of_int (period * 10 ^ 9) :: 64 word)"
      unfolding ticker_ns_def by (rule arg_cong)
    also have "\<dots> = period * 10 ^ 9"
      using that by (subst sint_sbintrunc') (intro signed_take_bit_int_eq_self, auto)
    finally show ?thesis .
  qed
  moreover have "ticker_ns 0 = 0" by (simp add: ticker_ns_def)
  ultimately show ?thesis
    using p by (auto simp: aquariumTempPollingForever_def aquariumTempPoll_def aquariumPill_def)
qed

theorem polling_period_witness:
  "aquariumTempPollingForever (\<lambda>t m j w. (Inl (Plain ''down''), w)) (\<lambda>_ d. d) 1 (Plain ''stop'') (Some 24) ()
     = Returns (Plain ''stop'', Some 24, ())"
  using polling_period [of "\<lambda>_ d. d" 30 "\<lambda>t m j w. (Inl (Plain ''down''), w)" 1 "Plain ''stop''" "Some 24" "()"]
  by (simp add: aquariumTempPoll_def)

end
