(* ===== verification/Context.thy ===== *)
theory Context
  imports Terrors
begin

text \<open>
  Contexts and the values the program keeps in them: the logging attributes of
  \<^verbatim>\<open>lib/util/slog.go\<close>, the module name of \<^verbatim>\<open>lib/bedrock/module_name.go\<close> and
  \<^verbatim>\<open>default_context.go\<close>, and the identifier helpers of \<^verbatim>\<open>lib/util/cases.go\<close>. A Go context is
  the chain of its \<^verbatim>\<open>WithValue\<close> layers, innermost first.
\<close>

section \<open>Identifier case\<close>

definition KebabToSnakeCase :: "string \<Rightarrow> string" where
  "KebabToSnakeCase name = replace_all name ''-'' ''_''"

definition SnakeToKebabCase :: "string \<Rightarrow> string" where
  "SnakeToKebabCase name = replace_all name ''_'' ''-''"

lemma KebabToSnakeCase_map: "KebabToSnakeCase s = map (\<lambda>c. if c = CHR ''-'' then CHR ''_'' else c) s"
  by (simp add: KebabToSnakeCase_def replace_all_char)

lemma SnakeToKebabCase_map: "SnakeToKebabCase s = map (\<lambda>c. if c = CHR ''_'' then CHR ''-'' else c) s"
  by (simp add: SnakeToKebabCase_def replace_all_char)

lemma kebab_snake_roundtrip: "CHR ''_'' \<notin> set s \<Longrightarrow> SnakeToKebabCase (KebabToSnakeCase s) = s"
  by (auto simp: KebabToSnakeCase_map SnakeToKebabCase_map intro!: map_idI)

section \<open>Contexts\<close>

text \<open>A log attribute: strings, errors and groups are the kinds the program logs.\<close>

datatype slog_Value = LStr string | LErr go_error | LGroup "(string \<times> slog_Value) list"

type_synonym attr = "string \<times> slog_Value"

datatype ContextLogValue = ContextLogValue (parent: "ContextLogValue option") (LogValues: "attr list")

datatype ctx_value = VString string | VLog ContextLogValue

type_synonym ctx = "(string \<times> ctx_value) list"

abbreviation background :: ctx where
  "background \<equiv> []"

definition WithValue :: "ctx \<Rightarrow> string \<Rightarrow> ctx_value \<Rightarrow> ctx" where
  "WithValue c k v = (k, v) # c"

definition ctx_Value :: "ctx \<Rightarrow> string \<Rightarrow> ctx_value option" where
  "ctx_Value c k = map_of c k"

definition contextLogKeyName :: string where
  "contextLogKeyName = ''context_log_key_0rjf02''"

definition contextModuleNameKey :: string where
  "contextModuleNameKey = ''_context_module_name_key__023eqhfnv90''"

definition log_value :: "ctx \<Rightarrow> ContextLogValue option" where
  "log_value c = (case ctx_Value c contextLogKeyName of Some (VLog v) \<Rightarrow> Some v | _ \<Rightarrow> None)"

definition CtxWithLog :: "ctx \<Rightarrow> attr list \<Rightarrow> ctx" where
  "CtxWithLog c values = WithValue c contextLogKeyName (VLog (ContextLogValue (log_value c) values))"

text \<open>The iterator of \<^verbatim>\<open>logAttrsFrom\<close> as the list of what it yields.\<close>

fun logAttrsFrom :: "ContextLogValue \<Rightarrow> attr list list" where
  "logAttrsFrom (ContextLogValue p vs) =
     (case p of None \<Rightarrow> [] | Some q \<Rightarrow> logAttrsFrom q) @ (if vs \<noteq> [] then [vs] else [])"

text \<open>
  \<^verbatim>\<open>ContextLogHandler.Handle\<close>: the attributes of the record it passes to the next handler,
  and the errors among them, which it records in the current span.
\<close>

definition attr_errors :: "attr list \<Rightarrow> go_error list" where
  "attr_errors as = List.map_filter (\<lambda>(_, v). case v of LErr e \<Rightarrow> Some e | _ \<Rightarrow> None) as"

definition Handle :: "ctx \<Rightarrow> attr list \<Rightarrow> attr list \<times> go_error list" where
  "Handle c record_attrs =
     (let attrs = (case log_value c of None \<Rightarrow> record_attrs
        | Some v \<Rightarrow> record_attrs @ concat (logAttrsFrom v)) in
      (attrs, attr_errors attrs))"

definition CtxWithModuleName :: "ctx \<Rightarrow> string \<Rightarrow> ctx" where
  "CtxWithModuleName c name = WithValue c contextModuleNameKey (VString name)"

definition GetModuleName :: "ctx \<Rightarrow> string \<times> bool" where
  "GetModuleName c =
     (case ctx_Value c contextModuleNameKey of Some (VString n) \<Rightarrow> (n, True) | _ \<Rightarrow> ([], False))"

definition ContextForModule :: "string \<Rightarrow> ctx \<Rightarrow> ctx" where
  "ContextForModule name c = CtxWithLog (CtxWithModuleName c name) [(''module.name'', LStr name)]"

lemmas ctx_defs = WithValue_def ctx_Value_def contextLogKeyName_def contextModuleNameKey_def

lemma log_value_CtxWithLog [simp]: "log_value (CtxWithLog c vs) = Some (ContextLogValue (log_value c) vs)"
  by (simp add: log_value_def CtxWithLog_def ctx_defs)

lemma log_value_CtxWithModuleName [simp]: "log_value (CtxWithModuleName c n) = log_value c"
  by (simp add: log_value_def CtxWithModuleName_def ctx_defs)

lemma GetModuleName_CtxWithLog [simp]: "GetModuleName (CtxWithLog c vs) = GetModuleName c"
  by (simp add: GetModuleName_def CtxWithLog_def ctx_defs)

lemma GetModuleName_CtxWithModuleName [simp]: "GetModuleName (CtxWithModuleName c n) = (n, True)"
  by (simp add: GetModuleName_def CtxWithModuleName_def ctx_defs)

lemma GetModuleName_ContextForModule [simp]: "GetModuleName (ContextForModule n c) = (n, True)"
  by (simp add: ContextForModule_def)

lemma snd_Handle [simp]: "snd (Handle c as) = attr_errors (fst (Handle c as))"
  by (simp add: Handle_def Let_def)

lemma Handle_CtxWithLog: "fst (Handle (CtxWithLog c vs) as) = fst (Handle c as) @ vs"
  by (cases "log_value c") (simp_all add: Handle_def Let_def)

lemma Handle_CtxWithModuleName [simp]: "Handle (CtxWithModuleName c n) as = Handle c as"
  by (simp add: Handle_def)

text \<open>A context built by a sequence of calls, each optionally setting the module name first.\<close>

fun enrich :: "ctx \<Rightarrow> (string option \<times> attr list) list \<Rightarrow> ctx" where
  "enrich c [] = c"
| "enrich c ((m, vs) # ls) =
     enrich (CtxWithLog (case m of None \<Rightarrow> c | Some n \<Rightarrow> CtxWithModuleName c n) vs) ls"

lemma enrich_Handle: "fst (Handle (enrich c ls) as) = fst (Handle c as) @ concat (map snd ls)"
proof (induction ls arbitrary: c)
  case Nil
  show ?case by simp
next
  case (Cons l ls)
  then show ?case by (cases l) (auto simp: Handle_CtxWithLog split: option.splits)
qed

lemma enrich_module:
  "GetModuleName (enrich c ls) =
     (case List.map_filter fst ls of [] \<Rightarrow> GetModuleName c | ns \<Rightarrow> (last ns, True))"
proof (induction ls arbitrary: c)
  case Nil
  show ?case by (simp add: List.map_filter_simps)
next
  case (Cons l ls)
  obtain m vs where l: "l = (m, vs)" by (cases l)
  show ?case
    by (cases m; cases "List.map_filter fst ls")
      (simp_all add: l Cons.IH List.map_filter_simps)
qed

lemma Handle_background [simp]: "fst (Handle background as) = as"
  by (simp add: Handle_def log_value_def ctx_Value_def Let_def)

lemma GetModuleName_background [simp]: "GetModuleName background = ([], False)"
  by (simp add: GetModuleName_def ctx_Value_def)

end
