(* ===== verification/Bedrock.thy ===== *)
theory Bedrock
  imports Context
begin

text \<open>
  \<^verbatim>\<open>lib/bedrock/init.go\<close> and \<^verbatim>\<open>db.go\<close>: the base configuration read from the environment,
  and opening and migrating the database. The process environment is a map; the database
  and migration libraries are arguments.
\<close>

type_synonym env = "string \<rightharpoonup> string"

record BaseConfig =
  HttpHost :: string
  HttpPort :: int
  GrpcPort :: int
  AllocID :: string

text \<open>
  The result is the pair that Go returns, a pointer (possibly nil) and an error. The error of
  the last branch augments \<^verbatim>\<open>err\<close>, which is the nil result of the preceding \<^verbatim>\<open>Atoi\<close>.
\<close>

definition atoi_err :: "string \<Rightarrow> err" where
  "atoi_err s = (if atoi s = None then Some (Plain (''strconv.Atoi: parsing '' @ s)) else None)"

definition GetBaseConfig :: "env \<Rightarrow> BaseConfig option \<times> err" where
  "GetBaseConfig e =
     (let port = (case e ''HTTP_PORT'' of Some p \<Rightarrow> p | None \<Rightarrow> ''8080'') in
      case atoi port of
        None \<Rightarrow> (None, Augment (atoi_err port) ''invalid env config for http port'' [])
      | Some portNum \<Rightarrow>
          (let grpcPort = (case e ''GRPC_PORT'' of Some p \<Rightarrow> p | None \<Rightarrow> ''8081'') in
           case atoi grpcPort of
             None \<Rightarrow> (None, Augment (atoi_err grpcPort) ''invalid env config for http port'' [])
           | Some grpcPortNum \<Rightarrow>
               (let host = (case e ''HTTP_HOST'' of Some h \<Rightarrow> h | None \<Rightarrow> ''localhost'') in
                case e ''NOMAD_ALLOC_ID'' of
                  None \<Rightarrow> (None, Augment (atoi_err grpcPort) ''could not determine alloc ID'' [])
                | Some allocId \<Rightarrow>
                    (Some \<lparr>HttpHost = host, HttpPort = portNum, GrpcPort = grpcPortNum,
                           AllocID = allocId\<rparr>, None))))"

definition HttpBind :: "BaseConfig \<Rightarrow> string" where
  "HttpBind c = HttpHost c @ '':'' @ itoa (HttpPort c)"

definition port_of :: "env \<Rightarrow> string \<Rightarrow> string \<Rightarrow> int option" where
  "port_of e var dflt = atoi (case e var of Some p \<Rightarrow> p | None \<Rightarrow> dflt)"

lemma atoi_err_Some: "atoi s = Some i \<Longrightarrow> atoi_err s = None"
  by (simp add: atoi_err_def)

lemma GetBaseConfig_cases:
  "GetBaseConfig e =
     (case (port_of e ''HTTP_PORT'' ''8080'', port_of e ''GRPC_PORT'' ''8081'') of
        (Some h, Some g) \<Rightarrow> (case e ''NOMAD_ALLOC_ID'' of
            None \<Rightarrow> (None, None)
          | Some a \<Rightarrow> (Some \<lparr>HttpHost = (case e ''HTTP_HOST'' of Some x \<Rightarrow> x | None \<Rightarrow> ''localhost''),
              HttpPort = h, GrpcPort = g, AllocID = a\<rparr>, None))
      | _ \<Rightarrow> (None, snd (GetBaseConfig e)))"
  by (simp add: GetBaseConfig_def port_of_def Let_def atoi_err_Some split: option.splits)

lemma atoi_defaults: "atoi ''8080'' = Some 8080" "atoi ''8081'' = Some 8081"
  by (simp_all add: atoi_def read_sign_def char_digit_def in_int64_def)

section \<open>Database\<close>

text \<open>
  \<^verbatim>\<open>Migrate\<close>: the driver, the embedded source, the migration client and \<^verbatim>\<open>Up\<close> each may fail;
  having nothing to apply is reported by the library as \<^verbatim>\<open>migrate.ErrNoChange\<close>.
\<close>

abbreviation ErrNoChange :: go_error where
  "ErrNoChange \<equiv> Sentinel ''no change''"

record migrate_env =
  with_instance :: err
  open_source :: err
  new_migrator :: err
  up :: err

definition Migrate :: "migrate_env \<Rightarrow> string \<Rightarrow> err" where
  "Migrate m dbname =
     (let errParams = [(''db'', dbname)] in
      if with_instance m \<noteq> None then
        Augment (with_instance m) ''failed to create migration instance client'' errParams
      else if open_source m \<noteq> None then
        Augment (open_source m) ''failed to open db migrations embedded fs'' errParams
      else if new_migrator m \<noteq> None then
        Augment (new_migrator m) ''failed to init db migration client'' errParams
      else (case up m of
          None \<Rightarrow> None
        | Some e \<Rightarrow> if errors_Is e ''no change'' then None
                    else Augment (Some e) ''failed to apply migrations'' errParams))"

definition OpenDB :: "env \<Rightarrow> (string \<Rightarrow> go_error + 'db) \<Rightarrow> 'db option \<times> err" where
  "OpenDB e sql_open = (case e ''CRDB_CONN_URL'' of
      None \<Rightarrow> (None, Some (Plain ''CRDB_CONN_URL environment variable not set''))
    | Some url \<Rightarrow> (case sql_open url of
        Inl x \<Rightarrow> (None, Augment (Some x) ''failed to start db client'' [])
      | Inr db \<Rightarrow> (Some db, Augment None ''failed to start db client'' [])))"

definition migrateDB :: "env \<Rightarrow> (string \<Rightarrow> go_error + 'db) \<Rightarrow> ('db \<Rightarrow> migrate_env) \<Rightarrow> err" where
  "migrateDB e sql_open m = (case OpenDB e sql_open of
      (_, Some x) \<Rightarrow> Propagate (Some x)
    | (None, None) \<Rightarrow> None
    | (Some db, None) \<Rightarrow> Augment (Migrate (m db) ''main'') ''failed to migrate database'' [])"

lemma Migrate_None_iff:
  "Migrate m d = None \<longleftrightarrow> with_instance m = None \<and> open_source m = None \<and> new_migrator m = None
     \<and> (up m = None \<or> (\<exists>x. up m = Some x \<and> errors_Is x ''no change''))"
  by (auto simp: Migrate_def Let_def split: option.splits)

text \<open>
  Start-up succeeds in migrating the database exactly when the connection URL is set,
  the client opens and every migration step succeeds, where having nothing to migrate
  counts as success.
\<close>

theorem migrateDB_succeeds_iff:
  "migrateDB e sql_open m = None \<longleftrightarrow>
     (\<exists>url db. e ''CRDB_CONN_URL'' = Some url \<and> sql_open url = Inr db \<and> with_instance (m db) = None
        \<and> open_source (m db) = None \<and> new_migrator (m db) = None
        \<and> (up (m db) = None \<or> (\<exists>x. up (m db) = Some x \<and> errors_Is x ''no change'')))"
proof (cases "e ''CRDB_CONN_URL''")
  case None
  then show ?thesis by (simp add: migrateDB_def OpenDB_def)
next
  case (Some url)
  show ?thesis
  proof (cases "sql_open url")
    case (Inl x)
    obtain t where "Augment (Some x) ''failed to start db client'' [] = Some t"
      using Augment_terr by blast
    with Some Inl show ?thesis by (simp add: migrateDB_def OpenDB_def)
  next
    case (Inr db)
    with Some show ?thesis by (simp add: migrateDB_def OpenDB_def Migrate_None_iff)
  qed
qed

text \<open>
  With valid ports but no \<^verbatim>\<open>NOMAD_ALLOC_ID\<close>, \<open>GetBaseConfig\<close> returns no configuration and
  no error either, because it augments the nil error of the last port conversion; with an
  allocation ID it returns the configuration with the documented defaults.
\<close>

theorem GetBaseConfig_missing_alloc:
  assumes "port_of e ''HTTP_PORT'' ''8080'' = Some h" "port_of e ''GRPC_PORT'' ''8081'' = Some g"
  shows "(e ''NOMAD_ALLOC_ID'' = None \<longrightarrow> GetBaseConfig e = (None, None))
    \<and> (e ''NOMAD_ALLOC_ID'' = Some a \<longrightarrow> GetBaseConfig e =
        (Some \<lparr>HttpHost = (case e ''HTTP_HOST'' of Some x \<Rightarrow> x | None \<Rightarrow> ''localhost''),
          HttpPort = h, GrpcPort = g, AllocID = a\<rparr>, None))"
  using assms by (simp add: GetBaseConfig_cases)

theorem GetBaseConfig_missing_alloc_witness:
  "GetBaseConfig Map.empty = (None, None)
   \<and> GetBaseConfig [''NOMAD_ALLOC_ID'' \<mapsto> ''x'']
      = (Some \<lparr>HttpHost = ''localhost'', HttpPort = 8080, GrpcPort = 8081, AllocID = ''x''\<rparr>, None)"
  using GetBaseConfig_missing_alloc [of Map.empty 8080 8081]
    GetBaseConfig_missing_alloc [of "[''NOMAD_ALLOC_ID'' \<mapsto> ''x'']" 8080 8081 "''x''"]
  by (simp add: port_of_def atoi_defaults)

end
