(* ===== verification/Telemetry.thy ===== *)
theory Telemetry
  imports Context
begin

text \<open>
  \<^verbatim>\<open>lib/bedrock/telemetry.go\<close>, the handlers of \<^verbatim>\<open>lib/util/slog.go\<close> and \<^verbatim>\<open>lib/cron\<close>: the chain of
  log handlers the process installs, the OpenTelemetry set-up, spans (the status rule is the
  SDK's) and the periodic refresh loop of the services that publish statistics.
\<close>

section \<open>Log handlers\<close>

definition loggerReplaceErrs :: "attr \<Rightarrow> attr" where
  "loggerReplaceErrs pre = (case pre of (key, v) \<Rightarrow>
     if \<not> (key = ''err'' \<or> key = ''error'') then pre
     else (case v of
         LErr e \<Rightarrow> (case errors_As e of
             None \<Rightarrow> pre
           | Some terror \<Rightarrow> (''error'', LGroup [(''msg'', LStr (error_text e)),
               (''param'', LGroup (map (\<lambda>(k, p). (k, LStr p)) (terr_params terror)))]))
       | _ \<Rightarrow> pre))"

text \<open>
  The handlers the program stacks. \<open>JSON\<close> is \<^verbatim>\<open>slog.NewJSONHandler\<close> with the attributes it was
  given and the groups it was put in as a function of the record's attributes; it calls
  \<^verbatim>\<open>ReplaceAttr\<close> on every attribute that is not a group, also inside groups. \<open>Otel\<close> is the
  third-party handler, which may add attributes from the context.
\<close>

datatype slog_Handler =
    JSON "attr list \<Rightarrow> attr list" | Otel "ctx \<Rightarrow> attr list \<Rightarrow> attr list" slog_Handler
  | ContextLogHandler slog_Handler

definition NewContextLogHandler :: "slog_Handler \<Rightarrow> slog_Handler" where
  "NewContextLogHandler next = ContextLogHandler next"

fun replace_attr :: "attr \<Rightarrow> attr" where
  "replace_attr (k, LGroup as) = (k, LGroup (map replace_attr as))"
| "replace_attr (k, v) = loggerReplaceErrs (k, v)"

fun handle_record :: "slog_Handler \<Rightarrow> ctx \<Rightarrow> attr list \<Rightarrow> attr list \<times> go_error list" where
  "handle_record (JSON f) c as = (map replace_attr (f as), [])"
| "handle_record (Otel add next) c as = handle_record next c (add c as)"
| "handle_record (ContextLogHandler next) c as = (case Handle c as of (as', errs) \<Rightarrow>
     (case handle_record next c as' of (out, errs') \<Rightarrow> (out, errs @ errs')))"

fun WithAttrs :: "attr list \<Rightarrow> slog_Handler \<Rightarrow> slog_Handler" where
  "WithAttrs pre (JSON f) = JSON (\<lambda>as. f (pre @ as))"
| "WithAttrs pre (Otel add next) = Otel add (WithAttrs pre next)"
| "WithAttrs pre (ContextLogHandler next) = NewContextLogHandler (WithAttrs pre next)"

fun WithGroup :: "string \<Rightarrow> slog_Handler \<Rightarrow> slog_Handler" where
  "WithGroup g (JSON f) = JSON (\<lambda>as. f (if as = [] then [] else [(g, LGroup as)]))"
| "WithGroup g (Otel add next) = Otel add (WithGroup g next)"
| "WithGroup g (ContextLogHandler next) = NewContextLogHandler (WithGroup g next)"

text \<open>What \<^verbatim>\<open>init\<close> installs, given the third-party handler.\<close>

definition default_handler :: "(ctx \<Rightarrow> attr list \<Rightarrow> attr list) \<Rightarrow> slog_Handler" where
  "default_handler otel = Otel otel (NewContextLogHandler (JSON (\<lambda>as. as)))"

section \<open>Tracers\<close>

text \<open>The name of the tracer and the warnings logged.\<close>

definition GetTracer :: "ctx \<Rightarrow> string \<times> string list" where
  "GetTracer c = (case GetModuleName c of (name, ok) \<Rightarrow>
     if \<not> ok then (''unknown'', [''failed to get module name from context while getting trace''])
     else (name, []))"

text \<open>\<^verbatim>\<open>lib/cron\<close>: the name, the logger and the name of the tracer of a job.\<close>

definition cron_New :: "string \<Rightarrow> slog_Handler \<Rightarrow> string \<times> slog_Handler \<times> string" where
  "cron_New name dflt = (name, WithAttrs [(''service_'', LStr name)] dflt, name)"

section \<open>OpenTelemetry set-up\<close>

datatype propagator = TraceContext | Baggage

text \<open>The globals of the SDK: the propagator and whether a tracer provider is installed.\<close>

record otel_globals =
  text_map_propagator :: "propagator list"
  tracer_provider :: bool

definition no_otel :: otel_globals where
  "no_otel = \<lparr>text_map_propagator = [], tracer_provider = False\<rparr>"

definition newPropagator :: "propagator list" where
  "newPropagator = [TraceContext, Baggage]"

text \<open>A tracer provider is represented by what its \<^verbatim>\<open>Shutdown\<close> returns when called.\<close>

definition newTraceProvider :: "go_error + err \<Rightarrow> go_error + err" where
  "newTraceProvider exporter = (case exporter of
      Inl e \<Rightarrow> Inl (the (Propagate (Some e)))
    | Inr stop \<Rightarrow> Inr stop)"

text \<open>
  The shutdown function runs the registered cleanups and forgets them; \<open>fs\<close> are what the
  registered cleanups return when called.
\<close>

definition otel_shutdown :: "err list \<Rightarrow> err \<times> err list" where
  "otel_shutdown fs = (Propagate (fold (\<lambda>f e. errors_Join [e, f]) fs None), [])"

definition setupOTelSDK :: "go_error + err \<Rightarrow> otel_globals \<Rightarrow> (err list \<times> err) \<times> otel_globals" where
  "setupOTelSDK exporter g =
     (let g' = g\<lparr>text_map_propagator := newPropagator\<rparr> in
      case newTraceProvider exporter of
        Inl e \<Rightarrow> (([], errors_Join [Propagate (Some e), fst (otel_shutdown [])]), g')
      | Inr stop \<Rightarrow> (([stop], None), g'\<lparr>tracer_provider := True\<rparr>))"

lemma errors_Join_None_iff: "errors_Join es = None \<longleftrightarrow> (\<forall>e \<in> set es. e = None)"
proof -
  have "List.map_filter id es = [] \<longleftrightarrow> (\<forall>e \<in> set es. e = None)"
    by (induction es) (auto simp: List.map_filter_simps split: option.splits)
  then show ?thesis by (cases "List.map_filter id es") (simp_all add: errors_Join_def)
qed


lemma setupOTelSDK_ok [simp]: "snd (fst (setupOTelSDK (Inr stop) g)) = None"
  by (simp add: setupOTelSDK_def newTraceProvider_def Let_def)


section \<open>Spans\<close>

datatype span_code = StatusUnset | StatusError | StatusOk

record span =
  span_code :: span_code
  span_errors :: "string list"
  span_ended :: bool

fun code_rank :: "span_code \<Rightarrow> nat" where
  "code_rank StatusUnset = 0" | "code_rank StatusError = 1" | "code_rank StatusOk = 2"

definition new_span :: span where
  "new_span = \<lparr>span_code = StatusUnset, span_errors = [], span_ended = False\<rparr>"

definition SetStatus :: "span_code \<Rightarrow> span \<Rightarrow> span" where
  "SetStatus code s = (if span_ended s then s
     else if code_rank (span_code s) > code_rank code then s
     else s\<lparr>span_code := code\<rparr>)"

definition RecordError :: "err \<Rightarrow> span \<Rightarrow> span" where
  "RecordError e s = (case e of
      None \<Rightarrow> s
    | Some x \<Rightarrow> if span_ended s then s else s\<lparr>span_errors := span_errors s @ [error_text x]\<rparr>)"

definition span_End :: "span \<Rightarrow> span" where
  "span_End s = s\<lparr>span_ended := True\<rparr>"

section \<open>The periodic refresh\<close>

text \<open>The span of one turn of the loop, given the joined errors of its refreshes.\<close>

definition refresh_span :: "err \<Rightarrow> span" where
  "refresh_span accumulated = span_End (SetStatus StatusOk
     (if accumulated \<noteq> None then SetStatus StatusError (RecordError accumulated new_span) else new_span))"

text \<open>
  The loop of \<^verbatim>\<open>RefreshPromStats\<close>. A turn that starts at a time gives its joined errors, the
  new gauges and the time it ends; the context counts as done from the time \<open>cancel\<close> on (\<open>None\<close>:
  never), is looked at after each turn only, and the loop then sleeps for \<open>rate\<close>. The result, if
  the loop returns, is the gauges, the spans of its turns and the time.
\<close>

partial_function (option) refresh_loop ::
  "(int \<Rightarrow> 's \<Rightarrow> err \<times> 's \<times> int) \<Rightarrow> int \<Rightarrow> int option \<Rightarrow> int \<Rightarrow> 's \<Rightarrow> ('s \<times> span list \<times> int) option" where
  "refresh_loop turn rate cancel now s =
     (case turn now s of (accumulated, s', t) \<Rightarrow>
       if (case cancel of None \<Rightarrow> False | Some c \<Rightarrow> c \<le> t) then Some (s', [refresh_span accumulated], t)
       else Option.bind (refresh_loop turn rate cancel (t + rate) s')
              (\<lambda>(s'', spans, t'). Some (s'', refresh_span accumulated # spans, t')))"

lemma refresh_span_code [simp]: "span_code (refresh_span e) = StatusOk"
  by (cases e) (simp_all add: refresh_span_def SetStatus_def RecordError_def new_span_def span_End_def)

lemma refresh_span_errors [simp]:
  "span_errors (refresh_span e) = (case e of None \<Rightarrow> [] | Some x \<Rightarrow> [error_text x])"
  by (cases e) (simp_all add: refresh_span_def SetStatus_def RecordError_def new_span_def span_End_def)

text \<open>The turns the loop makes up to the one that sees the cancellation.\<close>

fun nth_turn :: "(int \<Rightarrow> 's \<Rightarrow> err \<times> 's \<times> int) \<Rightarrow> int \<Rightarrow> int \<Rightarrow> 's \<Rightarrow> nat \<Rightarrow> err \<times> 's \<times> int" where
  "nth_turn turn rate now s 0 = turn now s"
| "nth_turn turn rate now s (Suc k) = (case turn now s of (_, s', t) \<Rightarrow> nth_turn turn rate (t + rate) s' k)"

lemma refresh_loop_returns:
  assumes "\<And>t s. t \<le> snd (snd (turn t s))" "\<And>t s. snd (snd (turn t s)) \<le> t + longest" "0 < rate"
  shows "\<exists>s' spans t'. refresh_loop turn rate (Some c) now s = Some (s', spans, t')
    \<and> c \<le> t' \<and> t' \<le> max now (c + rate) + longest
    \<and> nth_turn turn rate now s (length spans - 1) = (fst (nth_turn turn rate now s (length spans - 1)), s', t')
    \<and> (\<forall>k < length spans. spans ! k = refresh_span (fst (nth_turn turn rate now s k)))
    \<and> spans \<noteq> []"
proof (induction "nat (c - now)" arbitrary: now s rule: less_induct)
  case less
  obtain e s1 t where r: "turn now s = (e, s1, t)" by (cases "turn now s")
  from assms(1,2) [where t = now and s = s] r have t: "now \<le> t" "t \<le> now + longest" by simp_all
  show ?case
  proof (cases "c \<le> t")
    case True
    with r t show ?thesis
      by (subst refresh_loop.simps) (auto simp: max_def)
  next
    case False
    with t assms(3) have "nat (c - (t + rate)) < nat (c - now)" by linarith
    from less [OF this, of s1] obtain s' spans t' where
      ih: "refresh_loop turn rate (Some c) (t + rate) s1 = Some (s', spans, t')" "c \<le> t'"
        "t' \<le> max (t + rate) (c + rate) + longest" "spans \<noteq> []"
        "\<forall>k < length spans. spans ! k = refresh_span (fst (nth_turn turn rate (t + rate) s1 k))"
        "nth_turn turn rate (t + rate) s1 (length spans - 1) =
           (fst (nth_turn turn rate (t + rate) s1 (length spans - 1)), s', t')"
      by blast
    have "t' \<le> max now (c + rate) + longest" using ih(3) False by (simp add: max_def split: if_splits)
    moreover obtain m where "length spans = Suc m" using ih(4) by (cases spans) auto
    moreover have "\<forall>k < length (refresh_span e # spans).
        (refresh_span e # spans) ! k = refresh_span (fst (nth_turn turn rate now s k))"
      using ih(5) r by (auto simp: less_Suc_eq_0_disj)
    moreover have "refresh_loop turn rate (Some c) now s = Some (s', refresh_span e # spans, t')"
      using r False ih(1) by (subst refresh_loop.simps) simp
    ultimately show ?thesis using r ih(2,6) by (intro exI [of _ s'] exI [of _ "refresh_span e # spans"] exI [of _ t']) auto
  qed
qed

lemma refresh_loop_forever: "refresh_loop turn rate None now s = None"
proof -
  have "cancel \<noteq> None" if "refresh_loop turn rate cancel now s = Some r" for cancel r
    by (rule refresh_loop.raw_induct [where P = "\<lambda>turn rate cancel now s r. cancel \<noteq> None", OF _ that])
      (fastforce split: prod.splits if_splits option.splits simp: bind_eq_Some_conv)
  then show ?thesis by (metis not_None_eq)
qed


section \<open>The logging chain\<close>

lemma attr_errors_append [simp]: "attr_errors (xs @ ys) = attr_errors xs @ attr_errors ys"
  by (simp add: attr_errors_def List.map_filter_def)

lemma attr_errors_mem: "e \<in> set (attr_errors as) \<longleftrightarrow> (\<exists>k. (k, LErr e) \<in> set as)"
  by (force simp: attr_errors_def List.map_filter_def split: slog_Value.splits)

lemma replace_attr_err:
  assumes "k = ''err'' \<or> k = ''error''" "errors_As e = Some t"
  shows "replace_attr (k, LErr e) = (''error'', LGroup [(''msg'', LStr (error_text e)),
    (''param'', LGroup (map (\<lambda>(k, p). (k, LStr p)) (terr_params t)))])"
  using assms by (auto simp: loggerReplaceErrs_def)



end
