(* ===== verification/Mono.thy ===== *)
theory Mono
  imports Bedrock Telemetry
begin

text \<open>
  \<^verbatim>\<open>lib/bedrock/mono.go\<close> and \<^verbatim>\<open>grpc.go\<close>: the monolith that registers every service and the
  gRPC interceptors that name the module and translate errors. gRPC is an argument: what its
  calls return.
\<close>

section \<open>Method names\<close>

definition parseFullMethod :: "string \<Rightarrow> string \<times> string" where
  "parseFullMethod fullMethod =
     (let parts = split fullMethod ''/'' in
      if length parts \<noteq> 3 then ([], [])
      else (let nameParts = split (parts ! 1) ''.'' in
            if length nameParts \<noteq> 2 then ([], [])
            else (SnakeToKebabCase (nameParts ! 0), parts ! 2)))"

section \<open>Errors at the gRPC boundary\<close>

definition terrorToGrpcCode :: "(string \<times> grpc_code) list" where
  "terrorToGrpcCode =
     [(ErrTimeout, DeadlineExceeded), (ErrNotFound, CodeNotFound), (ErrBadRequest, InvalidArgument),
      (ErrForbidden, PermissionDenied), (ErrUnknown, CodeUnknown),
      (ErrPreconditionFailed, FailedPrecondition)]"

text \<open>
  The loop over the map returns at the first code that matches; \<open>order\<close> is the order in which
  Go happens to iterate over the map.
\<close>

definition translate :: "(string \<times> grpc_code) list \<Rightarrow> go_error \<Rightarrow> go_error" where
  "translate order e = (case errors_As e of
      None \<Rightarrow> e
    | Some terr \<Rightarrow> (case find (\<lambda>(terrCode, _). terrors_Is terr terrCode) order of
        None \<Rightarrow> e
      | Some (_, grpcCode) \<Rightarrow> Status grpcCode (error_text terr)))"

definition handlerTerrorsUnary ::
  "(string \<times> grpc_code) list \<Rightarrow> (ctx \<Rightarrow> 'req \<Rightarrow> 'resp \<times> err) \<Rightarrow> ctx \<Rightarrow> 'req \<Rightarrow> 'resp \<times> err" where
  "handlerTerrorsUnary order handler c req = (case handler c req of
      (resp, None) \<Rightarrow> (resp, None)
    | (resp, Some e) \<Rightarrow> (resp, Some (translate order e)))"

definition handleTerrorsStream ::
  "(string \<times> grpc_code) list \<Rightarrow> (ctx \<Rightarrow> err) \<Rightarrow> ctx \<Rightarrow> err" where
  "handleTerrorsStream order handler c = (case handler c of
      None \<Rightarrow> None
    | Some e \<Rightarrow> Some (translate order e))"

definition method_ctx :: "string \<Rightarrow> ctx \<Rightarrow> ctx" where
  "method_ctx fullMethod c = (case parseFullMethod fullMethod of (service, method) \<Rightarrow>
     CtxWithLog (ContextForModule service c) [(''grpc_method'', LStr method)])"

definition addModuleNameToContextUnary ::
  "(string \<times> grpc_code) list \<Rightarrow> string \<Rightarrow> (ctx \<Rightarrow> 'req \<Rightarrow> 'resp \<times> err) \<Rightarrow> ctx \<Rightarrow> 'req \<Rightarrow> 'resp \<times> err" where
  "addModuleNameToContextUnary order fullMethod handler c req =
     handlerTerrorsUnary order handler (method_ctx fullMethod c) req"

text \<open>The stream wrapper recomputes the context each time the handler asks for it.\<close>

definition addModuleNameToContextStream ::
  "(string \<times> grpc_code) list \<Rightarrow> string \<Rightarrow> (ctx \<Rightarrow> err) \<Rightarrow> ctx \<Rightarrow> err" where
  "addModuleNameToContextStream order fullMethod handler stream_ctx =
     handleTerrorsStream order handler (method_ctx fullMethod stream_ctx)"

subsection \<open>Translation does not depend on the iteration order\<close>

lemma codes_distinct_heads: "distinct (map (hd \<circ> fst) terrorToGrpcCode)"
  by (simp add: terrorToGrpcCode_def err_code_defs)

lemma codes_not_empty: "(k, g) \<in> set terrorToGrpcCode \<Longrightarrow> k \<noteq> []"
  by (auto simp: terrorToGrpcCode_def err_code_defs)

lemma has_prefix_hd: "has_prefix c k \<Longrightarrow> k \<noteq> [] \<Longrightarrow> hd c = hd k"
  by (auto simp: has_prefix_iff)

lemma code_prefix_unique:
  assumes "(k, g) \<in> set terrorToGrpcCode" "(k', g') \<in> set terrorToGrpcCode"
    "has_prefix c k" "has_prefix c k'"
  shows "k = k' \<and> g = g'"
proof -
  have "hd k = hd k'" using assms codes_not_empty has_prefix_hd by metis
  moreover have "inj_on (hd \<circ> fst) (set terrorToGrpcCode)"
    using codes_distinct_heads by (simp add: distinct_map)
  ultimately have "(k, g) = (k', g')" using assms(1,2) by (metis comp_apply fst_conv inj_on_def)
  then show ?thesis by simp
qed

lemma find_unique:
  assumes "set xs = set ys" "\<And>x y. x \<in> set xs \<Longrightarrow> y \<in> set xs \<Longrightarrow> P x \<Longrightarrow> P y \<Longrightarrow> x = y"
  shows "find P xs = find P ys"
proof (cases "find P xs")
  case None
  then have "find P ys = None" using assms(1) by (simp add: find_None_iff)
  with None show ?thesis by simp
next
  case (Some x)
  then have x: "x \<in> set xs" "P x" by (auto simp: find_Some_iff)
  then obtain y where y: "find P ys = Some y"
    using assms(1) by (metis find_None_iff option.exhaust)
  then have "y \<in> set ys" "P y" by (auto simp: find_Some_iff)
  with x assms have "x = y" by blast
  with Some y show ?thesis by simp
qed

lemma translate_order:
  assumes "set order = set terrorToGrpcCode" "errors_As e = Some t" "uniform t" "is_terr t"
  shows "translate order e = translate terrorToGrpcCode e"
proof -
  have "find (\<lambda>(c, _). terrors_Is t c) order = find (\<lambda>(c, _). terrors_Is t c) terrorToGrpcCode"
    using assms code_prefix_unique
    by (intro find_unique) (auto simp: uniform_Is)
  with assms(2) show ?thesis by (simp add: translate_def)
qed

lemma errors_As_terr:
  "errors_As e = Some t \<Longrightarrow> is_terr t" and "errors_As_list es = Some t \<Longrightarrow> is_terr t"
  by (induction e and es rule: errors_As_errors_As_list.induct) (auto split: option.splits)

section \<open>Services\<close>

text \<open>
  A service as registered: whether it has a gRPC registration, and what its shutdown hook
  returns (\<open>None\<close>: the hook is nil, and calling it panics).
\<close>

record Service =
  Name :: string
  RegisterGrpc :: bool
  OnShutdown :: "err option"

type_synonym hook_result = "Service \<times> string \<times> err"

text \<open>\<^verbatim>\<open>Register\<close> appends to the list of hooks.\<close>

definition Register :: "'h \<Rightarrow> 'h list \<Rightarrow> 'h list" where
  "Register hook hooks = hooks @ [hook]"

fun init_services :: "hook_result list \<Rightarrow> (string \<times> Service) list \<Rightarrow> (string \<times> Service) list" where
  "init_services [] services = services"
| "init_services ((svc, name, e) # hs) services =
     (case e of
        Some _ \<Rightarrow> init_services hs services
      | None \<Rightarrow> init_services hs (AList.update name svc services))"

fun shutdownServices :: "(string \<times> Service) list \<Rightarrow> string list outcome" where
  "shutdownServices [] = Returns []"
| "shutdownServices ((_, svc) # rest) =
     (case OnShutdown svc of
        None \<Rightarrow> Panics ''nil OnShutdown''
      | Some e \<Rightarrow> bind_outcome (shutdownServices rest) (\<lambda>warned.
          Returns (if e = None then warned else Name svc # warned)))"

record run_env =
  trace_exporter :: "go_error + err"
  db_migration :: err
  base_config :: "BaseConfig option \<times> err"
  listen :: err
  metrics :: err
  serve :: err

text \<open>
  \<open>metrics\<close> is what \<^verbatim>\<open>setupAndServeMetrics\<close> returns in its goroutine before the gRPC server ends
  (nil also while it still serves): a failure there ends the process. How a run of the process ends: \<^verbatim>\<open>log.Fatal\<close> with a message, or a normal return with the names
  of the services registered with the gRPC server and of those whose shutdown reported an error;
  Go visits the map of services in any order, so both lists are meant up to order.
\<close>

datatype run_end = Fatal string | Served "string list" "string list"

definition initBedrock :: "run_env \<Rightarrow> string option" where
  "initBedrock v = (case snd (fst (setupOTelSDK (trace_exporter v) no_otel)) of
      Some e \<Rightarrow> Some (error_text (the (Augment (Some e) ''failed to start otlp sdk'' [])))
    | None \<Rightarrow> (case db_migration v of Some e \<Rightarrow> Some (error_text e) | None \<Rightarrow> None))"

definition RunRegistered :: "run_env \<Rightarrow> hook_result list \<Rightarrow> run_end outcome" where
  "RunRegistered v hooks = (case initBedrock v of
      Some m \<Rightarrow> Returns (Fatal m)
    | None \<Rightarrow>
      (let services = init_services hooks [];
           registered = map fst (filter (\<lambda>(_, s). RegisterGrpc s) services) in
       case base_config v of
         (_, Some e) \<Rightarrow> Returns (Fatal (error_text (the (Augment (Some e) ''failed to get config'' []))))
       | (None, None) \<Rightarrow> Panics ''nil pointer dereference''
       | (Some c, None) \<Rightarrow> (case listen v of
           Some e \<Rightarrow> Returns (Fatal (''failed to listen grpc: '' @ error_text e))
         | None \<Rightarrow> (case metrics v of
             Some e \<Rightarrow> Returns (Fatal (error_text e))
           | None \<Rightarrow> (case serve v of
               Some e \<Rightarrow> if errors_Is e ''grpc: the server has been stopped''
                  then bind_outcome (shutdownServices services) (\<lambda>ws. Returns (Served registered ws))
                  else Returns (Fatal (error_text e))
             | None \<Rightarrow> bind_outcome (shutdownServices services) (\<lambda>ws. Returns (Served registered ws)))))))"

lemma init_services_map_of:
  "map_of (init_services hs services) =
     map_of services ++ map_of (rev (map (\<lambda>(s, n, _). (n, s)) (filter (\<lambda>(_, _, e). e = None) hs)))"
proof (induction hs services rule: init_services.induct)
  case (1 services)
  show ?case by simp
next
  case (2 svc name e hs services)
  then show ?case
    by (cases e) (auto simp: update_conv' map_add_def fun_eq_iff split: option.splits)
qed

lemma shutdownServices_returns:
  "\<forall>(n, s) \<in> set services. OnShutdown s \<noteq> None \<Longrightarrow> \<exists>ws. shutdownServices services = Returns ws"
proof (induction services)
  case Nil
  show ?case by simp
next
  case (Cons p services)
  obtain n s where p: "p = (n, s)" by (cases p)
  from Cons obtain ws where "shutdownServices services = Returns ws" by auto
  moreover from Cons.prems p obtain e where "OnShutdown s = Some e" by auto
  ultimately show ?case by (simp add: p)
qed

lemma update_mem: "p \<in> set (AList.update k v al) \<Longrightarrow> p = (k, v) \<or> p \<in> set al"
  by (induction al) (auto split: if_splits)

lemma init_services_set:
  "(n, s) \<in> set (init_services hs services) \<Longrightarrow>
     (n, s) \<in> set services \<or> (s, n, None) \<in> set hs"
proof (induction hs services rule: init_services.induct)
  case (2 svc name e hs services)
  then show ?case
    by (cases e) (auto dest!: update_mem)
qed simp

section \<open>Connections and metrics\<close>

definition grpc_target :: "env \<Rightarrow> string" where
  "grpc_target e = ''localhost:'' @ (case e ''GRPC_PORT'' of Some p \<Rightarrow> p | None \<Rightarrow> [])"

definition setupAndServeMetrics :: "env \<Rightarrow> (string \<Rightarrow> go_error) \<Rightarrow> err" where
  "setupAndServeMetrics e listenAndServe = (case e ''HTTP_PORT'' of
      None \<Rightarrow> Propagate (Some (Plain ''no environment variable HTTP_PORT''))
    | Some port \<Rightarrow> (let x = listenAndServe (''localhost:'' @ port) in
        if \<not> errors_Is x ''http: Server closed'' then Propagate (Some x) else None))"

section \<open>Properties\<close>

lemma split_slash3:
  "CHR ''/'' \<notin> set a \<Longrightarrow> CHR ''/'' \<notin> set b \<Longrightarrow> split (''/'' @ a @ ''/'' @ b) ''/'' = [[], a, b]"
  using split_char_append [of "CHR ''/''" "[]" "a @ ''/'' @ b"]
    split_char_append [of "CHR ''/''" a b] split_no_sep [of "CHR ''/''" b]
  by simp

lemma split_dot2:
  "CHR ''.'' \<notin> set a \<Longrightarrow> CHR ''.'' \<notin> set b \<Longrightarrow> split (a @ ''.'' @ b) ''.'' = [a, b]"
  using split_char_append [of "CHR ''.''" a b] split_no_sep [of "CHR ''.''" b] by simp

text \<open>
  C35: for a gRPC method of a service whose protobuf package is its module name with
  underscores, the interceptor recovers the module name (with dashes) and the method name,
  so handlers run in a context that names their own module.
\<close>

theorem parseFullMethod_roundtrip:
  assumes "CHR ''_'' \<notin> set m" "CHR ''.'' \<notin> set m" "CHR ''/'' \<notin> set m"
    "CHR ''.'' \<notin> set srv" "CHR ''/'' \<notin> set srv" "CHR ''/'' \<notin> set meth"
  shows "parseFullMethod (''/'' @ (KebabToSnakeCase m @ ''.'' @ srv) @ ''/'' @ meth) = (m, meth)
    \<and> GetModuleName (method_ctx (''/'' @ (KebabToSnakeCase m @ ''.'' @ srv) @ ''/'' @ meth) c) = (m, True)"
proof -
  have k: "CHR ''.'' \<notin> set (KebabToSnakeCase m)" "CHR ''/'' \<notin> set (KebabToSnakeCase m)"
    using assms by (auto simp: KebabToSnakeCase_map)
  let ?n = "KebabToSnakeCase m @ ''.'' @ srv"
  have "split (''/'' @ ?n @ ''/'' @ meth) ''/'' = [[], ?n, meth]"
    by (rule split_slash3) (use k assms in auto)
  moreover have "split ?n ''.'' = [KebabToSnakeCase m, srv]"
    by (rule split_dot2) (use k assms in auto)
  ultimately have "parseFullMethod (''/'' @ ?n @ ''/'' @ meth) = (m, meth)"
    unfolding parseFullMethod_def Let_def
    by (simp add: kebab_snake_roundtrip [OF assms(1)])
  then show ?thesis unfolding method_ctx_def by simp
qed

theorem parseFullMethod_roundtrip_witness:
  "parseFullMethod ''/s_rpc_vault.VaultApi/Snapshot'' = (''s-rpc-vault'', ''Snapshot'')"
  using parseFullMethod_roundtrip [of "''s-rpc-vault''" "''VaultApi''" "''Snapshot''"]
  by (simp add: KebabToSnakeCase_map)

text \<open>
  C34: the gRPC status an error turns into does not depend on Go's random map iteration
  order: for every error whose terror carries a single code, as all those built by the
  constructors and by \<open>Augment\<close> and \<open>Propagate\<close> do, every order gives the same result.
\<close>

theorem translate_deterministic:
  assumes "set order = set terrorToGrpcCode" "set order' = set terrorToGrpcCode"
    "\<forall>t. errors_As e = Some t \<longrightarrow> uniform t"
  shows "translate order e = translate order' e"
proof (cases "errors_As e")
  case None
  then show ?thesis by (simp add: translate_def)
next
  case (Some t)
  then have "is_terr t" by (rule errors_As_terr)
  with Some assms translate_order show ?thesis by metis
qed

theorem translate_deterministic_witness:
  "translate (rev terrorToGrpcCode) (NotFound ''light'' ''unknown light'' [])
     = translate terrorToGrpcCode (NotFound ''light'' ''unknown light'' [])"
  by (rule translate_deterministic)
    (auto simp: NotFound_def errorFactory_def errCode_def err_code_defs)

text \<open>
  A service whose initialisation fails is left out and does not stop the others: after
  the hooks have run, the services are exactly those whose hook returned no error, the last
  one winning a repeated name; and if each of those has a shutdown hook, serving until the
  server is stopped ends in a normal return that registered each service that offers gRPC.
\<close>

theorem failed_services_are_isolated:
  assumes "initBedrock v = None" "base_config v = (Some cfg, None)" "listen v = None"
    "metrics v = None" "serve v = None" "\<forall>(s, n, e) \<in> set hooks. e = None \<longrightarrow> OnShutdown s \<noteq> None"
  shows "map_of (init_services hooks []) =
      map_of (rev (map (\<lambda>(s, n, _). (n, s)) (filter (\<lambda>(_, _, e). e = None) hooks)))
    \<and> (\<exists>ws. RunRegistered v hooks = Returns (Served
         (map fst (filter (\<lambda>(_, s). RegisterGrpc s) (init_services hooks []))) ws))"
proof -
  have "\<forall>(n, s) \<in> set (init_services hooks []). OnShutdown s \<noteq> None"
    using assms(6) by (fastforce dest: init_services_set)
  then obtain ws where "shutdownServices (init_services hooks []) = Returns ws"
    using shutdownServices_returns by blast
  with assms(1-5) show ?thesis
    by (simp add: RunRegistered_def Let_def init_services_map_of)
qed

definition demo_service :: "string \<Rightarrow> Service" where
  "demo_service n = \<lparr>Name = n, RegisterGrpc = True, OnShutdown = Some None\<rparr>"

theorem failed_services_are_isolated_witness:
  "\<exists>ws. RunRegistered
      \<lparr>trace_exporter = Inr None, db_migration = None,
       base_config = (Some \<lparr>HttpHost = ''h'', HttpPort = 1, GrpcPort = 2, AllocID = ''a''\<rparr>, None),
       listen = None, metrics = None, serve = None\<rparr>
      [(demo_service ''a'', ''a'', Some (Plain ''broken'')), (demo_service ''b'', ''b'', None)]
    = Returns (Served [''b''] ws)"
proof -
  let ?v = "\<lparr>trace_exporter = Inr None, db_migration = None,
       base_config = (Some \<lparr>HttpHost = ''h'', HttpPort = 1, GrpcPort = 2, AllocID = ''a''\<rparr>, None),
       listen = None, metrics = None, serve = None\<rparr>"
  let ?h = "[(demo_service ''a'', ''a'', Some (Plain ''broken'')), (demo_service ''b'', ''b'', None)]"
  have "\<exists>ws. RunRegistered ?v ?h = Returns (Served
      (map fst (filter (\<lambda>(_, s). RegisterGrpc s) (init_services ?h []))) ws)"
    using failed_services_are_isolated [of ?v _ ?h] by (simp add: initBedrock_def demo_service_def)
  then show ?thesis by (simp add: demo_service_def)
qed

end
