(* ===== verification/Consul.thy ===== *)
theory Consul
  imports Bedrock Go_Json
begin

text \<open>
  \<^verbatim>\<open>lib/config/config.go\<close> and \<^verbatim>\<open>lib/locks/locks.go\<close>: configuration values and locks kept in
  Consul. Both create the Consul client on first use; the configuration keeps only a client
  that was created, the locks keep the first result whatever it is (\<^verbatim>\<open>sync.OnceValues\<close>). The
  Consul API is an argument.
\<close>

section \<open>Values created on first use\<close>

text \<open>
  The contract of a value created on first use: once a call has returned a value, every
  later call returns the same one and changes nothing, whatever its environment.
\<close>

locale lazy_value =
  fixes get :: "'e \<Rightarrow> 's \<Rightarrow> (go_error + 'c) \<times> 's"
  assumes get_stable: "get e s = (Inr c, s') \<Longrightarrow> get e' s' = (Inr c, s')"
begin

fun get_all :: "'e list \<Rightarrow> 's \<Rightarrow> (go_error + 'c) list \<times> 's" where
  "get_all [] s = ([], s)"
| "get_all (e # es) s = (case get e s of (r, s') \<Rightarrow> case get_all es s' of (rs, s'') \<Rightarrow> (r # rs, s''))"

lemma get_all_stable:
  assumes "get e s = (Inr c, s')"
  shows "get_all es s' = (replicate (length es) (Inr c), s')"
  using get_stable [OF assms] by (induction es) auto

end

text \<open>The stronger contract of \<^verbatim>\<open>sync.Once\<close>: the first result sticks, an error too.\<close>

locale once_value =
  fixes get :: "'e \<Rightarrow> 's \<Rightarrow> (go_error + 'c) \<times> 's"
  assumes get_once: "get e s = (r, s') \<Longrightarrow> get e' s' = (r, s')"
begin

lemma get_once_error: "get e s = (Inl x, s') \<Longrightarrow> fst (get e' s') = Inl x"
  by (simp add: get_once)

end

sublocale once_value \<subseteq> lazy_value
  by unfold_locales (rule get_once)

definition OnceValues :: "('e \<Rightarrow> go_error + 'c) \<Rightarrow> 'e \<Rightarrow> (go_error + 'c) option \<Rightarrow> (go_error + 'c) \<times> (go_error + 'c) option" where
  "OnceValues f e s = (case s of Some r \<Rightarrow> (r, s) | None \<Rightarrow> (f e, Some (f e)))"

interpretation once: once_value "OnceValues f" for f
  by unfold_locales (auto simp: OnceValues_def split: option.splits)

text \<open>The environment of a call: the process environment and \<^verbatim>\<open>consul.NewClient\<close>.\<close>

type_synonym 'c consul_env = "env \<times> (string \<Rightarrow> go_error + 'c)"

definition new_consul_client :: "'c consul_env \<Rightarrow> go_error + 'c" where
  "new_consul_client ce = (case fst ce ''DCOTTA_COM_NODE_CONSUL_ADDR'' of
      None \<Rightarrow> Inl (PreconditionFailed []
        ''DCOTTA_COM_NODE_CONSUL_ADDR not found - seems we're not running in Nomad?'' [])
    | Some addr \<Rightarrow> (case snd ce addr of
        Inl e \<Rightarrow> Inl (the (Augment (Some e) ''failed to init Consul client'' []))
      | Inr c \<Rightarrow> Inr c))"

definition getOrStart :: "'c consul_env \<Rightarrow> 'c option \<Rightarrow> (go_error + 'c) \<times> 'c option" where
  "getOrStart ce consulClient = (case consulClient of
      Some c \<Rightarrow> (Inr c, consulClient)
    | None \<Rightarrow> (case new_consul_client ce of
        Inl e \<Rightarrow> (Inl e, None)
      | Inr c \<Rightarrow> (Inr c, Some c)))"

interpretation config_client: lazy_value getOrStart
  by unfold_locales (auto simp: getOrStart_def split: option.splits sum.splits)

definition loadConsulClient ::
  "'c consul_env \<Rightarrow> (go_error + 'c) option \<Rightarrow> (go_error + 'c) \<times> (go_error + 'c) option" where
  "loadConsulClient = OnceValues new_consul_client"

interpretation locks_client: once_value loadConsulClient
  unfolding loadConsulClient_def by (rule once.once_value_axioms)

section \<open>Configuration\<close>

record Value =
  key :: string
  vctx :: ctx

definition Get :: "ctx \<Rightarrow> string \<Rightarrow> Value" where
  "Get c k = \<lparr>key = k, vctx = c\<rparr>"

definition ConsulKeyPrefix :: string where
  "ConsulKeyPrefix = ''services/''"

definition consulKVPath :: "Value \<Rightarrow> string" where
  "consulKVPath v = ConsulKeyPrefix @ ''/'' @ fst (GetModuleName (vctx v)) @ ''/'' @ key v"

text \<open>What \<^verbatim>\<open>KV().Get\<close> returns: an error, or the stored bytes if the key exists.\<close>

type_synonym 'c kv_get = "'c \<Rightarrow> string \<Rightarrow> go_error + string option"

definition getKV :: "'c consul_env \<Rightarrow> 'c kv_get \<Rightarrow> Value \<Rightarrow> 'c option \<Rightarrow> (go_error + string) \<times> 'c option" where
  "getKV ce kv v s = (case getOrStart ce s of
      (Inl e, s') \<Rightarrow> (Inl (the (Augment (Some e) ''consul client not initialised'' [])), s')
    | (Inr client, s') \<Rightarrow> (case kv client (consulKVPath v) of
        Inl e \<Rightarrow> (Inl (the (Augment (Some e) ''failed to query Consul KV'' [])), s')
      | Inr None \<Rightarrow> (Inl (NotFound [] ''key not found'' [(''path'', consulKVPath v), (''key'', key v)]), s')
      | Inr (Some bytes) \<Rightarrow> (Inr bytes, s')))"

definition Value_String :: "'c consul_env \<Rightarrow> 'c kv_get \<Rightarrow> Value \<Rightarrow> string \<Rightarrow> 'c option \<Rightarrow> (string \<times> err) \<times> 'c option" where
  "Value_String ce kv v dflt s = (case getKV ce kv v s of
      (Inl e, s') \<Rightarrow> ((dflt, Some e), s')
    | (Inr b, s') \<Rightarrow> ((b, None), s'))"

definition Value_Bool :: "'c consul_env \<Rightarrow> 'c kv_get \<Rightarrow> Value \<Rightarrow> 'c option \<Rightarrow> (bool \<times> err) \<times> 'c option" where
  "Value_Bool ce kv v s = (case getKV ce kv v s of
      (Inl e, s') \<Rightarrow> ((False, Some e), s')
    | (Inr b, s') \<Rightarrow> (case parse_bool b of
        None \<Rightarrow> ((False, Some (Plain (''strconv.ParseBool: parsing '' @ b))), s')
      | Some x \<Rightarrow> ((x, None), s')))"

definition Value_Int :: "'c consul_env \<Rightarrow> 'c kv_get \<Rightarrow> Value \<Rightarrow> int \<Rightarrow> 'c option \<Rightarrow> (int \<times> err) \<times> 'c option" where
  "Value_Int ce kv v dflt s = (case getKV ce kv v s of
      (Inl e, s') \<Rightarrow> ((dflt, Some e), s')
    | (Inr b, s') \<Rightarrow> (case atoi b of
        None \<Rightarrow> ((dflt, atoi_err b), s')
      | Some i \<Rightarrow> ((i, None), s')))"

lemma getKV_state: "getKV ce kv v s = (r, s') \<Longrightarrow> s' = snd (getOrStart ce s)"
  by (auto simp: getKV_def split: prod.splits sum.splits option.splits)

section \<open>Locks\<close>

record Lock =
  lock_key :: string
  lock_value :: json

text \<open>\<open>acquire\<close> stands for \<^verbatim>\<open>LockOpts\<close> followed by \<^verbatim>\<open>Lock\<close>, which blocks until the lock is held.\<close>

definition Grab :: "'c consul_env \<Rightarrow> ('c \<Rightarrow> string \<Rightarrow> json \<Rightarrow> err) \<Rightarrow> ctx \<Rightarrow> string
    \<Rightarrow> (go_error + 'c) option \<Rightarrow> ((go_error + Lock) \<times> (go_error + 'c) option) outcome" where
  "Grab ce acquire c k s =
     (let errParams = [(''lockKey'', k)] in
      case loadConsulClient ce s of
        (Inl e, s') \<Rightarrow> Returns (Inl (the (Augment (Some e) ''consul client not initialised'' [])), s')
      | (Inr client, s') \<Rightarrow> (case GetBaseConfig (fst ce) of
          (_, Some e) \<Rightarrow> Returns (Inl (the (Augment (Some e) ''failed to get base config'' errParams)), s')
        | (None, None) \<Rightarrow> Panics ''nil pointer dereference''
        | (Some config, None) \<Rightarrow>
            (let val = JObj [(''alloc_id'', JStr (AllocID config)), (''service'', JStr (fst (GetModuleName c)))] in
             case acquire client k val of
               Some e \<Rightarrow> Returns (Inl (the (Augment (Some e) ''failed to acquire lock'' errParams)), s')
             | None \<Rightarrow> Returns (Inr \<lparr>lock_key = k, lock_value = val\<rparr>, s'))))"

text \<open>
  \<^verbatim>\<open>Release\<close> reports a failed \<^verbatim>\<open>Unlock\<close> only in the log; the result is what it logs.
\<close>

definition Release :: "(Lock \<Rightarrow> err) \<Rightarrow> Lock \<Rightarrow> (string \<times> string) list" where
  "Release unlock l = (case unlock l of
      None \<Rightarrow> []
    | Some e \<Rightarrow> [(''failed to release lock'', error_text e)])"

section \<open>Properties\<close>

text \<open>
  Reading a configuration value never fails hard. An integer is the stored one if the
  key exists in Consul under the path of the calling module and holds an integer, and
  otherwise the caller's default together with an error; a flag is true only if the key
  exists and holds a true value, so every failure reads as false; and the path always is
  \<^verbatim>\<open>services//<module>/<key>\<close>, with two slashes.
\<close>

theorem config_defaults:
  "consulKVPath (Get (ContextForModule m c) k) = ''services//'' @ m @ ''/'' @ k
   \<and> fst (fst (Value_Int ce kv (Get (ContextForModule m c) k) d s)) =
       (case fst (getOrStart ce s) of Inl _ \<Rightarrow> d | Inr client \<Rightarrow>
         (case kv client (''services//'' @ m @ ''/'' @ k) of
            Inr (Some b) \<Rightarrow> (case atoi b of Some i \<Rightarrow> i | None \<Rightarrow> d) | _ \<Rightarrow> d))
   \<and> (snd (fst (Value_Int ce kv (Get (ContextForModule m c) k) d s)) = None \<longleftrightarrow>
       (\<exists>client b i. fst (getOrStart ce s) = Inr client
          \<and> kv client (''services//'' @ m @ ''/'' @ k) = Inr (Some b) \<and> atoi b = Some i))
   \<and> (fst (fst (Value_Bool ce kv (Get (ContextForModule m c) k) s)) \<longleftrightarrow>
       (\<exists>client b. fst (getOrStart ce s) = Inr client
          \<and> kv client (''services//'' @ m @ ''/'' @ k) = Inr (Some b) \<and> parse_bool b = Some True))"
proof -
  let ?v = "Get (ContextForModule m c) k" and ?p = "''services//'' @ m @ ''/'' @ k"
  have path: "consulKVPath ?v = ?p"
    by (simp add: consulKVPath_def Get_def ConsulKeyPrefix_def)
  show ?thesis
    by (intro conjI path; cases "getOrStart ce s";
        auto simp: Value_Int_def Value_Bool_def getKV_def path atoi_err_def
          split: sum.splits option.splits)
qed

text \<open>
  Grabbing a lock is safe only inside Nomad: with a Consul client and valid ports but no
  allocation ID it dereferences the nil configuration and panics, and that is the only way
  it can panic.
\<close>

theorem Grab_panics_iff:
  "(\<exists>m. Grab ce acquire c k s = Panics m) \<longleftrightarrow>
     (\<exists>client. fst (loadConsulClient ce s) = Inr client)
     \<and> port_of (fst ce) ''HTTP_PORT'' ''8080'' \<noteq> None \<and> port_of (fst ce) ''GRPC_PORT'' ''8081'' \<noteq> None
     \<and> fst ce ''NOMAD_ALLOC_ID'' = None"
proof -
  have nil: "GetBaseConfig (fst ce) = (None, None) \<longleftrightarrow>
      port_of (fst ce) ''HTTP_PORT'' ''8080'' \<noteq> None \<and> port_of (fst ce) ''GRPC_PORT'' ''8081'' \<noteq> None
      \<and> fst ce ''NOMAD_ALLOC_ID'' = None"
    by (auto simp: GetBaseConfig_def port_of_def Let_def atoi_err_def split: option.splits)
  have "(\<exists>m. Grab ce acquire c k s = Panics m) \<longleftrightarrow>
      (\<exists>client. fst (loadConsulClient ce s) = Inr client) \<and> GetBaseConfig (fst ce) = (None, None)"
    by (cases "loadConsulClient ce s"; cases "fst (loadConsulClient ce s)";
        cases "GetBaseConfig (fst ce)"; cases "fst (GetBaseConfig (fst ce))";
        cases "snd (GetBaseConfig (fst ce))")
      (auto simp: Grab_def Let_def split: option.splits)
  then show ?thesis by (simp only: nil)
qed

end
