(* ===== verification/Leader.thy ===== *)
theory Leader
  imports Consul
begin

text \<open>
  Leader election among the replicas of s-rpc-mqtt (\<^verbatim>\<open>leaderState\<close> of
  \<^verbatim>\<open>services/s-rpc-mqtt/mqtt.go\<close> over \<^verbatim>\<open>lib/locks\<close>). The loop of one replica is a group of
  functions on its state, one per statement that waits; the replicas and the Consul lock they
  compete for are an inductive step relation. The lock itself is Consul's: it has at most one
  holding session, sessions can be invalidated at any time, and the channel that announces
  the loss of a lock can be closed at any time (the documented contract of \<^verbatim>\<open>api.Lock\<close>).
\<close>

section \<open>The loop of one replica\<close>

definition mqtt_Name :: string where
  "mqtt_Name = ''s-rpc-mqtt''"

definition leader_lock_key :: string where
  "leader_lock_key = ''services/'' @ mqtt_Name @ ''/mqtt-leader''"

text \<open>
  Where the loop is: at its head, blocked in \<^verbatim>\<open>locks.Grab\<close>, waiting in the \<open>select\<close> with the
  lock it holds through a session, returned, or dead because \<^verbatim>\<open>Grab\<close> panicked.
\<close>

datatype leader_pc = LoopHead | Grabbing | Leading nat Lock | Ended | Crashed

record 'c leaderState =
  leading :: bool
  leaderGauge :: int
  pc :: leader_pc
  ctx_done :: bool
  lost :: bool
  lock_client :: "(go_error + 'c) option"

definition newLeaderState :: "'c leaderState" where
  "newLeaderState = \<lparr>leading = False, leaderGauge = 0, pc = LoopHead, ctx_done = False, lost = False,
     lock_client = None\<rparr>"

definition loop_head :: "'c leaderState \<Rightarrow> 'c leaderState" where
  "loop_head ls = (if ctx_done ls then ls\<lparr>pc := Ended\<rparr> else ls\<lparr>pc := Grabbing\<rparr>)"

text \<open>What follows \<^verbatim>\<open>Grab\<close>; \<open>sess\<close> is the session that holds the lock when there is one.\<close>

definition after_grab :: "nat \<Rightarrow> ((go_error + Lock) \<times> (go_error + 'c) option) outcome
    \<Rightarrow> 'c leaderState \<Rightarrow> 'c leaderState" where
  "after_grab sess r ls = (case r of
      Panics m \<Rightarrow> ls\<lparr>pc := Crashed\<rparr>
    | Returns (Inl e, cl) \<Rightarrow> ls\<lparr>pc := LoopHead, lock_client := cl\<rparr>
    | Returns (Inr l, cl) \<Rightarrow>
        ls\<lparr>leading := True, leaderGauge := 1, pc := Leading sess l, lost := False, lock_client := cl\<rparr>)"

text \<open>The two cases of the \<open>select\<close>. Only the first releases the lock.\<close>

definition select_done :: "(Lock \<Rightarrow> err) \<Rightarrow> 'c leaderState \<Rightarrow> (string \<times> string) list \<times> 'c leaderState" where
  "select_done unlock ls = (case pc ls of
      Leading sess l \<Rightarrow> (Release unlock l, ls\<lparr>pc := Ended\<rparr>)
    | _ \<Rightarrow> ([], ls))"

definition select_lost :: "'c leaderState \<Rightarrow> 'c leaderState" where
  "select_lost ls = ls\<lparr>leading := False, leaderGauge := 0, pc := LoopHead\<rparr>"

section \<open>The replicas and the lock\<close>

text \<open>
  The session that holds the lock, if any, and the number of sessions that ever held it:
  each successful \<^verbatim>\<open>Lock\<close> creates a session of its own.
\<close>

record 'c election =
  replicas :: "nat \<Rightarrow> 'c leaderState"
  holder :: "nat option"
  sessions :: nat

definition new_election :: "'c election" where
  "new_election = \<lparr>replicas = (\<lambda>_. newLeaderState), holder = None, sessions = 0\<rparr>"

definition set_replica :: "nat \<Rightarrow> 'c leaderState \<Rightarrow> 'c election \<Rightarrow> 'c election" where
  "set_replica i ls s = s\<lparr>replicas := (replicas s)(i := ls)\<rparr>"

text \<open>The call of \<^verbatim>\<open>Grab\<close> by a replica with its environment, for an answer of Consul.\<close>

definition grab :: "'c consul_env \<Rightarrow> ctx \<Rightarrow> err \<Rightarrow> 'c leaderState
    \<Rightarrow> ((go_error + Lock) \<times> (go_error + 'c) option) outcome" where
  "grab ce c answer ls = Grab ce (\<lambda>_ _ _. answer) c leader_lock_key (lock_client ls)"

datatype election_event =
    CtxDone nat | Head nat | GrabRefused nat go_error | GrabGranted nat
  | LostClosed nat | LostSeen nat | DoneSeen nat err | SessionInvalidated

inductive election_step ::
  "(nat \<Rightarrow> 'c consul_env) \<Rightarrow> (nat \<Rightarrow> ctx) \<Rightarrow> 'c election \<Rightarrow> election_event \<Rightarrow> 'c election \<Rightarrow> bool"
  for env c where
  ctx_done: "election_step env c s (CtxDone i) (set_replica i ((replicas s i)\<lparr>ctx_done := True\<rparr>) s)"
| head: "pc (replicas s i) = LoopHead \<Longrightarrow>
    election_step env c s (Head i) (set_replica i (loop_head (replicas s i)) s)"
| refused: "pc (replicas s i) = Grabbing \<Longrightarrow>
    election_step env c s (GrabRefused i e)
      (set_replica i (after_grab (sessions s) (grab (env i) (c i) (Some e) (replicas s i)) (replicas s i)) s)"
| granted: "pc (replicas s i) = Grabbing \<Longrightarrow> holder s = None \<Longrightarrow>
    grab (env i) (c i) None (replicas s i) = Returns (Inr l, cl) \<Longrightarrow>
    election_step env c s (GrabGranted i)
      ((set_replica i (after_grab (sessions s) (Returns (Inr l, cl)) (replicas s i)) s)
         \<lparr>holder := Some (sessions s), sessions := Suc (sessions s)\<rparr>)"
| lost_closed: "pc (replicas s i) = Leading n l \<Longrightarrow>
    election_step env c s (LostClosed i) (set_replica i ((replicas s i)\<lparr>lost := True\<rparr>) s)"
| lost_seen: "pc (replicas s i) = Leading n l \<Longrightarrow> lost (replicas s i) \<Longrightarrow>
    election_step env c s (LostSeen i) (set_replica i (select_lost (replicas s i)) s)"
| done_seen: "pc (replicas s i) = Leading n l \<Longrightarrow> ctx_done (replicas s i) \<Longrightarrow>
    election_step env c s (DoneSeen i e)
      ((set_replica i (snd (select_done (\<lambda>_. e) (replicas s i))) s)
         \<lparr>holder := if e = None \<and> holder s = Some n then None else holder s\<rparr>)"
| invalidated: "election_step env c s SessionInvalidated (s\<lparr>holder := None\<rparr>)"

inductive election_reachable :: "(nat \<Rightarrow> 'c consul_env) \<Rightarrow> (nat \<Rightarrow> ctx) \<Rightarrow> 'c election \<Rightarrow> bool"
  for env c where
  start: "election_reachable env c new_election"
| step: "election_reachable env c s \<Longrightarrow> election_step env c s e s' \<Longrightarrow> election_reachable env c s'"

inductive election_run ::
  "(nat \<Rightarrow> 'c consul_env) \<Rightarrow> (nat \<Rightarrow> ctx) \<Rightarrow> 'c election \<Rightarrow> election_event list \<Rightarrow> 'c election \<Rightarrow> bool"
  for env c where
  empty: "election_run env c s [] s"
| more: "election_step env c s e s1 \<Longrightarrow> election_run env c s1 es s' \<Longrightarrow> election_run env c s (e # es) s'"


inductive_cases election_runE: "election_run env c s es s'"

lemma set_replica_simps [simp]:
  "replicas (set_replica i ls s) = (replicas s)(i := ls)"
  "holder (set_replica i ls s) = holder s"
  "sessions (set_replica i ls s) = sessions s"
  by (simp_all add: set_replica_def)

text \<open>A replica is the leader in force when the session it leads with holds the lock.\<close>

definition in_force :: "'c election \<Rightarrow> nat \<Rightarrow> bool" where
  "in_force s i = (case pc (replicas s i) of Leading n _ \<Rightarrow> holder s = Some n | _ \<Rightarrow> False)"

definition replica_inv :: "'c leaderState \<Rightarrow> bool" where
  "replica_inv ls \<longleftrightarrow> leaderGauge ls = (if leading ls then 1 else 0)
     \<and> (case pc ls of Leading _ _ \<Rightarrow> leading ls | Ended \<Rightarrow> True | _ \<Rightarrow> \<not> leading ls)"

definition election_inv :: "'c election \<Rightarrow> bool" where
  "election_inv s \<longleftrightarrow> (\<forall>i. replica_inv (replicas s i))
     \<and> (\<forall>i n l. pc (replicas s i) = Leading n l \<longrightarrow> n < sessions s)
     \<and> (\<forall>i j n l l'. pc (replicas s i) = Leading n l \<longrightarrow> pc (replicas s j) = Leading n l' \<longrightarrow> i = j)
     \<and> (\<forall>n. holder s = Some n \<longrightarrow> n < sessions s)"

lemma grab_refused: "grab ce c (Some e) ls \<noteq> Returns (Inr l, cl)"
  by (auto simp: grab_def Grab_def Let_def split: prod.splits sum.splits option.splits)

lemma after_refused:
  "let ls' = after_grab n (grab ce c (Some e) ls) ls in
     (pc ls' = LoopHead \<or> pc ls' = Crashed) \<and> leading ls' = leading ls
     \<and> leaderGauge ls' = leaderGauge ls \<and> ctx_done ls' = ctx_done ls \<and> lost ls' = lost ls"
  using grab_refused [of ce c e ls]
  by (auto simp: after_grab_def Let_def split: outcome.splits prod.splits sum.splits)

lemma refused_not_leading: "pc (after_grab n (grab ce c (Some e) ls) ls) \<noteq> Leading m l"
  using after_refused [of n ce c e ls] by (auto simp: Let_def)

lemma replica_inv_refused:
  "replica_inv ls \<Longrightarrow> pc ls = Grabbing \<Longrightarrow> replica_inv (after_grab n (grab ce c (Some e) ls) ls)"
  using after_refused [of n ce c e ls] by (auto simp: replica_inv_def Let_def)

lemma replica_inv_update [simp]:
  "replica_inv (ls\<lparr>ctx_done := b\<rparr>) = replica_inv ls"
  "replica_inv (ls\<lparr>lost := b\<rparr>) = replica_inv ls"
  "replica_inv (select_lost ls)"
  by (simp_all add: replica_inv_def select_lost_def split: leader_pc.splits)

lemma replica_inv_head: "replica_inv ls \<Longrightarrow> pc ls = LoopHead \<Longrightarrow> replica_inv (loop_head ls)"
  by (simp add: replica_inv_def loop_head_def)

lemma replica_inv_done: "replica_inv ls \<Longrightarrow> replica_inv (snd (select_done u ls))"
  by (simp add: replica_inv_def select_done_def split: leader_pc.splits)

lemma election_inv_init: "election_inv new_election"
  by (simp add: election_inv_def new_election_def newLeaderState_def replica_inv_def)

lemma election_inv_set:
  assumes "election_inv s" "replica_inv ls" "\<And>n l. pc ls = Leading n l \<Longrightarrow> pc (replicas s i) = Leading n l"
  shows "election_inv (set_replica i ls s)"
proof -
  have pc: "pc (((replicas s)(i := ls)) j) = Leading n l \<Longrightarrow> pc (replicas s j) = Leading n l" for j n l
    using assms(3) by (auto split: if_splits)
  have "replica_inv (((replicas s)(i := ls)) j)" for j
    using assms(1,2) by (simp add: election_inv_def)
  with assms(1) show ?thesis
    unfolding election_inv_def set_replica_simps by (intro conjI allI impI) (blast dest: pc)+
qed

lemma election_inv_holder: "election_inv s \<Longrightarrow> election_inv (s\<lparr>holder := if b then None else holder s\<rparr>)"
  by (simp add: election_inv_def)

lemma election_inv_step: "election_step env c s e s' \<Longrightarrow> election_inv s \<Longrightarrow> election_inv s'"
proof (induction rule: election_step.induct)
  case (ctx_done s i)
  then show ?case by (auto intro!: election_inv_set simp: election_inv_def)
next
  case (head s i)
  then show ?case
    by (intro election_inv_set replica_inv_head) (auto simp: election_inv_def loop_head_def split: if_splits)
next
  case (refused s i e)
  then show ?case
    by (intro election_inv_set replica_inv_refused) (auto simp: election_inv_def refused_not_leading)
next
  case (granted s i l cl)
  then show ?case
    by (auto simp: election_inv_def replica_inv_def after_grab_def less_Suc_eq split: if_splits)
next
  case (lost_closed s i n l)
  then show ?case by (auto intro!: election_inv_set simp: election_inv_def)
next
  case (lost_seen s i n l)
  then show ?case
    by (intro election_inv_set replica_inv_update(3)) (auto simp: select_lost_def)
next
  case (done_seen s i n l e)
  then have "election_inv (set_replica i (snd (select_done (\<lambda>_. e) (replicas s i))) s)"
    by (intro election_inv_set replica_inv_done) (auto simp: election_inv_def select_done_def)
  from election_inv_holder [OF this, of "e = None \<and> holder s = Some n"] show ?case
    by (simp only: set_replica_simps)
next
  case (invalidated s)
  then show ?case by (simp add: election_inv_def)
qed

lemma election_reachable_inv: "election_reachable env c s \<Longrightarrow> election_inv s"
  by (induction rule: election_reachable.induct) (auto simp: election_inv_init intro: election_inv_step)

lemma in_force_unique: "election_inv s \<Longrightarrow> in_force s i \<Longrightarrow> in_force s j \<Longrightarrow> i = j"
  by (auto simp: election_inv_def in_force_def split: leader_pc.splits)

lemma election_reachable_run:
  "election_run env c s es s' \<Longrightarrow> election_reachable env c s \<Longrightarrow> election_reachable env c s'"
  by (induction rule: election_run.induct) (auto intro: election_reachable.step)


section \<open>A concrete run\<close>

definition demo_env :: "nat \<Rightarrow> unit consul_env" where
  "demo_env i = (if i < 2 then (Map.empty (''DCOTTA_COM_NODE_CONSUL_ADDR'' \<mapsto> ''c'', ''NOMAD_ALLOC_ID'' \<mapsto> ''a''),
     \<lambda>_. Inr ()) else (Map.empty, \<lambda>_. Inr ()))"

definition demo_lock :: Lock where
  "demo_lock = \<lparr>lock_key = leader_lock_key,
     lock_value = JObj [(''alloc_id'', JStr ''a''), (''service'', JStr [])]\<rparr>"

lemma demo_grab:
  assumes "i < 2" "lock_client ls = None"
  shows "grab (demo_env i) background None ls = Returns (Inr demo_lock, Some (Inr ()))"
  using assms
  by (simp add: grab_def Grab_def demo_env_def loadConsulClient_def OnceValues_def new_consul_client_def
      GetBaseConfig_def atoi_defaults demo_lock_def Let_def)

text \<open>Replica 0 leads, its context is cancelled and its loss channel is closed.\<close>

definition demo_led :: "unit election" where
  "demo_led = \<lparr>replicas = (\<lambda>_. newLeaderState)(0 := \<lparr>leading = True, leaderGauge = 1,
       pc = Leading 0 demo_lock, ctx_done = True, lost = True, lock_client = Some (Inr ())\<rparr>),
     holder = Some 0, sessions = 1\<rparr>"

abbreviation demo_ctx :: "nat \<Rightarrow> ctx" where
  "demo_ctx \<equiv> \<lambda>_. background"

abbreviation demo_granted :: "unit leaderState" where
  "demo_granted \<equiv> \<lparr>leading = True, leaderGauge = 1, pc = Leading 0 demo_lock, ctx_done = False,
     lost = False, lock_client = Some (Inr ())\<rparr>"

lemma demo_led_reachable: "election_reachable demo_env demo_ctx demo_led"
proof -
  let ?s0 = "new_election :: unit election"
  let ?s1 = "set_replica 0 (loop_head (replicas ?s0 0)) ?s0"
  let ?s2 = "(set_replica 0 demo_granted ?s1)\<lparr>holder := Some 0, sessions := Suc 0\<rparr>"
  let ?s3 = "set_replica 0 ((replicas ?s2 0)\<lparr>lost := True\<rparr>) ?s2"
  let ?s4 = "set_replica 0 ((replicas ?s3 0)\<lparr>ctx_done := True\<rparr>) ?s3"
  have "election_step demo_env demo_ctx ?s0 (Head 0) ?s1"
    by (rule election_step.head) (simp add: new_election_def newLeaderState_def)
  moreover have "election_step demo_env demo_ctx ?s1 (GrabGranted 0) ?s2"
    using election_step.granted [of ?s1 0 demo_env demo_ctx demo_lock "Some (Inr ())"] demo_grab [of 0 "replicas ?s1 0"]
    by (simp add: new_election_def newLeaderState_def loop_head_def after_grab_def set_replica_def)
  moreover have "election_step demo_env demo_ctx ?s2 (LostClosed 0) ?s3"
    by (rule election_step.lost_closed) simp
  moreover have "election_step demo_env demo_ctx ?s3 (CtxDone 0) ?s4"
    by (rule election_step.ctx_done)
  moreover have "?s4 = demo_led"
    by (simp add: demo_led_def set_replica_def new_election_def fun_eq_iff)
  ultimately show ?thesis
    by (metis election_reachable.start election_reachable.step)
qed

section \<open>The abstract election\<close>

text \<open>
  What an election promises, as a machine on the set of leaders: someone is elected only when
  nobody leads, and leaders can be deposed at any time.
\<close>

inductive one_leader_step :: "nat set \<Rightarrow> nat set \<Rightarrow> bool" where
  elect: "one_leader_step {} {i}"
| depose: "one_leader_step L {}"
| stay: "one_leader_step L L"

definition leaders :: "'c election \<Rightarrow> nat set" where
  "leaders s = {i. in_force s i}"

lemma leaders_subset:
  assumes "election_inv s" "\<And>i. in_force s' i \<Longrightarrow> in_force s i"
  shows "one_leader_step (leaders s) (leaders s')"
proof (cases "\<exists>i. in_force s' i")
  case True
  then have "leaders s' = leaders s" using assms in_force_unique by (fastforce simp: leaders_def)
  then show ?thesis by (simp add: one_leader_step.stay)
next
  case False
  then have "leaders s' = {}" by (simp add: leaders_def)
  then show ?thesis by (simp add: one_leader_step.depose)
qed

lemma in_force_shrinks:
  assumes "election_step env c s e s'" "\<And>i. e \<noteq> GrabGranted i" "in_force s' j"
  shows "in_force s j"
  using assms
  by (cases rule: election_step.cases)
    (auto simp: in_force_def loop_head_def select_lost_def select_done_def refused_not_leading
      split: leader_pc.splits if_splits)

lemma granted_in_force:
  assumes "election_step env c s (GrabGranted i) s'" "election_inv s"
  shows "\<not> in_force s j \<and> (in_force s' j \<longleftrightarrow> j = i)"
proof -
  from assms(2) have "pc (replicas s j) = Leading n l \<Longrightarrow> n \<noteq> sessions s" for n l
    by (force simp: election_inv_def)
  with assms(1) show ?thesis
    by cases (auto simp: in_force_def after_grab_def split: leader_pc.splits)
qed




section \<open>Properties of the loop\<close>

inductive_cases done_seenE: "election_step env c s (DoneSeen i e) s'"
inductive_cases lost_seenE: "election_step env c s (LostSeen i) s'"

lemma ended_stays:
  "election_step env c s e s' \<Longrightarrow> pc (replicas s i) = Ended \<Longrightarrow>
     pc (replicas s' i) = Ended \<and> leading (replicas s' i) = leading (replicas s i)"
  by (cases rule: election_step.cases) (auto split: if_splits)

lemma ended_stays_run:
  "election_run env c s es s' \<Longrightarrow> pc (replicas s i) = Ended \<Longrightarrow>
     leading (replicas s' i) = leading (replicas s i)"
  by (induction rule: election_run.induct) (auto dest: ended_stays)

lemma done_seen_result:
  assumes "election_step env c s (DoneSeen i e) s'"
  shows "pc (replicas s' i) = Ended" "leading (replicas s' i) = leading (replicas s i)"
  using assms by (auto elim!: done_seenE simp: select_done_def)

text \<open>
  C25: the leader flag a replica acts on and its gauge always agree, and the flag is set while
  the replica leads in force; but it outlives the lock: it is still set in a replica that has
  not yet seen that its lock was lost, so two replicas can act as leader at once although at
  most one of them is in force, and in one whose context ended while it led: that one releases
  the lock and keeps the flag for good.
\<close>

theorem leader_flag_tracks_lock:
  assumes "election_reachable env c s"
  shows "leaderGauge (replicas s i) = (if leading (replicas s i) then 1 else 0)
    \<and> (in_force s i \<longrightarrow> leading (replicas s i))
    \<and> (leading (replicas s i) \<longrightarrow> pc (replicas s i) = Ended \<or> (\<exists>n l. pc (replicas s i) = Leading n l))
    \<and> (i \<noteq> j \<longrightarrow> \<not> in_force s i \<or> \<not> in_force s j)
    \<and> (election_step env c s (DoneSeen i None) s1 \<and> election_run env c s1 es s' \<longrightarrow>
         \<not> in_force s1 i \<and> leading (replicas s' i))"
proof -
  from assms have inv: "election_inv s" by (rule election_reachable_inv)
  then have r: "replica_inv (replicas s i)" by (simp add: election_inv_def)
  have ended: "\<not> in_force s1 i \<and> leading (replicas s' i)"
    if "election_step env c s (DoneSeen i None) s1" "election_run env c s1 es s'"
  proof -
    from that(1) r have "leading (replicas s i)" by (auto elim!: done_seenE simp: replica_inv_def)
    with that ended_stays_run [OF that(2)] done_seen_result [OF that(1)] show ?thesis
      by (simp add: in_force_def)
  qed
  from r have "in_force s i \<Longrightarrow> leading (replicas s i)"
    "leading (replicas s i) \<Longrightarrow> pc (replicas s i) = Ended \<or> (\<exists>n l. pc (replicas s i) = Leading n l)"
    by (auto simp: replica_inv_def in_force_def split: leader_pc.splits)
  with r ended inv in_force_unique show ?thesis unfolding replica_inv_def by blast
qed

theorem leader_flag_tracks_lock_witness:
  "leading (replicas demo_led 0) \<and> in_force demo_led 0
   \<and> leading (snd (select_done (\<lambda>_. None) (replicas demo_led 0)))"
proof -
  have "election_step demo_env demo_ctx demo_led (DoneSeen 0 None)
      ((set_replica 0 (snd (select_done (\<lambda>_. None) (replicas demo_led 0))) demo_led)\<lparr>holder := None\<rparr>)"
    using election_step.done_seen [of demo_led 0 0 demo_lock demo_env demo_ctx None] by (simp add: demo_led_def)
  from leader_flag_tracks_lock [OF demo_led_reachable, of 0, where ?s1.0 = "(set_replica 0 (snd (select_done
        (\<lambda>_. None) (replicas demo_led 0))) demo_led)\<lparr>holder := None\<rparr>"] this election_run.empty
  have "in_force demo_led 0 \<longrightarrow> leading (replicas demo_led 0)"
    "leading (snd (select_done (\<lambda>_. None) (replicas demo_led 0)))" by fastforce+
  moreover have "in_force demo_led 0" by (simp add: in_force_def demo_led_def)
  ultimately show ?thesis by blast
qed

lemma held_stays:
  assumes "election_step env c s e s'" "e \<noteq> SessionInvalidated" "holder s = Some n"
    "\<forall>i l. pc (replicas s i) \<noteq> Leading n l"
  shows "holder s' = Some n \<and> (\<forall>i l. pc (replicas s' i) \<noteq> Leading n l)
    \<and> (\<forall>i. leading (replicas s' i) \<longrightarrow> leading (replicas s i))"
  using assms
proof (induction rule: election_step.induct)
  case (refused s i e)
  then show ?case
    using refused_not_leading after_refused [of "sessions s" "env i" "c i" e "replicas s i"]
    by (auto simp: Let_def)
qed (auto simp: loop_head_def select_lost_def select_done_def split: if_splits)

lemma held_stays_run:
  assumes "election_run env c s es s'" "SessionInvalidated \<notin> set es" "holder s = Some n"
    "\<forall>i l. pc (replicas s i) \<noteq> Leading n l"
  shows "holder s' = Some n \<and> (\<forall>i l. pc (replicas s' i) \<noteq> Leading n l)
    \<and> (\<forall>i. leading (replicas s' i) \<longrightarrow> leading (replicas s i))"
  using assms
proof (induction rule: election_run.induct)
  case (more s e s1 es s')
  then show ?case using held_stays [OF more.hyps(1)] by (metis list.set_intros(1,2))
qed auto

text \<open>
  C10: a replica told that its lock is lost (which a failed read of the lock tells it too,
  while its session lives on) goes back to grabbing without releasing the lock. If the session
  did hold it, the lock is then never granted again, to this replica or another, until Consul
  invalidates the session, which the program keeps renewing: nobody leads in force from then on.
\<close>

theorem lost_lock_is_abandoned:
  assumes "election_reachable env c s" "in_force s i" "election_step env c s (LostSeen i) s1"
    "election_run env c s1 es s'" "SessionInvalidated \<notin> set es"
  shows "holder s' = holder s \<and> leaders s' = {}
    \<and> (\<forall>j. leading (replicas s' j) \<longrightarrow> j \<noteq> i \<and> leading (replicas s j))"
proof -
  from assms(2) obtain n l where n: "holder s = Some n" "pc (replicas s i) = Leading n l"
    by (auto simp: in_force_def split: leader_pc.splits)
  from election_reachable_inv [OF assms(1)] n(2)
  have "pc (replicas s j) = Leading n l' \<Longrightarrow> j = i" for j l'
    by (auto simp: election_inv_def)
  with assms(3) n(1) have s1: "holder s1 = Some n" "\<forall>j l. pc (replicas s1 j) \<noteq> Leading n l"
    "\<forall>j. leading (replicas s1 j) \<longrightarrow> j \<noteq> i \<and> leading (replicas s j)"
    by (auto elim!: lost_seenE simp: select_lost_def split: if_splits)
  from held_stays_run [OF assms(4,5) s1(1,2)] s1(3) n(1) show ?thesis
    by (auto simp: leaders_def in_force_def split: leader_pc.splits)
qed

theorem lost_lock_is_abandoned_witness:
  "leaders (set_replica 0 (select_lost (replicas demo_led 0)) demo_led) = {}
   \<and> holder (set_replica 0 (select_lost (replicas demo_led 0)) demo_led) = Some 0"
proof -
  have f: "in_force demo_led 0" "holder demo_led = Some 0" by (simp_all add: in_force_def demo_led_def)
  have "election_step demo_env demo_ctx demo_led (LostSeen 0)
      (set_replica 0 (select_lost (replicas demo_led 0)) demo_led)"
    by (rule election_step.lost_seen [of _ _ 0 demo_lock]) (simp_all add: demo_led_def)
  from lost_lock_is_abandoned [OF demo_led_reachable f(1) this election_run.empty] f(2)
  show ?thesis by simp
qed


section \<open>A Consul client that could not be created\<close>

definition client_failed :: "'c leaderState \<Rightarrow> go_error \<Rightarrow> bool" where
  "client_failed ls e \<longleftrightarrow> lock_client ls = Some (Inl e)
     \<and> \<not> leading ls \<and> (pc ls = LoopHead \<or> pc ls = Grabbing \<or> pc ls = Ended)"

lemma grab_client_failed:
  assumes "lock_client ls = Some (Inl e)"
  shows "\<exists>x. grab ce c answer ls = Returns (Inl x, Some (Inl e))"
proof -
  have "loadConsulClient ce (Some (Inl e)) = (Inl e, Some (Inl e))"
    by (simp add: loadConsulClient_def OnceValues_def)
  with assms show ?thesis by (auto simp: grab_def Grab_def Let_def)
qed

lemma client_failed_step:
  assumes "election_step env c s ev s'" "client_failed (replicas s i) e"
  shows "client_failed (replicas s' i) e"
  using assms
proof (induction rule: election_step.induct)
  case (refused s j x)
  then show ?case
    using grab_client_failed [of "replicas s i" e "env j" "c j" "Some x"]
    by (auto simp: client_failed_def after_grab_def split: if_splits)
next
  case (granted s j l cl)
  then show ?case
    using grab_client_failed [of "replicas s i" e "env j" "c j" None]
    by (auto simp: client_failed_def split: if_splits)
qed (auto simp: client_failed_def loop_head_def select_lost_def select_done_def split: if_splits)

lemma first_refusal:
  assumes "new_consul_client ce = Inl e" "lock_client ls = None"
  shows "\<exists>x. grab ce c answer ls = Returns (Inl x, Some (Inl e))"
proof -
  have "loadConsulClient ce None = (Inl e, Some (Inl e))"
    using assms(1) by (simp add: loadConsulClient_def OnceValues_def)
  with assms(2) show ?thesis by (auto simp: grab_def Grab_def Let_def)
qed

text \<open>
  C39: a replica that fails to create its Consul client when it first grabs the lock never
  leads: the failure is kept for good, so it goes around the loop, refused every time,
  even if the environment it runs in is repaired.
\<close>

theorem failed_client_never_leads:
  assumes "new_consul_client (env i) = Inl e" "pc (replicas s i) = Grabbing"
    "lock_client (replicas s i) = None" "\<not> leading (replicas s i)"
    "election_step env c s (GrabRefused i x) s1" "election_run env' c' s1 es s'"
  shows "\<not> leading (replicas s' i) \<and> i \<notin> leaders s'
    \<and> (pc (replicas s' i) = LoopHead \<or> pc (replicas s' i) = Grabbing \<or> pc (replicas s' i) = Ended)"
proof -
  from assms(5) have "s1 = set_replica i
      (after_grab (sessions s) (grab (env i) (c i) (Some x) (replicas s i)) (replicas s i)) s"
    by cases
  with first_refusal [OF assms(1,3), of "c i" "Some x"] assms(4)
  have "client_failed (replicas s1 i) e" by (auto simp: client_failed_def after_grab_def)
  from assms(6) this have "client_failed (replicas s' i) e"
    by (induction rule: election_run.induct) (auto dest: client_failed_step)
  then show ?thesis by (auto simp: client_failed_def leaders_def in_force_def)
qed

theorem failed_client_never_leads_witness:
  "\<not> leading (after_grab 0 (grab (demo_env 2) background (Some (Plain [])) (loop_head newLeaderState))
      (loop_head newLeaderState))"
proof -
  let ?s = "set_replica 2 (loop_head newLeaderState) (new_election :: unit election)"
  obtain e where e: "new_consul_client (demo_env 2) = Inl e"
    by (simp add: new_consul_client_def demo_env_def)
  have g: "pc (replicas ?s 2) = Grabbing" by (simp add: loop_head_def newLeaderState_def)
  from failed_client_never_leads [OF e g _ _ election_step.refused [OF g, of demo_env demo_ctx "Plain []"]
      election_run.empty]
  show ?thesis by (simp add: loop_head_def newLeaderState_def new_election_def)
qed

end
