(* ===== verification/Mqtt_Handler.thy ===== *)
theory Mqtt_Handler
  imports Mqtt_Watch Mqtt_Button Mono Leader
begin

text \<open>
  The gRPC surface of \<^verbatim>\<open>services/s-rpc-mqtt\<close> (\<^verbatim>\<open>handler.go\<close>, \<^verbatim>\<open>shelly_spec.go\<close>, \<^verbatim>\<open>module.go\<close>): the
  aquarium schedule and how it is installed, setting, reading and watching lights, and the
  start of the service.
\<close>

section \<open>The aquarium schedule\<close>

record ShellyLightParams =
  Param_Id :: int
  Param_On :: "bool option"
  Param_Brightness :: "int option"

record ShellyCallSpec =
  Call_Method :: string
  Call_Params :: ShellyLightParams

record ShellyCronSpec =
  Enable :: bool
  Timespec :: string
  Calls :: "ShellyCallSpec list"

definition light_call :: "bool option \<Rightarrow> int option \<Rightarrow> ShellyCallSpec list" where
  "light_call on b = [\<lparr>Call_Method = ''light.set'',
     Call_Params = \<lparr>Param_Id = 0, Param_On = on, Param_Brightness = b\<rparr>\<rparr>]"

definition aquariumSchedule :: "ShellyCronSpec list" where
  "aquariumSchedule =
     [\<lparr>Enable = True, Timespec = ''30 7 * * *'', Calls = light_call (Some True) (Some 15)\<rparr>,
      \<lparr>Enable = True, Timespec = ''30 8 * * *'', Calls = light_call None (Some 60)\<rparr>,
      \<lparr>Enable = True, Timespec = ''0 12 * * *'', Calls = light_call None (Some 5)\<rparr>,
      \<lparr>Enable = True, Timespec = ''0 16 * * *'', Calls = light_call None (Some 59)\<rparr>,
      \<lparr>Enable = True, Timespec = ''0 17 * * *'', Calls = light_call None (Some 25)\<rparr>,
      \<lparr>Enable = True, Timespec = ''0 18 * * *'', Calls = light_call None (Some 10)\<rparr>,
      \<lparr>Enable = True, Timespec = ''0 20 * * *'', Calls = light_call None (Some 3)\<rparr>,
      \<lparr>Enable = True, Timespec = ''0 22 * * *'', Calls = light_call (Some False) None\<rparr>]"

text \<open>Marshalling: fields in declaration order, an \<^verbatim>\<open>omitempty\<close> nil pointer left out.\<close>

definition json_params :: "ShellyLightParams \<Rightarrow> json" where
  "json_params p = JObj ([(''id'', JNum (itoa (Param_Id p)))]
     @ (case Param_On p of None \<Rightarrow> [] | Some b \<Rightarrow> [(''on'', JBool b)])
     @ (case Param_Brightness p of None \<Rightarrow> [] | Some b \<Rightarrow> [(''brightness'', JNum (itoa b))]))"

definition json_call :: "ShellyCallSpec \<Rightarrow> json" where
  "json_call c = JObj [(''method'', JStr (Call_Method c)), (''params'', json_params (Call_Params c))]"

definition json_cron :: "ShellyCronSpec \<Rightarrow> json" where
  "json_cron s = JObj [(''enable'', JBool (Enable s)), (''timespec'', JStr (Timespec s)),
     (''calls'', JArr (map json_call (Calls s)))]"

fun create_all :: "'w rpc \<Rightarrow> ShellyCronSpec list \<Rightarrow> 'w \<Rightarrow> err \<times> 'w" where
  "create_all rpc [] w = (None, w)"
| "create_all rpc (params # specs) w =
     (case rpc ''shelly/rgb105/rpc'' ''Schedule.Create'' (json_cron params) w of
        (Inl e, w') \<Rightarrow> (Some e, w')
      | (Inr _, w') \<Rightarrow> (case rpc ''shelly/rgb108/rpc'' ''Schedule.Create'' (json_cron params) w' of
          (Inl e, w'') \<Rightarrow> (Some e, w'')
        | (Inr _, w'') \<Rightarrow> create_all rpc specs w''))"

definition SetAquariumSchedule :: "'w rpc \<Rightarrow> 'w \<Rightarrow> err \<times> 'w" where
  "SetAquariumSchedule rpc w =
     (case rpc ''shelly/rgb105/rpc'' ''Schedule.DeleteAll'' (JObj []) w of
        (Inl e, w') \<Rightarrow> (Some e, w')
      | (Inr _, w') \<Rightarrow> (case rpc ''shelly/rgb108/rpc'' ''Schedule.DeleteAll'' (JObj []) w' of
          (Inl e, w'') \<Rightarrow> (Some e, w'')
        | (Inr _, w'') \<Rightarrow> create_all rpc aquariumSchedule w''))"

section \<open>Lights\<close>

definition ListLights :: "pb_Light list" where
  "ListLights = listLights"

definition SetLight :: "'w rpc \<Rightarrow> pb_SetLightRequest \<Rightarrow> 'w \<Rightarrow> (go_error + pb_LightStatus) \<times> 'w" where
  "SetLight rpc req w = (case setLight rpc req w of
      (Some e, w') \<Rightarrow> (Inl e, w')
    | (None, w') \<Rightarrow> getLight rpc (Req_Id req) w')"

definition GetLight :: "'w rpc \<Rightarrow> string \<Rightarrow> 'w \<Rightarrow> (go_error + pb_LightStatus) \<times> 'w" where
  "GetLight rpc i w = getLight rpc i w"

text \<open>
  \<^verbatim>\<open>WatchLights\<close>: each turn of its loop sees the stream's context done, or a receive from the
  subscriber channel with the result of sending what was received. The result lists what
  was sent and, once the handler has returned, its error; other goroutines use the
  broadcaster between subscribing and the deferred unsubscribe.
\<close>

datatype watch_turn = StreamDone | Update "pb_LightStatus received" err

fun watch_loop :: "watch_turn list \<Rightarrow> pb_LightStatus list \<times> err option" where
  "watch_loop [] = ([], None)"
| "watch_loop (StreamDone # ts) = ([], Some None)"
| "watch_loop (Update EndOfChannel e # ts) =
     ([], Some (Some (terrors_New ''watch_ended'' ''subscriber fell behind or service is shutting down'' [])))"
| "watch_loop (Update WouldBlock e # ts) = watch_loop ts"
| "watch_loop (Update (Got status) (Some e) # ts) =
     ([], Some (Augment (Some e) ''failed to send light status'' []))"
| "watch_loop (Update (Got status) None # ts) = (case watch_loop ts of (sent, r) \<Rightarrow> (status # sent, r))"

definition WatchLights ::
  "err \<Rightarrow> watch_turn list \<Rightarrow> (pb_LightStatus lightBroadcaster \<Rightarrow> pb_LightStatus lightBroadcaster)
    \<Rightarrow> pb_LightStatus lightBroadcaster
    \<Rightarrow> ((pb_LightStatus list \<times> err option) \<times> pb_LightStatus lightBroadcaster) outcome" where
  "WatchLights header_err turns others b =
     bind_outcome (subscribe b) (\<lambda>(f, b').
       if header_err \<noteq> None
       then Returns (([], Some (Augment header_err ''failed to send headers'' [])), unsubscribe f (others b'))
       else (case watch_loop turns of
           (sent, None) \<Rightarrow> Returns ((sent, None), others b')
         | (sent, Some e) \<Rightarrow> Returns ((sent, Some e), unsubscribe f (others b'))))"

section \<open>Starting the service\<close>

text \<open>
  \<^verbatim>\<open>newMqtt\<close>, given whether the broker URL parses, the client can be created and the
  connection comes up.
\<close>

record broker_env =
  url_err :: "string \<Rightarrow> err"
  connect_err :: err
  await_err :: err

definition newMqtt :: "broker_env \<Rightarrow> string \<Rightarrow> go_error + mqttScaffold" where
  "newMqtt v brokerAddr = (case url_err v brokerAddr of
      Some e \<Rightarrow> Inl (augmented e ''could not parse broker URL'' [])
    | None \<Rightarrow> (case connect_err v of
        Some e \<Rightarrow> Inl (augmented e ''could not create mqtt connection'' [])
      | None \<Rightarrow> (case await_err v of
          Some e \<Rightarrow> Inl (augmented e ''could not await mqtt connection'' [])
        | None \<Rightarrow> Inr newScaffold)))"

text \<open>
  The result is the service with its scaffold, or the error of the hook. The client id joins
  the service name and the allocation id, so a missing configuration is dereferenced.
\<close>

definition mqtt_InitService ::
  "BaseConfig option \<times> err \<Rightarrow> string \<times> err \<Rightarrow> broker_env
    \<Rightarrow> (go_error + (Service \<times> string \<times> mqttScaffold)) outcome" where
  "mqtt_InitService base broker v = (case base of
      (_, Some e) \<Rightarrow> Returns (Inl e)
    | (cfg, None) \<Rightarrow> (case broker of
        (_, Some e) \<Rightarrow> Returns (Inl e)
      | (brokerAddr, None) \<Rightarrow> (case cfg of
          None \<Rightarrow> Panics ''nil pointer dereference''
        | Some c \<Rightarrow> (case newMqtt v brokerAddr of
            Inl e \<Rightarrow> Returns (Inl e)
          | Inr s \<Rightarrow> Returns (Inr (\<lparr>Name = mqtt_Name, RegisterGrpc = True, OnShutdown = Some None\<rparr>,
              mqtt_Name @ ''_'' @ AllocID c, s))))))"

section \<open>Facts\<close>

definition schedule_calls :: "ShellyCronSpec list \<Rightarrow> (string \<times> string \<times> json) list" where
  "schedule_calls specs = concat (map (\<lambda>s.
     [(''shelly/rgb105/rpc'', ''Schedule.Create'', json_cron s),
      (''shelly/rgb108/rpc'', ''Schedule.Create'', json_cron s)]) specs)"

text \<open>
  A sequence of calls over a logging transport stops at the first error, which it returns,
  and otherwise makes every call.
\<close>

definition stops_at :: "((string \<times> string \<times> json) list \<Rightarrow> go_error + payload)
    \<Rightarrow> (string \<times> string \<times> json) list \<Rightarrow> (string \<times> string \<times> json) list
    \<Rightarrow> err \<Rightarrow> (string \<times> string \<times> json) list \<Rightarrow> bool" where
  "stops_at answer calls w e w' \<longleftrightarrow>
     (e = None \<and> w' = w @ calls \<and> (\<forall>j < length calls. \<not> isl (answer (w @ take j calls))))
   \<or> (\<exists>k < length calls. \<exists>x. e = Some x \<and> answer (w @ take k calls) = Inl x
        \<and> w' = w @ take (Suc k) calls \<and> (\<forall>j < k. \<not> isl (answer (w @ take j calls))))"

lemma stops_at_Nil: "stops_at answer [] w None w"
  by (simp add: stops_at_def)

lemma stops_at_error: "answer w = Inl x \<Longrightarrow> stops_at answer (c # cs) w (Some x) (w @ [c])"
  by (auto simp: stops_at_def intro!: exI [of _ 0])

lemma stops_at_Cons:
  assumes "\<not> isl (answer w)" "stops_at answer cs (w @ [c]) e w'"
  shows "stops_at answer (c # cs) w e w'"
proof -
  have t: "w @ take (Suc j) (c # cs) = (w @ [c]) @ take j cs" for j by simp
  have all: "(\<forall>j < Suc k. \<not> isl (answer (w @ take j (c # cs))))
      \<longleftrightarrow> (\<forall>j < k. \<not> isl (answer ((w @ [c]) @ take j cs)))" for k
    using assms(1) by (simp add: All_less_Suc2)
  from assms(2) [unfolded stops_at_def] show ?thesis
  proof (elim disjE exE conjE)
    assume "e = None" "w' = (w @ [c]) @ cs" "\<forall>j < length cs. \<not> isl (answer ((w @ [c]) @ take j cs))"
    then show ?thesis unfolding stops_at_def using all [of "length cs"] by simp
  next
    fix k x assume "k < length cs" "e = Some x" "answer ((w @ [c]) @ take k cs) = Inl x"
      "w' = (w @ [c]) @ take (Suc k) cs" "\<forall>j < k. \<not> isl (answer ((w @ [c]) @ take j cs))"
    then show ?thesis unfolding stops_at_def using all [of k]
      by (intro disjI2 exI [of _ "Suc k"] exI [of _ x]) simp
  qed
qed

lemma logged_apply: "logged answer t m p w = (answer w, w @ [(t, m, p)])"
  by (simp only: logged_def)

lemma create_all_stops:
  "create_all (logged answer) specs w = (e, w') \<Longrightarrow> stops_at answer (schedule_calls specs) w e w'"
proof (induction specs arbitrary: w)
  case Nil
  then show ?case by (simp add: schedule_calls_def stops_at_Nil)
next
  case (Cons s specs)
  let ?a = "(''shelly/rgb105/rpc'', ''Schedule.Create'', json_cron s)"
  let ?b = "(''shelly/rgb108/rpc'', ''Schedule.Create'', json_cron s)"
  have c: "schedule_calls (s # specs) = ?a # ?b # schedule_calls specs" by (simp add: schedule_calls_def)
  show ?case
  proof (cases "answer w")
    case (Inl x)
    with Cons.prems show ?thesis unfolding c by (auto simp: logged_apply stops_at_error)
  next
    case (Inr p)
    show ?thesis
    proof (cases "answer (w @ [?a])")
      case (Inl x)
      with Inr Cons.prems have "e = Some x" "w' = (w @ [?a]) @ [?b]" by (auto simp: logged_apply)
      with Inr stops_at_error [of answer "w @ [?a]" x ?b, OF Inl] show ?thesis
        unfolding c by (auto intro: stops_at_Cons)
    next
      case (Inr q)
      with \<open>answer w = Inr p\<close> Cons.prems have "create_all (logged answer) specs ((w @ [?a]) @ [?b]) = (e, w')"
        by (simp add: logged_apply [abs_def])
      from Cons.IH [OF this] Inr \<open>answer w = Inr p\<close> show ?thesis
        unfolding c by (metis stops_at_Cons isl_def Inl_Inr_False)
    qed
  qed
qed

definition all_calls :: "(string \<times> string \<times> json) list" where
  "all_calls = [(''shelly/rgb105/rpc'', ''Schedule.DeleteAll'', JObj []),
     (''shelly/rgb108/rpc'', ''Schedule.DeleteAll'', JObj [])] @ schedule_calls aquariumSchedule"

lemma SetLight_device:
  assumes "shelly_lights rpc st" "l \<in> set lights" "dimmable l" "0 \<le> b" "b \<le> 100"
  shows "\<exists>w'. SetLight rpc \<lparr>Req_Id = light_id l, Req_On = Some on, Req_Brightness = Some (to_int32 b)\<rparr> w
      = (Inr \<lparr>Status_Id = light_id l, Status_On = on, Status_Dimmable = True,
              Status_Brightness = Some (to_int32 b)\<rparr>, w')
    \<and> st w' = (st w)(light_id l := (on, b))"
proof -
  from setLight_device [OF assms] obtain w1 where
      s: "setLight rpc \<lparr>Req_Id = light_id l, Req_On = Some on, Req_Brightness = Some (to_int32 b)\<rparr> w = (None, w1)"
      "st w1 = (st w)(light_id l := (on, b))" by blast
  from getLight_device [OF assms(1-3), of w1] s show ?thesis by (auto simp: SetLight_def)
qed

section \<open>Properties\<close>

text \<open>
  Installing the aquarium schedule makes its calls in one fixed order, both deletions
  first and then every entry on both lights, stops at the first call that fails and returns
  that call's error, and reports success exactly when every call was made and succeeded; in
  particular a failure after the deletions leaves the lights with only the entries created
  so far.
\<close>

theorem SetAquariumSchedule_calls:
  "SetAquariumSchedule (logged answer) [] = (e, made) \<Longrightarrow>
     (e = None \<and> made = all_calls \<and> (\<forall>j < length all_calls. \<not> isl (answer (take j all_calls))))
   \<or> (\<exists>k < length all_calls. \<exists>x. e = Some x \<and> answer (take k all_calls) = Inl x
        \<and> made = take (Suc k) all_calls \<and> (\<forall>j < k. \<not> isl (answer (take j all_calls))))"
proof -
  assume s: "SetAquariumSchedule (logged answer) [] = (e, made)"
  let ?a = "(''shelly/rgb105/rpc'', ''Schedule.DeleteAll'', JObj [])"
  let ?b = "(''shelly/rgb108/rpc'', ''Schedule.DeleteAll'', JObj [])"
  have c: "all_calls = ?a # ?b # schedule_calls aquariumSchedule" by (simp add: all_calls_def)
  have "stops_at answer all_calls [] e made"
  proof (cases "answer []")
    case (Inl x)
    then have "e = Some x" "made = [] @ [?a]" using s by (auto simp: SetAquariumSchedule_def logged_apply)
    then show ?thesis unfolding c using stops_at_error [of answer "[]" x ?a, OF Inl] by metis
  next
    case (Inr p)
    show ?thesis
    proof (cases "answer ([] @ [?a])")
      case (Inl x)
      then have "e = Some x" "made = ([] @ [?a]) @ [?b]"
        using s Inr by (auto simp: SetAquariumSchedule_def logged_apply)
      then show ?thesis unfolding c using stops_at_error [of answer "[] @ [?a]" x ?b, OF Inl] Inr
        by (metis stops_at_Cons isl_def Inl_Inr_False)
    next
      case (Inr q)
      then have "create_all (logged answer) aquariumSchedule (([] @ [?a]) @ [?b]) = (e, made)"
        using s \<open>answer [] = Inr p\<close> by (simp add: SetAquariumSchedule_def logged_apply [abs_def])
      from create_all_stops [OF this] Inr \<open>answer [] = Inr p\<close> show ?thesis
        unfolding c by (metis stops_at_Cons isl_def Inl_Inr_False)
    qed
  qed
  then show ?thesis by (simp add: stops_at_def)
qed

theorem SetAquariumSchedule_calls_witness:
  "snd (SetAquariumSchedule (logged (\<lambda>w. if length w = 3 then Inl (Plain ''offline'') else Inr None)) [])
     = take 4 all_calls"
proof -
  define ans :: "(string \<times> string \<times> json) list \<Rightarrow> go_error + payload"
    where "ans = (\<lambda>w. if length w = 3 then Inl (Plain ''offline'') else Inr None)"
  obtain e made where m: "SetAquariumSchedule (logged ans) [] = (e, made)" by fastforce
  have l: "length all_calls = 18" by (simp add: all_calls_def schedule_calls_def aquariumSchedule_def)
  have isl3: "j < 18 \<Longrightarrow> isl (ans (take j all_calls)) \<longleftrightarrow> j = 3" for j
    using l by (simp add: ans_def)
  have "made = take 4 all_calls"
    using SetAquariumSchedule_calls [OF m] isl3 [of 3] isl3 unfolding l by fastforce
  with m show ?thesis by (simp add: ans_def)
qed

text \<open>
  Setting a dimmable light that keeps the device contract returns the status that was
  asked for, and reading it afterwards agrees; no other light changes.
\<close>

theorem SetLight_reads_back:
  assumes "shelly_lights rpc st" "l \<in> set lights" "dimmable l" "0 \<le> b" "b \<le> 100"
    "SetLight rpc \<lparr>Req_Id = light_id l, Req_On = Some on, Req_Brightness = Some (to_int32 b)\<rparr> w = (r, w')"
  shows "r = Inr \<lparr>Status_Id = light_id l, Status_On = on, Status_Dimmable = True,
            Status_Brightness = Some (to_int32 b)\<rparr>
    \<and> st w' = (st w)(light_id l := (on, b)) \<and> fst (GetLight rpc (light_id l) w') = r"
proof -
  from SetLight_device [OF assms(1-5), of on w] assms(6)
  have "r = Inr \<lparr>Status_Id = light_id l, Status_On = on, Status_Dimmable = True,
            Status_Brightness = Some (to_int32 b)\<rparr>" "st w' = (st w)(light_id l := (on, b))" by auto
  with getLight_device [OF assms(1-3), of w'] show ?thesis by (auto simp: GetLight_def)
qed

theorem SetLight_reads_back_witness:
  "fst (SetLight sim_rpc \<lparr>Req_Id = ''rgb108'', Req_On = Some True, Req_Brightness = Some (to_int32 42)\<rparr> (\<lambda>_. (False, 0)))
     = Inr \<lparr>Status_Id = ''rgb108'', Status_On = True, Status_Dimmable = True, Status_Brightness = Some (to_int32 42)\<rparr>"
proof -
  let ?l = "\<lparr>light_id = ''rgb108'', dimmable = True\<rparr>"
  obtain r w' where "SetLight sim_rpc \<lparr>Req_Id = light_id ?l, Req_On = Some True, Req_Brightness = Some (to_int32 42)\<rparr>
      (\<lambda>_. (False, 0)) = (r, w')" by fastforce
  with SetLight_reads_back [OF sim_rpc_contract _ _ _ _ this] show ?thesis by (simp add: lights_def)
qed

fun delivered :: "watch_turn list \<Rightarrow> pb_LightStatus list" where
  "delivered [] = []"
| "delivered (Update (Got s) e # ts) = s # delivered ts"
| "delivered (_ # ts) = delivered ts"

text \<open>
  A stream of light updates ends with an error only when its channel was closed or a
  send failed, and what the client was sent is, in order, a prefix of what the channel
  delivered, all of it while the stream lasts.
\<close>

theorem watch_stream_faithful:
  "(\<exists>k. fst (watch_loop ts) = take k (delivered ts))
   \<and> (snd (watch_loop ts) = None \<longrightarrow> fst (watch_loop ts) = delivered ts)
   \<and> (\<forall>x. snd (watch_loop ts) = Some (Some x) \<longrightarrow>
        (\<exists>e. Update EndOfChannel e \<in> set ts) \<or> (\<exists>s e. Update (Got s) (Some e) \<in> set ts))"
proof (induction ts rule: watch_loop.induct)
  case (6 status ts)
  obtain sent r where l: "watch_loop ts = (sent, r)" by fastforce
  with 6 obtain k where "sent = take k (delivered ts)" by auto
  then have "status # sent = take (Suc k) (delivered (Update (Got status) None # ts))" by simp
  with l 6 show ?case by (simp del: take_Suc_Cons) blast
next
  case (4 e ts)
  then show ?case by auto
qed auto

theorem watch_stream_faithful_witness:
  "(\<exists>k. [\<lparr>Status_Id = [], Status_On = True, Status_Dimmable = False, Status_Brightness = None\<rparr>] = take k (delivered [Update (Got \<lparr>Status_Id = [], Status_On = True, Status_Dimmable = False, Status_Brightness = None\<rparr>) None, Update EndOfChannel None, Update (Got \<lparr>Status_Id = [], Status_On = True, Status_Dimmable = False, Status_Brightness = None\<rparr>) None]))
   \<and> (\<exists>e. Update EndOfChannel e \<in> set [Update (Got \<lparr>Status_Id = [], Status_On = True, Status_Dimmable = False, Status_Brightness = None\<rparr>) None, Update EndOfChannel None, Update (Got \<lparr>Status_Id = [], Status_On = True, Status_Dimmable = False, Status_Brightness = None\<rparr>) None])"
  using watch_stream_faithful [of "[Update (Got \<lparr>Status_Id = [], Status_On = True, Status_Dimmable = False, Status_Brightness = None\<rparr>) None, Update EndOfChannel None, Update (Got \<lparr>Status_Id = [], Status_On = True, Status_Dimmable = False, Status_Brightness = None\<rparr>) None]"]
  by (auto simp: terrors_New_def)

end
