(* ===== verification/Go_Float.thy ===== *)
theory Go_Float
  imports Go_Json
begin

text \<open>
  Floating-point values and their text: \<^verbatim>\<open>strconv.ParseFloat\<close> for decimal literals and the
  special values, the shortest decimal format and \<^verbatim>\<open>%.1f\<close>. Finite values are exact rationals:
  rounding to the nearest \<^verbatim>\<open>float64\<close>, hexadecimal literals, digit separators and negative zero
  are not modelled.
\<close>

datatype float64 = Finite rat | NaN | Infinite bool

text \<open>A literal may lack its integer part; JSON literals, which \<^const>\<open>read_decimal\<close> reads, may not.\<close>

definition read_float :: "string \<Rightarrow> rat option" where
  "read_float s = (case read_sign s of (sg, r) \<Rightarrow>
     if has_prefix r ''.'' then
       (if r = ''.'' \<or> char_digit (r ! 1) = None then None
        else read_decimal ((if sg < 0 then ''-'' else []) @ ''0'' @ r))
     else read_decimal s)"

definition parse_float :: "string \<Rightarrow> float64 option" where
  "parse_float s = (case read_float s of
      Some q \<Rightarrow> Some (Finite q)
    | None \<Rightarrow> (if to_lower s = ''nan'' then Some NaN
        else (case read_sign s of (sg, r) \<Rightarrow>
          if to_lower r = ''inf'' \<or> to_lower r = ''infinity'' then Some (Infinite (sg < 0)) else None)))"

text \<open>
  \<^verbatim>\<open>strconv.FormatFloat(x, 'f', -1, 64)\<close>: the shortest decimal that reads back as the value.
  In exact arithmetic it exists for the values that are decimals; others have no text here.
\<close>

definition decimal_places :: "rat \<Rightarrow> nat option" where
  "decimal_places q = find (\<lambda>k. snd (quotient_of (q * 10 ^ k)) = 1) [0..<Suc (nat (snd (quotient_of q)))]"

definition pad_zeros :: "nat \<Rightarrow> string \<Rightarrow> string" where
  "pad_zeros k s = replicate (k - length s) (CHR ''0'') @ s"

definition format_f :: "float64 \<Rightarrow> string" where
  "format_f x = (case x of
      NaN \<Rightarrow> ''NaN''
    | Infinite neg \<Rightarrow> (if neg then ''-Inf'' else ''+Inf'')
    | Finite q \<Rightarrow> (case decimal_places q of
        None \<Rightarrow> []
      | Some k \<Rightarrow> (let n = nat \<lfloor>\<bar>q\<bar> * 10 ^ k\<rfloor> in
          (if q < 0 then ''-'' else []) @ show_nat (n div 10 ^ k)
            @ (if k = 0 then [] else ''.'' @ pad_zeros k (show_nat (n mod 10 ^ k))))))"

text \<open>Rounding a non-negative rational to the nearest integer, ties to even.\<close>

definition round_even :: "rat \<Rightarrow> int" where
  "round_even q = (let n = \<lfloor>q\<rfloor>; r = q - of_int n in
     if r < 1 / 2 then n else if r > 1 / 2 then n + 1 else if even n then n else n + 1)"

definition format_1f :: "float64 \<Rightarrow> string" where
  "format_1f x = (case x of
      NaN \<Rightarrow> ''NaN''
    | Infinite neg \<Rightarrow> (if neg then ''-Inf'' else ''+Inf'')
    | Finite q \<Rightarrow> (let n = round_even (\<bar>q\<bar> * 10) in
        (if q < 0 then ''-'' else []) @ itoa (n div 10) @ ''.'' @ itoa (n mod 10)))"

definition finite_value :: "float64 \<Rightarrow> real option" where
  "finite_value x = (case x of Finite q \<Rightarrow> Some (of_rat q) | _ \<Rightarrow> None)"

text \<open>\<^verbatim>\<open>strings.TrimSpace\<close> on ASCII text.\<close>

definition is_space :: "char \<Rightarrow> bool" where
  "is_space c \<longleftrightarrow> c \<in> set [CHR 0x09, CHR 0x0A, CHR 0x0B, CHR 0x0C, CHR 0x0D, CHR 0x20]"

definition trim_space :: "string \<Rightarrow> string" where
  "trim_space s = rev (dropWhile is_space (rev (dropWhile is_space s)))"

text \<open>The year of a Unix timestamp in seconds (\<^verbatim>\<open>time.Time.Year\<close>, UTC, Gregorian).\<close>

definition year_of_unix :: "int \<Rightarrow> int" where
  "year_of_unix t =
     (let z = t div 86400 + 719468; era = z div 146097; doe = z mod 146097;
          yoe = (doe - doe div 1460 + doe div 36524 - doe div 146096) div 365;
          doy = doe - (365 * yoe + yoe div 4 - yoe div 100);
          mp = (5 * doy + 2) div 153
      in yoe + era * 400 + (if mp < 10 then 0 else 1))"

section \<open>Reading back the shortest format\<close>

lemma quotient_1: "snd (quotient_of x) = 1 \<Longrightarrow> x = of_int (fst (quotient_of x))"
  by (metis div_by_1 of_int_1 prod.collapse quotient_of_div)

lemma decimal_places_int:
  assumes "decimal_places q = Some k"
  shows "\<exists>n. \<bar>q\<bar> * 10 ^ k = of_nat n"
proof -
  from assms have "snd (quotient_of (q * 10 ^ k)) = 1"
    by (auto simp: decimal_places_def find_Some_iff)
  then obtain i where "q * 10 ^ k = of_int i" using quotient_1 by blast
  then have "\<bar>q\<bar> * 10 ^ k = of_nat (nat \<bar>i\<bar>)"
    by (metis abs_mult abs_of_nonneg int_nat_eq of_int_abs of_int_of_nat_eq power_abs zero_le_numeral abs_ge_zero abs_numeral)
  then show ?thesis by blast
qed

lemma read_digits_zeros: "read_digits acc (replicate m (CHR ''0'')) = Some (acc * 10 ^ m)"
  by (induction m arbitrary: acc) (auto simp: char_digit_def)

lemma read_digits_add:
  "read_digits a s = Some x \<Longrightarrow> read_digits (a + c) s = Some (x + c * 10 ^ length s)"
proof (induction s arbitrary: a c)
  case (Cons d s)
  then obtain n where n: "char_digit d = Some n" "read_digits (10 * a + n) s = Some x"
    by (auto split: option.splits)
  have "read_digits ((10 * a + n) + 10 * c) s = Some (x + 10 * c * 10 ^ length s)"
    using Cons.IH n(2) by blast
  with n(1) show ?case by (simp add: algebra_simps)
qed simp

lemma show_nat_length: "n < 10 ^ k \<Longrightarrow> 0 < k \<Longrightarrow> length (show_nat n) \<le> k"
proof (induction n arbitrary: k rule: show_nat.induct)
  case (1 n)
  show ?case
  proof (cases "n < 10")
    case True
    with 1 show ?thesis by (simp add: show_nat.simps [of n])
  next
    case False
    with 1 obtain j where k: "k = Suc j" "0 < j" by (cases k; cases "k - 1") auto
    have "n div 10 < 10 ^ j" using 1(2) k by (auto intro: less_mult_imp_div_less)
    with 1(1) False k have "length (show_nat (n div 10)) \<le> j" by blast
    with False k show ?thesis by (simp add: show_nat.simps [of n])
  qed
qed

lemma pad_zeros_read:
  assumes "n < 10 ^ k" "0 < k"
  shows "length (pad_zeros k (show_nat n)) = k" and "read_digits a (pad_zeros k (show_nat n)) = Some (a * 10 ^ k + n)"
proof -
  have len: "length (show_nat n) \<le> k" using assms by (rule show_nat_length)
  then show "length (pad_zeros k (show_nat n)) = k" by (simp add: pad_zeros_def)
  define m where "m = k - length (show_nat n)"
  have k: "k = m + length (show_nat n)" using len by (simp add: m_def)
  have "read_digits (0 + a * 10 ^ m) (show_nat n) = Some (n + a * 10 ^ m * 10 ^ length (show_nat n))"
    by (rule read_digits_add [OF read_digits_show_nat_0])
  then have "read_digits (a * 10 ^ m) (show_nat n) = Some (a * 10 ^ k + n)"
    by (simp add: k power_add mult.assoc)
  then show "read_digits a (pad_zeros k (show_nat n)) = Some (a * 10 ^ k + n)"
    by (simp add: pad_zeros_def m_def [symmetric] read_digits_append read_digits_zeros)
qed

definition digits :: "string \<Rightarrow> bool" where
  "digits s \<longleftrightarrow> (\<forall>c \<in> set s. char_digit c \<noteq> None)"

lemma digits_show_nat [simp]: "digits (show_nat n)"
  using show_nat_digits by (auto simp: digits_def)

lemma digits_pad [simp]: "digits (pad_zeros k (show_nat n))"
  using show_nat_digits by (auto simp: digits_def pad_zeros_def char_digit_def)

lemma digits_no: "digits s \<Longrightarrow> char_digit c = None \<Longrightarrow> c \<notin> set s"
  by (auto simp: digits_def)

lemma special_chars [simp]:
  "char_digit (CHR ''e'') = None" "char_digit (CHR ''E'') = None" "char_digit (CHR ''.'') = None"
  "char_digit (CHR ''-'') = None" "char_digit (CHR ''+'') = None"
  by (simp_all add: char_digit_def)

lemma read_sign_digits:
  assumes "digits a" "a \<noteq> []"
  shows "read_sign ((if neg then ''-'' else []) @ a @ r) = (if neg then - 1 else 1, a @ r)"
proof -
  obtain c t where "a = c # t" using assms(2) by (cases a) auto
  moreover from this have "c \<noteq> CHR ''-''" "c \<noteq> CHR ''+''" using assms by (auto simp: digits_def)
  ultimately show ?thesis by (simp add: read_sign_def)
qed

lemma no_exponent: "CHR ''E'' \<notin> set r \<Longrightarrow> map (\<lambda>c. if c = CHR ''E'' then CHR ''e'' else c) r = r"
  by (auto intro: map_idI)

lemma read_decimal_digits:
  assumes "digits a" "a \<noteq> []" "read_digits 0 a = Some n"
  shows "read_decimal ((if neg then ''-'' else []) @ a) = Some (of_int ((if neg then - 1 else 1) * int n))"
proof -
  have "CHR ''e'' \<notin> set a" "CHR ''E'' \<notin> set a" "CHR ''.'' \<notin> set a" using digits_no [OF assms(1)] by simp_all
  then show ?thesis
    using read_sign_digits [OF assms(1,2), of neg "[]"] assms
    by (simp add: read_decimal_def no_exponent split_first_no scale10_def)
qed

lemma read_decimal_point:
  assumes "digits a" "a \<noteq> []" "digits b" "read_digits 0 (a @ b) = Some n"
  shows "read_decimal ((if neg then ''-'' else []) @ a @ ''.'' @ b) = Some (scale10 ((if neg then - 1 else 1) * int n) (- int (length b)))"
proof -
  have "CHR ''e'' \<notin> set (a @ ''.'' @ b)" "CHR ''E'' \<notin> set (a @ ''.'' @ b)" "CHR ''.'' \<notin> set a"
    using digits_no [OF assms(1)] digits_no [OF assms(3)] by auto
  then show ?thesis
    using read_sign_digits [OF assms(1,2), of neg "''.'' @ b"] assms(2,4) no_exponent [of "a @ ''.'' @ b"]
      split_first_no [of "CHR ''e''" "a @ ''.'' @ b"]
    by (simp add: read_decimal_def split_first_append)
qed

lemma read_float_digits:
  assumes "digits a" "a \<noteq> []"
  shows "read_float ((if neg then ''-'' else []) @ a @ r) = read_decimal ((if neg then ''-'' else []) @ a @ r)"
proof -
  obtain c t where a: "a = c # t" using assms(2) by (cases a) auto
  with assms(1) have "c \<noteq> CHR ''.''" by (auto simp: digits_def)
  with a read_sign_digits [OF assms, of neg r] show ?thesis by (simp add: read_float_def)
qed

lemma format_f_finite:
  assumes "decimal_places q = Some k"
  shows "read_float (format_f (Finite q)) = Some q"
proof -
  obtain n where n: "\<bar>q\<bar> * 10 ^ k = of_nat n" using decimal_places_int [OF assms] by blast
  have m: "nat \<lfloor>\<bar>q\<bar> * 10 ^ k\<rfloor> = n" by (simp add: n)
  have q: "q = (if q < 0 then - 1 else 1) * of_nat n / 10 ^ k" using n by (auto simp: field_simps)
  have r: "read_digits 0 (show_nat (n div 10 ^ k)) = Some (n div 10 ^ k)" by (rule read_digits_show_nat_0)
  show ?thesis
  proof (cases "k = 0")
    case True
    have "format_f (Finite q) = (if q < 0 then ''-'' else []) @ show_nat n"
      using assms True m by (simp add: format_f_def Let_def)
    moreover have "of_int ((if q < 0 then - 1 else 1) * int n) = q" using q True by (auto split: if_splits)
    ultimately show ?thesis
      using read_float_digits [of "show_nat n" "q < 0" "[]"] read_decimal_digits [of "show_nat n" n "q < 0"]
        read_digits_show_nat_0 [of n] by simp
  next
    case False
    define b where "b = pad_zeros k (show_nat (n mod 10 ^ k))"
    have b: "length b = k" "read_digits (n div 10 ^ k) b = Some (n div 10 ^ k * 10 ^ k + n mod 10 ^ k)"
      using False pad_zeros_read [of "n mod 10 ^ k" k] by (simp_all add: b_def)
    have f: "format_f (Finite q) = (if q < 0 then ''-'' else []) @ show_nat (n div 10 ^ k) @ ''.'' @ b"
      using assms False m by (simp add: format_f_def Let_def b_def)
    have "read_digits 0 (show_nat (n div 10 ^ k) @ b) = Some n"
      using b(2) r div_mult_mod_eq [of n "10 ^ k"] by (simp add: read_digits_append)
    from read_decimal_point [OF _ _ _ this, of "q < 0"]
    have "read_decimal (format_f (Finite q)) = Some (scale10 ((if q < 0 then - 1 else 1) * int n) (- int k))"
      using b(1) by (simp add: f b_def)
    moreover have "scale10 ((if q < 0 then - 1 else 1) * int n) (- int k) = q"
      using q False by (auto simp: scale10_def split: if_splits)
    ultimately show ?thesis
      using read_float_digits [of "show_nat (n div 10 ^ k)" "q < 0" "''.'' @ b"] f by simp
  qed
qed

lemma format_f_special: "parse_float (format_f NaN) = Some NaN" "parse_float (format_f (Infinite neg)) = Some (Infinite neg)"
  by (cases neg; simp add: format_f_def parse_float_def read_float_def read_sign_def read_decimal_def
      char_digit_def to_lower_def lower_char_def; code_simp)+

lemma format_f_parses:
  "(\<forall>q. x = Finite q \<longrightarrow> decimal_places q \<noteq> None) \<Longrightarrow> parse_float (format_f x) = Some x"
  using format_f_special format_f_finite by (cases x) (auto simp: parse_float_def)

end
