(* ===== verification/Web_Home.thy ===== *)
theory Web_Home
  imports Mqtt_Lights Go_Float "HOL-Library.Sublist"
begin

text \<open>
  \<^verbatim>\<open>services/s-web-home\<close>: the page of lights. Temperatures are read from Prometheus through a
  cache shared by all viewers; lights are fetched concurrently; changes are pushed to the
  browser as server-sent events. The page templates are generated code outside the sources:
  rendering a row is an argument. The calls to the other services are arguments that
  thread the state of the world, whose clock they may advance.
\<close>

section \<open>Temperatures\<close>

definition degrees :: string where
  "degrees = [CHR 0xC2, CHR 0xB0, CHR ''C'']"

definition aquariumLight :: string where
  "aquariumLight = ''rgb105''"

definition tempPeriod :: int where
  "tempPeriod = 5 * 10 ^ 9"

definition tempUnknown :: string where
  "tempUnknown = ''--'' @ degrees"

definition aquariumTempQuery :: string where
  "aquariumTempQuery = ''max(s_rpc_mqtt_pill_temp{shelly_id='' @ [CHR 0x22] @ ''pill107'' @ [CHR 0x22] @ ''})''"

definition roomTempQuery :: string where
  "roomTempQuery = ''max(digitemp_temperature)''"

record cachedTemp =
  temp_value :: string
  temp_at :: "int option"   \<comment> \<open>\<open>None\<close>: the zero time\<close>

definition empty_temp :: cachedTemp where
  "empty_temp = \<lparr>temp_value = [], temp_at = None\<rparr>"

record 'w world_ops =
  clock :: "'w \<Rightarrow> int"
  queryInstant :: "string \<Rightarrow> 'w \<Rightarrow> (go_error + string) \<times> 'w"

definition fetchTemp :: "'w world_ops \<Rightarrow> string \<Rightarrow> 'w \<Rightarrow> (go_error + string) \<times> 'w" where
  "fetchTemp ops query w = (case queryInstant ops query w of
      (Inl e, w') \<Rightarrow> (Inl (the (Augment (Some e) ''failed to query temperature'' [])), w')
    | (Inr result, w') \<Rightarrow> (case parse_float result of
        None \<Rightarrow> (Inl (the (Augment (Some (Plain (''strconv.ParseFloat: parsing '' @ result)))
                   ''failed to parse temperature'' [(''result'', result)])), w')
      | Some parsed \<Rightarrow> (Inr (format_1f parsed @ degrees), w')))"

text \<open>Whether the cached value still counts.\<close>

definition fresh :: "'w world_ops \<Rightarrow> int \<Rightarrow> cachedTemp \<Rightarrow> 'w \<Rightarrow> bool" where
  "fresh ops p cached w = (case temp_at cached of None \<Rightarrow> False | Some t \<Rightarrow> clock ops w - t < p)"

definition temperature ::
  "'w world_ops \<Rightarrow> int \<Rightarrow> string \<Rightarrow> cachedTemp \<Rightarrow> 'w \<Rightarrow> string \<times> cachedTemp \<times> 'w" where
  "temperature ops p query cached w =
     (if fresh ops p cached w
      then (temp_value cached, cached, w)
      else (case fetchTemp ops query w of (r, w') \<Rightarrow>
        (let temp = (case r of Inl _ \<Rightarrow> tempUnknown | Inr t \<Rightarrow> t) in
         (temp, \<lparr>temp_value = temp, temp_at = Some (clock ops w')\<rparr>, w'))))"

definition tempEvent :: "string \<Rightarrow> string \<Rightarrow> string" where
  "tempEvent i temp = ''event: '' @ i @ [CHR 0x0A] @ ''data: '' @ temp @ [CHR 0x0A, CHR 0x0A]"

record home_scaffold =
  period :: int
  aquarium :: cachedTemp
  room :: cachedTemp

definition home_init :: home_scaffold where
  "home_init = \<lparr>period = tempPeriod, aquarium = empty_temp, room = empty_temp\<rparr>"

definition aquariumTemp :: "'w world_ops \<Rightarrow> home_scaffold \<Rightarrow> 'w \<Rightarrow> string \<times> home_scaffold \<times> 'w" where
  "aquariumTemp ops s w = (case temperature ops (period s) aquariumTempQuery (aquarium s) w of
     (t, c, w') \<Rightarrow> (t, s\<lparr>aquarium := c\<rparr>, w'))"

definition roomTemp :: "'w world_ops \<Rightarrow> home_scaffold \<Rightarrow> 'w \<Rightarrow> string \<times> home_scaffold \<times> 'w" where
  "roomTemp ops s w = (case temperature ops (period s) roomTempQuery (room s) w of
     (t, c, w') \<Rightarrow> (t, s\<lparr>room := c\<rparr>, w'))"

section \<open>Lights of a page\<close>

record light =
  ID :: string
  Dimmable :: bool
  Known :: bool
  On :: bool
  Light_Brightness :: int
  Temp :: string

definition lightFromStatus :: "pb_LightStatus \<Rightarrow> light" where
  "lightFromStatus status = \<lparr>ID = Status_Id status, Dimmable = Status_Dimmable status, Known = True,
     On = Status_On status, Light_Brightness = sint (GetBrightness status), Temp = []\<rparr>"

definition unknown_light :: "pb_Light \<Rightarrow> light" where
  "unknown_light l = \<lparr>ID = Light_Id l, Dimmable = Light_Dimmable l, Known = False, On = False,
     Light_Brightness = 0, Temp = []\<rparr>"

definition NextOn :: "light \<Rightarrow> string" where
  "NextOn l = format_bool (\<not> On l)"

definition Pressed :: "light \<Rightarrow> string" where
  "Pressed l = format_bool (On l)"

definition withTemp :: "'w world_ops \<Rightarrow> light \<Rightarrow> home_scaffold \<Rightarrow> 'w \<Rightarrow> light \<times> home_scaffold \<times> 'w" where
  "withTemp ops l s w =
     (if ID l = aquariumLight then (case aquariumTemp ops s w of (t, s', w') \<Rightarrow> (l\<lparr>Temp := t\<rparr>, s', w'))
      else (l, s, w))"

fun withTemps :: "'w world_ops \<Rightarrow> light list \<Rightarrow> home_scaffold \<Rightarrow> 'w \<Rightarrow> light list \<times> home_scaffold \<times> 'w" where
  "withTemps ops [] s w = ([], s, w)"
| "withTemps ops (l # ls) s w = (case withTemp ops l s w of (l', s', w') \<Rightarrow>
     (case withTemps ops ls s' w' of (ls', s'', w'') \<Rightarrow> (l' # ls', s'', w'')))"

text \<open>
  One goroutine per light fills in its own slot when its request has been answered; \<open>order\<close>
  is the order in which they finish, \<open>answers\<close> the answer to each request.
\<close>

definition fill :: "(nat \<Rightarrow> go_error + pb_LightStatus) \<Rightarrow> nat \<Rightarrow> light list \<Rightarrow> light list" where
  "fill answers i ls = (case answers i of Inl _ \<Rightarrow> ls | Inr status \<Rightarrow> ls[i := lightFromStatus status])"

definition fetchLights ::
  "'w world_ops \<Rightarrow> go_error + pb_Light list \<Rightarrow> (nat \<Rightarrow> go_error + pb_LightStatus) \<Rightarrow> nat list
    \<Rightarrow> home_scaffold \<Rightarrow> 'w \<Rightarrow> (go_error + light list) \<times> home_scaffold \<times> 'w" where
  "fetchLights ops listed answers order s w = (case listed of
      Inl e \<Rightarrow> (Inl (the (Augment (Some e) ''failed to list lights'' [])), s, w)
    | Inr ls \<Rightarrow> (case withTemps ops (fold (fill answers) order (map unknown_light ls)) s w of
        (shown, s', w') \<Rightarrow> (Inr shown, s', w')))"

section \<open>Handlers\<close>

datatype home_page = Home "light list" bool string | LightRow light

datatype response = HttpError string nat | Rendered home_page | Redirect string nat | Svg

definition home ::
  "'w world_ops \<Rightarrow> go_error + pb_Light list \<Rightarrow> (nat \<Rightarrow> go_error + pb_LightStatus) \<Rightarrow> nat list
    \<Rightarrow> home_scaffold \<Rightarrow> 'w \<Rightarrow> response \<times> home_scaffold \<times> 'w" where
  "home ops listed answers order s w = (case fetchLights ops listed answers order s w of
      (r, s', w') \<Rightarrow> (case roomTemp ops s' w' of (t, s'', w'') \<Rightarrow>
        (Rendered (case r of Inl _ \<Rightarrow> Home [] True t | Inr ls \<Rightarrow> Home ls False t), s'', w'')))"

definition floorplan :: response where
  "floorplan = Svg"

record light_form =
  path_id :: string
  form_on :: string
  form_brightness :: string
  row_only :: string

definition form_request :: "light_form \<Rightarrow> pb_SetLightRequest option" where
  "form_request f =
     (let on = (if form_on f \<noteq> [] then Some (form_on f = ''true'') else None) in
      if form_brightness f \<noteq> [] then (case atoi (form_brightness f) of
          None \<Rightarrow> None
        | Some parsed \<Rightarrow> Some \<lparr>Req_Id = path_id f, Req_On = on, Req_Brightness = Some (to_int32 parsed)\<rparr>)
      else Some \<lparr>Req_Id = path_id f, Req_On = on, Req_Brightness = None\<rparr>)"

definition home_setLight ::
  "'w world_ops \<Rightarrow> (pb_SetLightRequest \<Rightarrow> 'w \<Rightarrow> (go_error + pb_LightStatus) \<times> 'w) \<Rightarrow> light_form
    \<Rightarrow> home_scaffold \<Rightarrow> 'w \<Rightarrow> response \<times> home_scaffold \<times> 'w" where
  "home_setLight ops SetLight f s w = (case form_request f of
      None \<Rightarrow> (HttpError ''invalid brightness'' 400, s, w)
    | Some req \<Rightarrow> (case SetLight req w of
        (Inl e, w') \<Rightarrow> (HttpError (''failed to set '' @ Req_Id req) 502, s, w')
      | (Inr status, w') \<Rightarrow>
          if row_only f \<noteq> [] then (case withTemp ops (lightFromStatus status) s w' of
              (l, s', w'') \<Rightarrow> (Rendered (LightRow l), s', w''))
          else (Redirect ''/'' 303, s, w')))"

text \<open>The routes of a clean path; one that only matches a pattern of another method gets 405.\<close>

datatype route = RHome | RFloorplan | RSetLight string | RLightEvents | RNotFound | RMethodNotAllowed

definition MakeHTTPHandler :: "string \<Rightarrow> string \<Rightarrow> route" where
  "MakeHTTPHandler meth path =
     (let get = (meth = ''GET'' \<or> meth = ''HEAD'');
          seg = cut_prefix path ''/lights/'';
          i = (case seg of Some i \<Rightarrow> if i \<noteq> [] \<and> CHR ''/'' \<notin> set i then Some i else None | None \<Rightarrow> None) in
      if path = ''/'' then (if get then RHome else RMethodNotAllowed)
      else if path = ''/floorplan.svg'' then (if get then RFloorplan else RMethodNotAllowed)
      else if path = ''/lights/events'' \<and> get then RLightEvents
      else (case i of
          Some x \<Rightarrow> if meth = ''POST'' then RSetLight x else RMethodNotAllowed
        | None \<Rightarrow> RNotFound))"

section \<open>Server-sent events\<close>

definition renderLightEvent :: "(light \<Rightarrow> go_error + string) \<Rightarrow> light \<Rightarrow> go_error + string" where
  "renderLightEvent row l = (case row l of
      Inl e \<Rightarrow> Inl (the (Augment (Some e) ''failed to render light'' [(''id'', ID l)]))
    | Inr html \<Rightarrow> Inr (''event: light'' @ [CHR 0x0A]
        @ concat (map (\<lambda>line. ''data: '' @ line @ [CHR 0x0A]) (split html [CHR 0x0A])) @ [CHR 0x0A]))"

text \<open>
  The response writer: what was sent so far, and which sends fail (by their number).
\<close>

record writer =
  sent :: "string list"
  fails :: "nat \<Rightarrow> bool"

definition send :: "string \<Rightarrow> writer \<Rightarrow> bool \<times> writer" where
  "send ev wr = (if fails wr (length (sent wr)) then (False, wr) else (True, wr\<lparr>sent := sent wr @ [ev]\<rparr>))"

definition sendLight :: "(light \<Rightarrow> go_error + string) \<Rightarrow> light \<Rightarrow> writer \<Rightarrow> bool \<times> writer" where
  "sendLight row l wr = (case renderLightEvent row l of Inl _ \<Rightarrow> (False, wr) | Inr ev \<Rightarrow> send ev wr)"

fun sendAll :: "(light \<Rightarrow> go_error + string) \<Rightarrow> light list \<Rightarrow> writer \<Rightarrow> bool \<times> writer" where
  "sendAll row [] wr = (True, wr)"
| "sendAll row (l # ls) wr = (case sendLight row l wr of
     (ok, wr') \<Rightarrow> if ok then sendAll row ls wr' else (False, wr'))"

definition send_temp :: "string \<Rightarrow> string \<Rightarrow> (string \<rightharpoonup> string) \<times> writer \<Rightarrow> bool \<times> (string \<rightharpoonup> string) \<times> writer" where
  "send_temp i temp st = (case st of (prev, wr) \<Rightarrow>
     if prev i = Some temp then (True, prev, wr)
     else (case send (tempEvent i temp) wr of (ok, wr') \<Rightarrow> (ok, prev(i \<mapsto> temp), wr')))"

text \<open>
  \<^verbatim>\<open>sendTemps\<close>: Go visits the two thermometers in either order; \<open>room_first\<close> says which.
\<close>

definition sendTemps ::
  "'w world_ops \<Rightarrow> bool \<Rightarrow> home_scaffold \<Rightarrow> (string \<rightharpoonup> string) \<times> writer \<Rightarrow> 'w
    \<Rightarrow> bool \<times> home_scaffold \<times> ((string \<rightharpoonup> string) \<times> writer) \<times> 'w" where
  "sendTemps ops room_first s st w =
     (let aq = (''aquarium-temp'', aquariumTemp ops); rm = (''room-temp'', roomTemp ops);
          (i1, r1) = (if room_first then rm else aq); (i2, r2) = (if room_first then aq else rm) in
      case r1 s w of (t1, s1, w1) \<Rightarrow>
        (case send_temp i1 t1 st of (ok, st1) \<Rightarrow>
           if \<not> ok then (False, s1, st1, w1)
           else (case r2 s1 w1 of (t2, s2, w2) \<Rightarrow>
             (case send_temp i2 t2 st1 of (ok', st2) \<Rightarrow> (ok', s2, st2, w2)))))"

text \<open>
  The loop of \<^verbatim>\<open>lightEvents\<close>, one element per turn of its \<^verbatim>\<open>select\<close>; the stream ends when the
  context is done, the upstream closes or a send fails.
\<close>

datatype sse_turn = RequestDone | Ping | TempTick bool | Upstream "pb_LightStatus option"

fun sse_loop ::
  "'w world_ops \<Rightarrow> (light \<Rightarrow> go_error + string) \<Rightarrow> sse_turn list \<Rightarrow> home_scaffold
    \<Rightarrow> (string \<rightharpoonup> string) \<times> writer \<Rightarrow> 'w \<Rightarrow> home_scaffold \<times> ((string \<rightharpoonup> string) \<times> writer) \<times> 'w" where
  "sse_loop ops row [] s st w = (s, st, w)"
| "sse_loop ops row (RequestDone # ts) s st w = (s, st, w)"
| "sse_loop ops row (Ping # ts) s (prev, wr) w =
     (case send ('': ping'' @ [CHR 0x0A, CHR 0x0A]) wr of (ok, wr') \<Rightarrow>
        if ok then sse_loop ops row ts s (prev, wr') w else (s, (prev, wr'), w))"
| "sse_loop ops row (TempTick rf # ts) s st w =
     (case sendTemps ops rf s st w of (ok, s', st', w') \<Rightarrow>
        if ok then sse_loop ops row ts s' st' w' else (s', st', w'))"
| "sse_loop ops row (Upstream None # ts) s st w = (s, st, w)"
| "sse_loop ops row (Upstream (Some status) # ts) s (prev, wr) w =
     (case withTemp ops (lightFromStatus status) s w of (l, s', w') \<Rightarrow>
        (case sendLight row l wr of (ok, wr') \<Rightarrow>
           if ok then sse_loop ops row ts s' (prev, wr') w' else (s', (prev, wr'), w')))"

definition lightEvents ::
  "'w world_ops \<Rightarrow> (light \<Rightarrow> go_error + string) \<Rightarrow> err \<Rightarrow> err \<Rightarrow> go_error + pb_Light list
    \<Rightarrow> (nat \<Rightarrow> go_error + pb_LightStatus) \<Rightarrow> nat list \<Rightarrow> bool \<Rightarrow> sse_turn list \<Rightarrow> (nat \<Rightarrow> bool)
    \<Rightarrow> home_scaffold \<Rightarrow> 'w \<Rightarrow> (response + string list) \<times> home_scaffold \<times> 'w" where
  "lightEvents ops row watch_err header_err listed answers order rf turns failing s w =
     (if watch_err \<noteq> None \<or> header_err \<noteq> None then (Inl (HttpError ''failed to watch lights'' 502), s, w)
      else (case send ('': connected'' @ [CHR 0x0A, CHR 0x0A]) \<lparr>sent = [], fails = failing\<rparr> of (ok, wr) \<Rightarrow>
        if \<not> ok then (Inr (sent wr), s, w)
        else (case fetchLights ops listed answers order s w of
            (Inl e, s', w') \<Rightarrow> (Inr (sent wr), s', w')
          | (Inr shown, s', w') \<Rightarrow> (case sendAll row shown wr of (ok', wr') \<Rightarrow>
              if \<not> ok' then (Inr (sent wr'), s', w')
              else (case sendTemps ops rf s' (Map.empty, wr') w' of (ok'', s'', st, w'') \<Rightarrow>
                if \<not> ok'' then (Inr (sent (snd st)), s'', w'')
                else (case sse_loop ops row turns s'' st w'' of
                    (s3, (_, wr''), w3) \<Rightarrow> (Inr (sent wr''), s3, w3)))))))"

section \<open>Starting and stopping\<close>

definition web_home_OnShutdown :: "err \<Rightarrow> err \<Rightarrow> err" where
  "web_home_OnShutdown close_err serverErr = errors_Join
     [Augment close_err ''failed to close http server'' [], Augment serverErr ''failed to close server'' []]"

section \<open>Fetching lights\<close>

definition shown :: "(nat \<Rightarrow> go_error + pb_LightStatus) \<Rightarrow> pb_Light list \<Rightarrow> nat set \<Rightarrow> nat \<Rightarrow> light" where
  "shown answers ls done i = (case answers i of
      Inr status \<Rightarrow> if i \<in> done then lightFromStatus status else unknown_light (ls ! i)
    | Inl _ \<Rightarrow> unknown_light (ls ! i))"

lemma fill_shown:
  "fill answers i (map (shown answers ls D) [0..<n]) = map (shown answers ls (insert i D)) [0..<n]"
proof (cases "i < n")
  case True
  then show ?thesis
    by (intro nth_equalityI) (auto simp: fill_def shown_def nth_list_update split: sum.splits)
next
  case False
  then have "fill answers i (map (shown answers ls D) [0..<n]) = map (shown answers ls D) [0..<n]"
    by (simp add: fill_def list_update_beyond split: sum.splits)
  with False show ?thesis by (auto simp: shown_def split: sum.splits)
qed

lemma fold_fill:
  "fold (fill answers) order (map (shown answers ls D) [0..<n]) = map (shown answers ls (set order \<union> D)) [0..<n]"
  by (induction order arbitrary: D) (simp_all add: fill_shown)

lemma fold_fill_unknown:
  "fold (fill answers) order (map unknown_light ls) = map (shown answers ls (set order)) [0..<length ls]"
proof -
  have "map unknown_light ls = map (shown answers ls {}) [0..<length ls]"
    by (rule nth_equalityI) (auto simp: shown_def split: sum.splits)
  then show ?thesis by (simp add: fold_fill)
qed

section \<open>Reading events\<close>

text \<open>How a browser reads one event: field lines up to the first blank line.\<close>

definition sse_field :: "string \<Rightarrow> string \<times> string" where
  "sse_field line = (case split_first line (CHR '':'') of
      [f, v] \<Rightarrow> (f, case v of c # v' \<Rightarrow> if c = CHR '' '' then v' else v | [] \<Rightarrow> [])
    | _ \<Rightarrow> (line, []))"

definition sse_parse :: "string \<Rightarrow> string \<times> string" where
  "sse_parse ev =
     (let fs = map sse_field (takeWhile (\<lambda>l. l \<noteq> []) (split ev [CHR 0x0A])) in
      (concat (map snd (filter (\<lambda>f. fst f = ''event'') fs)),
       join (map snd (filter (\<lambda>f. fst f = ''data'') fs)) [CHR 0x0A]))"

lemma sse_field_simps [simp]:
  "sse_field (''data: '' @ x) = (''data'', x)" "sse_field (''event: '' @ x) = (''event'', x)"
  by (simp_all add: sse_field_def)

lemma split_lines:
  "\<forall>l \<in> set ls. c \<notin> set l \<Longrightarrow> split (concat (map (\<lambda>l. l @ [c]) ls) @ rest) [c] = ls @ split rest [c]"
proof (induction ls)
  case Nil
  show ?case by simp
next
  case (Cons l ls)
  then show ?case using split_char_append [of c l "concat (map (\<lambda>l. l @ [c]) ls) @ rest"] by simp
qed

lemma sse_parse_lines:
  assumes "\<forall>x \<in> set xs. CHR 0x0A \<notin> set x" "CHR 0x0A \<notin> set t"
  shows "sse_parse ((''event: '' @ t @ [CHR 0x0A]) @ concat (map (\<lambda>x. ''data: '' @ x @ [CHR 0x0A]) xs) @ [CHR 0x0A])
    = (t, join xs [CHR 0x0A])"
proof -
  let ?ls = "(''event: '' @ t) # map (\<lambda>x. ''data: '' @ x) xs"
  let ?ev = "(''event: '' @ t @ [CHR 0x0A]) @ concat (map (\<lambda>x. ''data: '' @ x @ [CHR 0x0A]) xs) @ [CHR 0x0A]"
  have ev: "?ev = concat (map (\<lambda>l. l @ [CHR 0x0A]) ?ls) @ [CHR 0x0A]"
    by (simp add: comp_def)
  have "split (concat (map (\<lambda>l. l @ [CHR 0x0A]) ?ls) @ [CHR 0x0A]) [CHR 0x0A] = ?ls @ split [CHR 0x0A] [CHR 0x0A]"
    by (rule split_lines) (use assms in auto)
  also have "split [CHR 0x0A] [CHR 0x0A] = [[], []]" by (simp add: split_char_Cons)
  finally have s: "takeWhile (\<lambda>l. l \<noteq> []) (split (concat (map (\<lambda>l. l @ [CHR 0x0A]) ?ls) @ [CHR 0x0A]) [CHR 0x0A]) = ?ls"
    by (simp add: takeWhile_tail takeWhile_eq_all_conv)
  have f: "map sse_field ?ls = (''event'', t) # map (Pair ''data'') xs"
    by (simp only: list.map sse_field_simps map_map comp_def)
  from s have s': "takeWhile (\<lambda>l. l \<noteq> []) (split ?ev [CHR 0x0A]) = ?ls" by (simp only: ev)
  show ?thesis
    unfolding sse_parse_def s' f Let_def by (simp add: filter_map comp_def)
qed

section \<open>Time between queries\<close>

text \<open>
  A sequence of reads of one thermometer with other activity between them: the times at which
  Prometheus was asked.
\<close>

fun query_times ::
  "'w world_ops \<Rightarrow> int \<Rightarrow> string \<Rightarrow> ('w \<Rightarrow> 'w) list \<Rightarrow> cachedTemp \<Rightarrow> 'w \<Rightarrow> int list" where
  "query_times ops p q [] c w = []"
| "query_times ops p q (f # fs) c w =
     (case temperature ops p q c (f w) of (_, c', w') \<Rightarrow>
        (if fresh ops p c (f w) then [] else [clock ops (f w)])
        @ query_times ops p q fs c' w')"

lemma temperature_time:
  assumes "\<forall>q w. clock ops w \<le> clock ops (snd (queryInstant ops q w))"
    "temperature ops p q c w = (t, c', w')"
  shows "clock ops w \<le> clock ops w'
    \<and> (if fresh ops p c w then c' = c \<and> w' = w else temp_at c' = Some (clock ops w'))"
proof -
  obtain r w1 where q: "queryInstant ops q w = (r, w1)" by fastforce
  have "clock ops w \<le> clock ops w1" using assms(1) q by (metis snd_conv)
  with assms(2) q show ?thesis
    by (auto simp: temperature_def fetchTemp_def Let_def split: if_splits sum.splits option.splits)
qed

lemma query_times_apart:
  assumes "\<forall>q w. clock ops w \<le> clock ops (snd (queryInstant ops q w))"
    "\<forall>f \<in> set fs. \<forall>w. clock ops w \<le> clock ops (f w)"
    "\<forall>t. temp_at c = Some t \<longrightarrow> lo \<le> t" "lo \<le> clock ops w"
  shows "sorted_wrt (\<lambda>x y. x + p \<le> y) (query_times ops p q fs c w)
    \<and> (\<forall>x \<in> set (query_times ops p q fs c w). lo \<le> x \<and> (\<forall>t. temp_at c = Some t \<longrightarrow> t + p \<le> x))"
  using assms(2-4)
proof (induction fs arbitrary: c w lo)
  case Nil
  then show ?case by simp
next
  case (Cons f fs)
  obtain t c' w' where t: "temperature ops p q c (f w) = (t, c', w')" by (metis prod_cases3)
  from temperature_time [OF assms(1) this] have m: "clock ops (f w) \<le> clock ops w'"
    and cs: "if fresh ops p c (f w) then c' = c \<and> w' = f w else temp_at c' = Some (clock ops w')" by auto
  have fw: "clock ops w \<le> clock ops (f w)" using Cons.prems(1) by simp
  show ?case
  proof (cases "fresh ops p c (f w)")
    case True
    with cs fw Cons.prems have "sorted_wrt (\<lambda>x y. x + p \<le> y) (query_times ops p q fs c (f w))
        \<and> (\<forall>x \<in> set (query_times ops p q fs c (f w)). lo \<le> x \<and> (\<forall>t. temp_at c = Some t \<longrightarrow> t + p \<le> x))"
      by (intro Cons.IH) (auto intro: order_trans)
    with True t cs show ?thesis by simp
  next
    case False
    with cs have at: "temp_at c' = Some (clock ops w')" by simp
    have IH: "sorted_wrt (\<lambda>x y. x + p \<le> y) (query_times ops p q fs c' w')
        \<and> (\<forall>x \<in> set (query_times ops p q fs c' w'). clock ops w' \<le> x \<and> (\<forall>t. temp_at c' = Some t \<longrightarrow> t + p \<le> x))"
      by (rule Cons.IH) (use at Cons.prems in auto)
    have old: "temp_at c = Some t0 \<Longrightarrow> t0 + p \<le> clock ops (f w)" for t0
      using False by (simp add: fresh_def)
    have "query_times ops p q (f # fs) c w = clock ops (f w) # query_times ops p q fs c' w'"
      using False t by simp
    with IH at m fw Cons.prems(3) old show ?thesis by (fastforce intro: order_trans)
  qed
qed

section \<open>The stream of a page\<close>

definition connected_event :: string where
  "connected_event = '': connected'' @ [CHR 0x0A, CHR 0x0A]"

definition light_event :: "string \<Rightarrow> string" where
  "light_event html = ''event: light'' @ [CHR 0x0A]
     @ concat (map (\<lambda>line. ''data: '' @ line @ [CHR 0x0A]) (split html [CHR 0x0A])) @ [CHR 0x0A]"

definition thermometers :: "string set" where
  "thermometers = {''aquarium-temp'', ''room-temp''}"

definition temp_events :: "string \<Rightarrow> string list \<Rightarrow> string list" where
  "temp_events i evs = filter (\<lambda>e. has_prefix e (''event: '' @ i @ [CHR 0x0A])) evs"

lemma temp_events_append [simp]: "temp_events i (xs @ ys) = temp_events i xs @ temp_events i ys"
  by (simp add: temp_events_def)

lemma temp_events_other:
  assumes "i \<in> thermometers"
  shows "temp_events i [light_event html] = []" "temp_events i ['': '' @ x] = []"
    "j \<in> thermometers \<Longrightarrow> temp_events i [tempEvent j t] = (if i = j then [tempEvent j t] else [])"
  using assms by (auto simp: temp_events_def thermometers_def light_event_def tempEvent_def)

lemma temp_events_rows:
  assumes "i \<in> thermometers"
  shows "temp_events i (map (\<lambda>l. light_event (html l)) ls) = []"
proof (induction ls)
  case (Cons l ls)
  then show ?case
    using temp_events_append [of i "[light_event (html l)]" "map (\<lambda>l. light_event (html l)) ls"]
      temp_events_other(1) [OF assms] by simp
qed (simp add: temp_events_def)

text \<open>What \<open>lastTemps\<close> says is what the page was told last, and nothing was told twice.\<close>

definition told :: "(string \<rightharpoonup> string) \<Rightarrow> string list \<Rightarrow> bool" where
  "told prev evs \<longleftrightarrow> (\<forall>i \<in> thermometers. distinct_adj (temp_events i evs)
     \<and> (case prev i of None \<Rightarrow> temp_events i evs = []
        | Some t \<Rightarrow> temp_events i evs \<noteq> [] \<and> last (temp_events i evs) = tempEvent i t))"

definition no_repeats :: "string list \<Rightarrow> bool" where
  "no_repeats evs \<longleftrightarrow> (\<forall>i \<in> thermometers. distinct_adj (temp_events i evs))"

lemma told_no_repeats: "told prev evs \<Longrightarrow> no_repeats evs"
  by (simp add: told_def no_repeats_def)

lemma send_result: "send ev wr = (ok, wr') \<Longrightarrow> sent wr' = (if ok then sent wr @ [ev] else sent wr) \<and> fails wr' = fails wr"
  by (auto simp: send_def split: if_splits)

lemma tempEvent_inj: "tempEvent i t = tempEvent i u \<longleftrightarrow> t = u"
  by (simp add: tempEvent_def)

lemma distinct_adj_snoc: "distinct_adj (xs @ [y]) \<longleftrightarrow> distinct_adj xs \<and> (xs = [] \<or> last xs \<noteq> y)"
  by (auto simp: distinct_adj_append_iff)

lemma send_temp_told:
  assumes "told prev (sent wr)" "i \<in> thermometers" "send_temp i t (prev, wr) = (ok, prev', wr')"
  shows "no_repeats (sent wr') \<and> (ok \<longrightarrow> told prev' (sent wr'))"
proof (cases "prev i = Some t")
  case True
  with assms show ?thesis by (auto simp: send_temp_def told_no_repeats)
next
  case False
  with assms(3) obtain s: "send (tempEvent i t) wr = (ok, wr')" and p: "prev' = prev(i \<mapsto> t)"
    by (auto simp: send_temp_def split: prod.splits)
  show ?thesis
  proof (cases ok)
    case True
    have "told prev' (sent wr @ [tempEvent i t])"
      unfolding told_def
    proof (intro ballI)
      fix j assume j: "j \<in> thermometers"
      with assms(1) have "distinct_adj (temp_events j (sent wr)) \<and> (case prev j of None \<Rightarrow> temp_events j (sent wr) = []
          | Some t \<Rightarrow> temp_events j (sent wr) \<noteq> [] \<and> last (temp_events j (sent wr)) = tempEvent j t)"
        by (simp add: told_def)
      then show "distinct_adj (temp_events j (sent wr @ [tempEvent i t])) \<and> (case prev' j of
          None \<Rightarrow> temp_events j (sent wr @ [tempEvent i t]) = []
        | Some u \<Rightarrow> temp_events j (sent wr @ [tempEvent i t]) \<noteq> []
            \<and> last (temp_events j (sent wr @ [tempEvent i t])) = tempEvent j u)"
        using temp_events_other(3) [OF j assms(2), of t] False p
        by (auto simp: distinct_adj_snoc tempEvent_inj split: option.splits)
    qed
    with True s send_result [OF s] show ?thesis by (auto dest: told_no_repeats)
  next
    case False
    with assms(1) send_result [OF s] show ?thesis by (auto dest: told_no_repeats)
  qed
qed

lemma thermometer_ids [simp]: "''aquarium-temp'' \<in> thermometers" "''room-temp'' \<in> thermometers"
  by (simp_all add: thermometers_def)

lemma sendTemps_told:
  assumes "told prev (sent wr)" "sendTemps ops rf s (prev, wr) w = (ok, s', (prev', wr'), w')"
  shows "no_repeats (sent wr') \<and> (ok \<longrightarrow> told prev' (sent wr'))"
proof -
  let ?i1 = "if rf then ''room-temp'' else ''aquarium-temp''" and ?i2 = "if rf then ''aquarium-temp'' else ''room-temp''"
  let ?r1 = "if rf then roomTemp ops else aquariumTemp ops" and ?r2 = "if rf then aquariumTemp ops else roomTemp ops"
  obtain t1 s1 w1 where r1: "?r1 s w = (t1, s1, w1)" by (metis prod_cases3)
  obtain t2 s2 w2 where r2: "?r2 s1 w1 = (t2, s2, w2)" by (metis prod_cases3)
  obtain ok1 p1 wr1 where e1: "send_temp ?i1 t1 (prev, wr) = (ok1, p1, wr1)" by (metis prod_cases3)
  obtain ok2 p2 wr2 where e2: "send_temp ?i2 t2 (p1, wr1) = (ok2, p2, wr2)" by (metis prod_cases3)
  have m: "?i1 \<in> thermometers" "?i2 \<in> thermometers" by simp_all
  from send_temp_told [OF assms(1) m(1) e1] have one: "no_repeats (sent wr1)" "ok1 \<longrightarrow> told p1 (sent wr1)" by auto
  show ?thesis
  proof (cases ok1)
    case True
    with one send_temp_told [OF _ m(2) e2] have "no_repeats (sent wr2) \<and> (ok2 \<longrightarrow> told p2 (sent wr2))" by blast
    with True assms(2) r1 r2 e1 e2 show ?thesis by (cases rf) (simp_all add: sendTemps_def)
  next
    case False
    with one assms(2) r1 e1 show ?thesis by (cases rf) (auto simp: sendTemps_def)
  qed
qed

lemma told_other:
  assumes "told prev evs" "\<And>i. i \<in> thermometers \<Longrightarrow> temp_events i [e] = []"
  shows "told prev (evs @ [e])"
  unfolding told_def
proof (intro ballI)
  fix i assume i: "i \<in> thermometers"
  with assms(1) have "distinct_adj (temp_events i evs) \<and> (case prev i of None \<Rightarrow> temp_events i evs = []
      | Some t \<Rightarrow> temp_events i evs \<noteq> [] \<and> last (temp_events i evs) = tempEvent i t)"
    by (simp add: told_def)
  with assms(2) [OF i] show "distinct_adj (temp_events i (evs @ [e])) \<and> (case prev i of
      None \<Rightarrow> temp_events i (evs @ [e]) = []
    | Some t \<Rightarrow> temp_events i (evs @ [e]) \<noteq> [] \<and> last (temp_events i (evs @ [e])) = tempEvent i t)"
    by (cases "prev i") simp_all
qed

lemma renderLightEvent_event: "renderLightEvent row l = Inr ev \<Longrightarrow> \<exists>html. row l = Inr html \<and> ev = light_event html"
  by (auto simp: renderLightEvent_def light_event_def split: sum.splits)

lemma sendLight_told:
  assumes "told prev (sent wr)" "sendLight row l wr = (ok, wr')"
  shows "told prev (sent wr')"
proof (cases "renderLightEvent row l")
  case (Inr ev)
  then obtain html where "ev = light_event html" using renderLightEvent_event by blast
  with Inr assms send_result [of ev wr ok wr'] temp_events_other(1) show ?thesis
    by (auto simp: sendLight_def intro!: told_other)
qed (use assms in \<open>auto simp: sendLight_def\<close>)

lemma sendAll_told: "told prev (sent wr) \<Longrightarrow> sendAll row ls wr = (ok, wr') \<Longrightarrow> told prev (sent wr')"
  by (induction row ls wr rule: sendAll.induct) (auto split: prod.splits if_splits dest: sendLight_told)

lemma sse_loop_told:
  "told prev (sent wr) \<Longrightarrow> sse_loop ops row ts s (prev, wr) w = (s', (prev', wr'), w') \<Longrightarrow> no_repeats (sent wr')"
proof (induction ops row ts s "(prev, wr)" w arbitrary: prev wr rule: sse_loop.induct)
  case (3 ops row ts s prev wr w)
  obtain ok wr1 where p: "send ('': ping'' @ [CHR 0x0A, CHR 0x0A]) wr = (ok, wr1)" by fastforce
  have "told prev (sent wr1)"
    using send_result [OF p] 3(2) temp_events_other(2) [of _ "''ping'' @ [CHR 0x0A, CHR 0x0A]"]
    by (auto intro!: told_other)
  with 3 p show ?case by (cases ok) (auto dest: told_no_repeats)
next
  case (4 ops row rf ts s w)
  obtain ok s1 prev1 wr1 w1 where t: "sendTemps ops rf s (prev, wr) w = (ok, s1, (prev1, wr1), w1)"
    by (metis surj_pair)
  with 4 sendTemps_told [OF 4(2) t] show ?case by (cases ok) auto
next
  case (6 ops row status ts s prev wr w)
  obtain l s1 w1 where l: "withTemp ops (lightFromStatus status) s w = (l, s1, w1)" by (metis prod_cases3)
  obtain ok wr1 where d: "sendLight row l wr = (ok, wr1)" by fastforce
  with sendLight_told [OF 6(2)] have "told prev (sent wr1)" by blast
  with 6 l d show ?case by (cases ok) (auto dest: told_no_repeats)
qed (auto dest: told_no_repeats)

text \<open>A stream over a failing connection is the beginning of the one over a good connection.\<close>

lemma send_grows: "send ev wr = (ok, wr') \<Longrightarrow> prefix (sent wr) (sent wr')"
  by (auto simp: send_def split: if_splits)

lemma sendAll_grows: "sendAll row ls wr = (ok, wr') \<Longrightarrow> prefix (sent wr) (sent wr')"
  by (induction row ls wr rule: sendAll.induct)
    (auto simp: sendLight_def split: prod.splits if_splits sum.splits dest!: send_grows intro: prefix_order.trans)

lemma send_temp_grows: "send_temp i t (prev, wr) = (ok, prev', wr') \<Longrightarrow> prefix (sent wr) (sent wr')"
  by (auto simp: send_temp_def split: prod.splits if_splits dest!: send_grows)

lemma sendTemps_grows: "sendTemps ops rf s (prev, wr) w = (ok, s', (prev', wr'), w') \<Longrightarrow> prefix (sent wr) (sent wr')"
  by (cases rf) (auto simp: sendTemps_def split: prod.splits if_splits dest!: send_temp_grows intro: prefix_order.trans)

lemma sse_loop_grows:
  "sse_loop ops row ts s (prev, wr) w = (s', (prev', wr'), w') \<Longrightarrow> prefix (sent wr) (sent wr')"
proof (induction ops row ts s "(prev, wr)" w arbitrary: prev wr rule: sse_loop.induct)
  case (4 ops row rf ts s w)
  obtain ok s1 prev1 wr1 w1 where t: "sendTemps ops rf s (prev, wr) w = (ok, s1, (prev1, wr1), w1)"
    by (metis surj_pair)
  with 4 sendTemps_grows [OF t] show ?case by (cases ok) (auto intro: prefix_order.trans)
qed (auto simp: sendLight_def split: prod.splits if_splits sum.splits dest!: send_grows intro: prefix_order.trans)

definition good :: "writer \<Rightarrow> writer" where
  "good wr = wr\<lparr>fails := \<lambda>_. False\<rparr>"

lemma sent_good [simp]: "sent (good wr) = sent wr"
  by (simp add: good_def)

lemma send_good: "send ev (good wr) = (True, good (wr\<lparr>sent := sent wr @ [ev]\<rparr>))"
  by (simp add: send_def good_def)

lemma send_cut: "send ev wr = (ok, wr') \<Longrightarrow> if ok then send ev (good wr) = (True, good wr') else wr' = wr"
  by (auto simp: send_good) (auto simp: send_def split: if_splits)

lemma sendLight_cut:
  "sendLight row l wr = (ok, wr') \<Longrightarrow> if ok then sendLight row l (good wr) = (True, good wr') else wr' = wr"
  using send_cut by (fastforce simp: sendLight_def split: sum.splits)

lemma sendAll_cut:
  "sendAll row ls wr = (ok, wr') \<Longrightarrow> sendAll row ls (good wr) = (ok0, wr0) \<Longrightarrow>
     (if ok then ok0 \<and> wr0 = good wr' else prefix (sent wr') (sent wr0))"
proof (induction row ls wr arbitrary: ok0 wr0 rule: sendAll.induct)
  case (2 row l ls wr)
  obtain ok1 wr1 where d: "sendLight row l wr = (ok1, wr1)" by fastforce
  show ?case
  proof (cases ok1)
    case True
    with d sendLight_cut [OF d] have g: "sendLight row l (good wr) = (True, good wr1)" by simp
    from 2(2,3) d g True have "sendAll row ls wr1 = (ok, wr')" "sendAll row ls (good wr1) = (ok0, wr0)" by simp_all
    with 2(1) [OF d [symmetric] True] True show ?thesis by simp
  next
    case False
    with 2 d sendLight_cut [OF d] sendAll_grows [OF 2(3)] show ?thesis by auto
  qed
qed auto

lemma send_temp_cut:
  assumes "send_temp i t (prev, wr) = (ok, prev', wr')"
  shows "if ok then send_temp i t (prev, good wr) = (True, prev', good wr') else sent wr' = sent wr"
  using assms send_cut [of "tempEvent i t" wr] by (auto simp: send_temp_def split: prod.splits if_splits)

lemma sendTemps_cut:
  assumes "sendTemps ops rf s (prev, wr) w = (ok, s', (prev', wr'), w')"
    and "sendTemps ops rf s (prev, good wr) w = (ok0, s0, (prev0, wr0), w0)"
  shows "if ok then ok0 \<and> s0 = s' \<and> prev0 = prev' \<and> wr0 = good wr' \<and> w0 = w' else prefix (sent wr') (sent wr0)"
proof -
  let ?i1 = "if rf then ''room-temp'' else ''aquarium-temp''" and ?i2 = "if rf then ''aquarium-temp'' else ''room-temp''"
  let ?r1 = "if rf then roomTemp ops else aquariumTemp ops" and ?r2 = "if rf then aquariumTemp ops else roomTemp ops"
  obtain t1 s1 w1 where r1: "?r1 s w = (t1, s1, w1)" by (metis prod_cases3)
  obtain t2 s2 w2 where r2: "?r2 s1 w1 = (t2, s2, w2)" by (metis prod_cases3)
  obtain ok1 p1 wr1 where e1: "send_temp ?i1 t1 (prev, wr) = (ok1, p1, wr1)" by (metis prod_cases3)
  obtain ok2 p2 wr2 where e2: "send_temp ?i2 t2 (p1, wr1) = (ok2, p2, wr2)" by (metis prod_cases3)
  have run: "sendTemps ops rf s (prev, wr) w =
      (if ok1 then (ok2, s2, (p2, wr2), w2) else (False, s1, (p1, wr1), w1))"
    using r1 r2 e1 e2 by (cases rf) (simp_all add: sendTemps_def)
  show ?thesis
  proof (cases ok1)
    case False
    with send_temp_cut [OF e1] sendTemps_grows [OF assms(2)] run assms(1) show ?thesis by simp
  next
    case True
    with send_temp_cut [OF e1] have g1: "send_temp ?i1 t1 (prev, good wr) = (True, p1, good wr1)" by simp
    obtain ok3 p3 wr3 where e3: "send_temp ?i2 t2 (p1, good wr1) = (ok3, p3, wr3)" by (metis prod_cases3)
    have run0: "sendTemps ops rf s (prev, good wr) w = (ok3, s2, (p3, wr3), w2)"
      using r1 r2 g1 e3 by (cases rf) (simp_all add: sendTemps_def)
    with send_temp_cut [OF e2] send_temp_grows [OF e3] e3 True run assms show ?thesis by (auto split: if_splits)
  qed
qed

lemma sse_loop_cut:
  "sse_loop ops row ts s (prev, wr) w = (s', (prev', wr'), w')
    \<Longrightarrow> sse_loop ops row ts s (prev, good wr) w = (s0, (prev0, wr0), w0) \<Longrightarrow> prefix (sent wr') (sent wr0)"
proof (induction ops row ts s "(prev, wr)" w arbitrary: prev wr s0 prev0 wr0 w0 rule: sse_loop.induct)
  case (3 ops row ts s prev wr w)
  obtain ok wr1 where p: "send ('': ping'' @ [CHR 0x0A, CHR 0x0A]) wr = (ok, wr1)" by fastforce
  show ?case
  proof (cases ok)
    case True
    with p send_cut [OF p] 3(2,3) show ?thesis by (auto intro: 3(1) [OF p [symmetric] True])
  next
    case False
    with p send_cut [OF p] 3(2) sse_loop_grows [OF 3(3)] show ?thesis by simp
  qed
next
  case (4 ops row rf ts s w)
  obtain ok s1 prev1 wr1 w1 where t: "sendTemps ops rf s (prev, wr) w = (ok, s1, (prev1, wr1), w1)"
    by (metis surj_pair)
  obtain ok2 s2 prev2 wr2 w2 where t0: "sendTemps ops rf s (prev, good wr) w = (ok2, s2, (prev2, wr2), w2)"
    by (metis surj_pair)
  note c = sendTemps_cut [OF t t0]
  show ?case
  proof (cases ok)
    case True
    with t t0 c 4(2,3) show ?thesis
      by (auto intro: 4(1) [OF t [symmetric] refl refl True])
  next
    case False
    have "prefix (sent wr2) (sent wr0)"
      using 4(3) t0 by (cases ok2) (auto dest: sse_loop_grows)
    with False t c 4(2) show ?thesis by (auto intro: prefix_order.trans)
  qed
next
  case (6 ops row status ts s prev wr w)
  obtain l s1 w1 where l: "withTemp ops (lightFromStatus status) s w = (l, s1, w1)" by (metis prod_cases3)
  obtain ok wr1 where d: "sendLight row l wr = (ok, wr1)" by fastforce
  show ?case
  proof (cases ok)
    case True
    with l d sendLight_cut [OF d] 6(2,3) show ?thesis
      by (auto intro: 6(1) [OF l [symmetric] refl d [symmetric] True])
  next
    case False
    with l d sendLight_cut [OF d] 6(2) sse_loop_grows [OF 6(3)] show ?thesis by simp
  qed
qed simp_all

lemma sendAll_rows:
  "sendAll (\<lambda>l. Inr (html l)) ls (good wr) = (True, good (wr\<lparr>sent := sent wr @ map (\<lambda>l. light_event (html l)) ls\<rparr>))"
  by (induction ls arbitrary: wr) (simp_all add: sendLight_def renderLightEvent_def light_event_def send_good)

section \<open>Properties\<close>



text \<open>
  Concurrent fetching of the lights is race free: whatever the order in which the answers
  arrive, the page shows, for each listed light in list order, the status that was answered
  for it, or the light as unknown if its request failed.
\<close>

theorem fetchLights_order_independent:
  assumes "set order = {..<length ls}"
  shows "fetchLights ops (Inr ls) answers order s w =
    (case withTemps ops (map (\<lambda>i. case answers i of Inr status \<Rightarrow> lightFromStatus status
                                 | Inl _ \<Rightarrow> unknown_light (ls ! i)) [0..<length ls]) s w of
       (page, s', w') \<Rightarrow> (Inr page, s', w'))"
proof -
  have "map (shown answers ls (set order)) [0..<length ls] = map (\<lambda>i. case answers i of
      Inr status \<Rightarrow> lightFromStatus status | Inl _ \<Rightarrow> unknown_light (ls ! i)) [0..<length ls]"
    using assms by (auto simp: shown_def split: sum.splits)
  then show ?thesis by (simp only: fetchLights_def fold_fill_unknown sum.case)
qed

theorem fetchLights_order_independent_witness:
  "fetchLights \<lparr>clock = (\<lambda>_. 0), queryInstant = (\<lambda>q w. (Inr ''21.5'', w))\<rparr>
       (Inr listLights) (\<lambda>_. Inl (Plain ''offline'')) [4, 2, 0, 1, 3] home_init ()
     = fetchLights \<lparr>clock = (\<lambda>_. 0), queryInstant = (\<lambda>q w. (Inr ''21.5'', w))\<rparr>
       (Inr listLights) (\<lambda>_. Inl (Plain ''offline'')) [0, 1, 2, 3, 4] home_init ()"
proof -
  have n: "length listLights = 5" by (simp add: listLights_def lights_def)
  have five: "{..<5} = {0, 1, 2, 3, 4::nat}" by auto
  show ?thesis
    by (rule trans [OF fetchLights_order_independent fetchLights_order_independent [symmetric]])
      (auto simp: n five)
qed

text \<open>
  C31: a browser that reads the server-sent event of a rendered light gets an event of type
  \<^verbatim>\<open>light\<close> whose data is the rendered row, line breaks included; and the event of a thermometer
  carries its element id and its reading. (A browser also ends a line at a carriage return,
  which rendered rows do not contain.)
\<close>

theorem sse_roundtrip:
  assumes "row l = Inr html" "CHR 0x0A \<notin> set i" "CHR 0x0A \<notin> set temp"
  shows "\<exists>ev. renderLightEvent row l = Inr ev \<and> sse_parse ev = (''light'', html)
    \<and> sse_parse (tempEvent i temp) = (i, temp)"
proof -
  let ?ev = "''event: light'' @ [CHR 0x0A]
        @ concat (map (\<lambda>line. ''data: '' @ line @ [CHR 0x0A]) (split html [CHR 0x0A])) @ [CHR 0x0A]"
  have "sse_parse ?ev = (''light'', html)"
    using sse_parse_lines [of "split html [CHR 0x0A]" "''light''"] split_char_pieces [of _ html "CHR 0x0A"]
    by (simp add: join_split)
  moreover have "sse_parse (tempEvent i temp) = (i, temp)"
    using sse_parse_lines [of "[temp]" i] assms by (simp add: tempEvent_def)
  ultimately show ?thesis using assms(1) by (simp add: renderLightEvent_def)
qed

theorem sse_roundtrip_witness:
  "\<exists>ev. renderLightEvent (\<lambda>_. Inr [CHR ''a'', CHR 0x0A, CHR ''b'']) (unknown_light \<lparr>Light_Id = ''x'', Light_Dimmable = False\<rparr>) = Inr ev
     \<and> sse_parse ev = (''light'', [CHR ''a'', CHR 0x0A, CHR ''b''])
     \<and> sse_parse (tempEvent ''room-temp'' tempUnknown) = (''room-temp'', tempUnknown)"
  by (rule sse_roundtrip) (simp_all add: tempUnknown_def degrees_def)

lemma fetchLights_lists: "\<exists>page s1 w1. fetchLights ops (Inr ls) answers order s w = (Inr page, s1, w1)"
  by (auto simp: fetchLights_def split: prod.splits)

lemma distinct_adj_prefix: "prefix xs ys \<Longrightarrow> distinct_adj ys \<Longrightarrow> distinct_adj xs"
  by (auto simp: prefix_def distinct_adj_append_iff)

lemma no_repeats_prefix: "prefix xs ys \<Longrightarrow> no_repeats ys \<Longrightarrow> no_repeats xs"
  unfolding no_repeats_def temp_events_def by (meson distinct_adj_prefix filter_mono_prefix)

text \<open>The stream over a good connection, and any other one beside it.\<close>

lemma lightEvents_steps:
  assumes "fetchLights ops (Inr ls) answers order s w = (Inr page, s1, w1)"
    and "send connected_event \<lparr>sent = [], fails = f\<rparr> = (ok1, wr1)" "sendAll row page wr1 = (ok2, wr2)"
    and "sendTemps ops rf s1 (Map.empty, wr2) w1 = (ok3, s3, (prev3, wr3), w3)"
    and "sse_loop ops row turns s3 (prev3, wr3) w3 = (s4, (prev4, wr4), w4)"
  shows "fst (lightEvents ops row None None (Inr ls) answers order rf turns f s w) =
    Inr (sent (if \<not> ok1 then wr1 else if \<not> ok2 then wr2 else if \<not> ok3 then wr3 else wr4))"
  using assms unfolding lightEvents_def connected_event_def by simp

lemma lightEvents_streams:
  "\<exists>evs. fst (lightEvents ops row None None (Inr ls) answers order rf turns f s w) = Inr evs"
proof -
  obtain page s1 w1 where "fetchLights ops (Inr ls) answers order s w = (Inr page, s1, w1)"
    using fetchLights_lists [of ops ls answers order s w] by blast
  from lightEvents_steps [OF this] show ?thesis by (metis surj_pair)
qed

lemma lightEvents_good:
  assumes "fetchLights ops (Inr ls) answers order s w = (Inr page, s1, w1)"
  shows "\<exists>rest. fst (lightEvents ops (\<lambda>l. Inr (html l)) None None (Inr ls) answers order rf turns (\<lambda>_. False) s w)
        = Inr (connected_event # map (\<lambda>l. light_event (html l)) page @ rest)
    \<and> no_repeats (connected_event # map (\<lambda>l. light_event (html l)) page @ rest)"
proof -
  let ?row = "\<lambda>l. Inr (html l)" and ?rows = "map (\<lambda>l. light_event (html l)) page"
  let ?wr0 = "\<lparr>sent = [], fails = \<lambda>_. False\<rparr>"
  let ?wr1 = "?wr0\<lparr>sent := [connected_event]\<rparr>" and ?wr2 = "?wr0\<lparr>sent := connected_event # ?rows\<rparr>"
  have c1: "send connected_event ?wr0 = (True, ?wr1)" by (simp add: send_def)
  have c2: "sendAll ?row page ?wr1 = (True, ?wr2)" using sendAll_rows [of html page ?wr1] by (simp add: good_def)
  obtain ok3 s3 prev3 wr3 w3 where c3: "sendTemps ops rf s1 (Map.empty, ?wr2) w1 = (ok3, s3, (prev3, wr3), w3)"
    by (metis surj_pair)
  obtain s4 prev4 wr4 w4 where c4: "sse_loop ops ?row turns s3 (prev3, wr3) w3 = (s4, (prev4, wr4), w4)"
    by (metis surj_pair)
  let ?last = "sent (if \<not> ok3 then wr3 else wr4)"
  have run: "fst (lightEvents ops ?row None None (Inr ls) answers order rf turns (\<lambda>_. False) s w) = Inr ?last"
    using lightEvents_steps [OF assms c1 c2 c3 c4] by simp
  have "temp_events i (connected_event # ?rows) = []" if "i \<in> thermometers" for i
    using temp_events_append [of i "[connected_event]" ?rows] temp_events_rows [OF that]
      temp_events_other(2) [OF that] by (simp add: connected_event_def)
  then have "told Map.empty (sent ?wr2)" by (simp add: told_def)
  from sendTemps_told [OF this c3] sse_loop_told [OF _ c4] have "no_repeats ?last" by (cases ok3) auto
  moreover from sendTemps_grows [OF c3] sse_loop_grows [OF c4] have "prefix (connected_event # ?rows) ?last"
    by (auto intro: prefix_order.trans)
  then obtain rest where "?last = connected_event # ?rows @ rest" by (auto simp: prefix_def)
  ultimately show ?thesis using run by auto
qed

lemma lightEvents_cut:
  assumes f: "fetchLights ops (Inr ls) answers order s w = (Inr page, s1, w1)"
    and "fst (lightEvents ops row None None (Inr ls) answers order rf turns failing s w) = Inr evs"
    and "fst (lightEvents ops row None None (Inr ls) answers order rf turns (\<lambda>_. False) s w) = Inr evs0"
  shows "prefix evs evs0"
proof -
  let ?wr = "\<lparr>sent = [], fails = failing\<rparr>"
  have g: "good ?wr = \<lparr>sent = [], fails = \<lambda>_. False\<rparr>" by (simp add: good_def)
  obtain ok1 wr1 where c1: "send connected_event ?wr = (ok1, wr1)" by fastforce
  obtain ok2 wr2 where c2: "sendAll row page wr1 = (ok2, wr2)" by fastforce
  obtain ok3 s3 prev3 wr3 w3 where c3: "sendTemps ops rf s1 (Map.empty, wr2) w1 = (ok3, s3, (prev3, wr3), w3)"
    by (metis surj_pair)
  obtain s4 prev4 wr4 w4 where c4: "sse_loop ops row turns s3 (prev3, wr3) w3 = (s4, (prev4, wr4), w4)"
    by (metis surj_pair)
  obtain ok1' wr1' where d1: "send connected_event (good ?wr) = (ok1', wr1')" by fastforce
  obtain ok2' wr2' where d2: "sendAll row page wr1' = (ok2', wr2')" by fastforce
  obtain ok3' s3' prev3' wr3' w3' where d3: "sendTemps ops rf s1 (Map.empty, wr2') w1 = (ok3', s3', (prev3', wr3'), w3')"
    by (metis surj_pair)
  obtain s4' prev4' wr4' w4' where d4: "sse_loop ops row turns s3' (prev3', wr3') w3' = (s4', (prev4', wr4'), w4')"
    by (metis surj_pair)
  let ?last = "if \<not> ok1 then wr1 else if \<not> ok2 then wr2 else if \<not> ok3 then wr3 else wr4"
  let ?last' = "if \<not> ok1' then wr1' else if \<not> ok2' then wr2' else if \<not> ok3' then wr3' else wr4'"
  have ends: "evs = sent ?last" "evs0 = sent ?last'"
    using lightEvents_steps [OF f c1 c2 c3 c4] lightEvents_steps [OF f d1 [unfolded g] d2 d3 d4] assms(2,3) by simp_all
  note grow = sendAll_grows [OF d2] sendTemps_grows [OF d3] sse_loop_grows [OF d4]
  have later3: "prefix (sent wr3') (sent ?last')" if "ok1'" "ok2'" using that grow(3) by simp
  have later2: "prefix (sent wr2') (sent ?last')" if "ok1'" using that grow later3 by (auto intro: prefix_order.trans)
  show ?thesis
  proof (cases ok1)
    case False
    with send_result [OF c1] ends show ?thesis by simp
  next
    case True
    with send_cut [OF c1] d1 have e1: "ok1'" "wr1' = good wr1" by auto
    show ?thesis
    proof (cases ok2)
      case False
      with sendAll_cut [OF c2, of ok2' wr2'] d2 e1 True later2 ends show ?thesis by (auto intro: prefix_order.trans)
    next
      case ok2: True
      with sendAll_cut [OF c2, of ok2' wr2'] d2 e1 have e2: "ok2'" "wr2' = good wr2" by auto
      note t = sendTemps_cut [OF c3 d3 [unfolded e2(2)]]
      show ?thesis
      proof (cases ok3)
        case False
        with t True ok2 later3 e1 e2 ends show ?thesis by (auto intro: prefix_order.trans)
      next
        case ok3: True
        with t have e3: "ok3'" "s3' = s3" "prev3' = prev3" "wr3' = good wr3" "w3' = w3" by auto
        with sse_loop_cut [OF c4] d4 True ok2 ok3 e1 e2 ends show ?thesis by simp
      qed
    qed
  qed
qed

text \<open>
  C28: The event stream of a page: a page first gets a comment and the rendered row of every
  light, which is what catches it up when it reconnects, and from then on each thermometer
  tells it a reading only when it differs from the one before. This is for every sequence
  of pings, ticks and changes; over a connection that fails at any point the page has
  received a beginning of the same stream.
\<close>

theorem event_stream:
  assumes "fst (lightEvents ops (\<lambda>l. Inr (html l)) None None (Inr ls) answers order rf turns failing s w) = Inr evs"
  shows "\<exists>page s1 w1 rest. fetchLights ops (Inr ls) answers order s w = (Inr page, s1, w1)
    \<and> fst (lightEvents ops (\<lambda>l. Inr (html l)) None None (Inr ls) answers order rf turns (\<lambda>_. False) s w)
        = Inr (connected_event # map (\<lambda>l. light_event (html l)) page @ rest)
    \<and> prefix evs (connected_event # map (\<lambda>l. light_event (html l)) page @ rest)
    \<and> (\<forall>i \<in> thermometers. distinct_adj (temp_events i evs))"
proof -
  obtain page s1 w1 where f: "fetchLights ops (Inr ls) answers order s w = (Inr page, s1, w1)"
    using fetchLights_lists [of ops ls answers order s w] by blast
  obtain rest where g: "fst (lightEvents ops (\<lambda>l. Inr (html l)) None None (Inr ls) answers order rf turns (\<lambda>_. False) s w)
        = Inr (connected_event # map (\<lambda>l. light_event (html l)) page @ rest)"
      "no_repeats (connected_event # map (\<lambda>l. light_event (html l)) page @ rest)"
    using lightEvents_good [OF f] by blast
  have p: "prefix evs (connected_event # map (\<lambda>l. light_event (html l)) page @ rest)"
    by (rule lightEvents_cut [OF f assms g(1)])
  with g(2) have "no_repeats evs" by (rule no_repeats_prefix [rotated])
  with f g(1) p show ?thesis unfolding no_repeats_def by blast
qed

theorem event_stream_witness:
  "\<exists>evs. fst (lightEvents \<lparr>clock = (\<lambda>_. 0), queryInstant = (\<lambda>q w. (Inr ''21.5'', w))\<rparr> (\<lambda>l. Inr (ID l)) None None
       (Inr listLights) (\<lambda>_. Inl (Plain ''offline'')) [0, 1, 2, 3, 4] True [Ping, TempTick False, RequestDone] (\<lambda>n. n = 2)
       home_init ()) = Inr evs
     \<and> (\<forall>i \<in> thermometers. distinct_adj (temp_events i evs))"
proof -
  let ?run = "fst (lightEvents \<lparr>clock = (\<lambda>_. 0), queryInstant = (\<lambda>q w. (Inr ''21.5'', w))\<rparr> (\<lambda>l. Inr (ID l)) None None
       (Inr listLights) (\<lambda>_. Inl (Plain ''offline'')) [0, 1, 2, 3, 4] True [Ping, TempTick False, RequestDone] (\<lambda>n. n = 2)
       home_init ())"
  obtain evs where evs: "?run = Inr evs" by (rule exE [OF lightEvents_streams])
  from event_stream [OF evs] evs show ?thesis by blast
qed

end
