(* ===== verification/Flights.thy ===== *)
theory Flights
  imports Consul Go_Float Telemetry
begin

text \<open>
  \<^verbatim>\<open>services/s-rpc-flights\<close>: the airport table loaded once from a CSV file, great-circle
  distances and the emissions estimate, the listing of flights and the periodic statistics.
  Distances are computed over the real numbers (rounding of \<^verbatim>\<open>float64\<close> is not modelled); CSV
  syntax is abstracted to its records; the database and the HTTP client are arguments: what
  each query, scan, send and fetch returns.
\<close>

section \<open>Airports\<close>

record Airport =
  Airport_Name :: string
  Iata :: string
  Country :: string
  Lat :: float64
  Lon :: float64

type_synonym airport_map = "string \<rightharpoonup> Airport"

definition closedAirports :: "(string \<times> Airport) list" where
  "closedAirports =
     [(''SXF'', \<lparr>Airport_Name = ''Berlin Sch'' @ [CHR 0xC3, CHR 0xB6] @ ''nefeld'', Iata = ''SXF'', Country = ''DE'',
        Lat = Finite (52380001 / 1000000), Lon = Finite (135225 / 10000)\<rparr>)]"

text \<open>A column missing from the header reads as column 0, as a Go map lookup does.\<close>

fun columns :: "string list \<Rightarrow> nat \<Rightarrow> string \<Rightarrow> nat" where
  "columns [] i h = 0"
| "columns (x # xs) i h = (if h \<in> set xs then columns xs (Suc i) h else if x = h then i else 0)"

definition cell :: "string list \<Rightarrow> nat \<Rightarrow> string outcome" where
  "cell row j = (if j < length row then Returns (row ! j) else Panics ''index out of range'')"

definition parse_row :: "(string \<Rightarrow> nat) \<Rightarrow> string list \<Rightarrow> (string \<times> Airport) option outcome" where
  "parse_row col row =
     bind_outcome (cell row (col ''iata_code'')) (\<lambda>iata.
       if iata = [] then Returns None
       else bind_outcome (cell row (col ''coordinates'')) (\<lambda>coordinates.
         (case split coordinates '', '' of
            [c0, c1] \<Rightarrow>
              (case (parse_float (trim_space c0), parse_float (trim_space c1)) of
                 (Some lat, Some lon) \<Rightarrow>
                   bind_outcome (cell row (col ''name'')) (\<lambda>nm.
                   bind_outcome (cell row (col ''iso_country'')) (\<lambda>country.
                     Returns (Some (iata, \<lparr>Airport_Name = nm, Iata = iata, Country = country,
                       Lat = lat, Lon = lon\<rparr>))))
               | _ \<Rightarrow> Returns None)
          | _ \<Rightarrow> Returns None)))"

fun parse_rows :: "(string \<Rightarrow> nat) \<Rightarrow> string list list \<Rightarrow> airport_map \<Rightarrow> airport_map outcome" where
  "parse_rows col [] result = Returns result"
| "parse_rows col (row # rows) result = bind_outcome (parse_row col row) (\<lambda>r.
     parse_rows col rows (case r of None \<Rightarrow> result | Some (iata, a) \<Rightarrow> result(iata \<mapsto> a)))"

definition parseAirportsCSV :: "go_error + string list list \<Rightarrow> (go_error + airport_map) outcome" where
  "parseAirportsCSV csv = (case csv of
      Inl e \<Rightarrow> Returns (Inl (Wrapped ''parsing CSV'' e))
    | Inr [] \<Rightarrow> Panics ''index out of range''
    | Inr (header # rows) \<Rightarrow>
        bind_outcome (parse_rows (columns header 0) rows Map.empty) (\<lambda>m. Returns (Inr m)))"

text \<open>Fetching the file: building the request, performing it, and the records of its body.\<close>

record csv_env =
  request_err :: err
  response :: "go_error + (go_error + string list list)"

definition fetch_airports :: "csv_env \<Rightarrow> (go_error + airport_map) outcome" where
  "fetch_airports v = (case request_err v of
      Some e \<Rightarrow> Returns (Inl (Wrapped ''building airports CSV request'' e))
    | None \<Rightarrow> (case response v of
        Inl e \<Rightarrow> Returns (Inl (Wrapped ''fetching airports CSV'' e))
      | Inr body \<Rightarrow> bind_outcome (parseAirportsCSV body) (\<lambda>r. Returns (case r of
            Inl e \<Rightarrow> Inl e
          | Inr airports \<Rightarrow> Inr (airports ++ map_of closedAirports)))))"

text \<open>\<^verbatim>\<open>loadAirports\<close>: the state is what the \<^verbatim>\<open>sync.Once\<close> has stored.\<close>

definition loadAirports ::
  "csv_env \<Rightarrow> (go_error + airport_map) option \<Rightarrow> ((go_error + airport_map) \<times> (go_error + airport_map) option) outcome" where
  "loadAirports v s = (case s of
      Some r \<Rightarrow> Returns (r, s)
    | None \<Rightarrow> bind_outcome (fetch_airports v) (\<lambda>r. Returns (OnceValues (\<lambda>_. r) v None)))"

record pb_Airport =
  Code :: string
  pb_Lat :: float64
  pb_Lon :: float64

definition airportFromCode :: "go_error + airport_map \<Rightarrow> string \<Rightarrow> go_error + pb_Airport" where
  "airportFromCode loaded airportCode = (case loaded of
      Inl e \<Rightarrow> Inl (the (Augment (Some e) ''airport'' []))
    | Inr byIata \<Rightarrow> (case byIata airportCode of
        None \<Rightarrow> Inl (NotFound ''airport'' ''unknown airport code'' [(''code'', airportCode)])
      | Some a \<Rightarrow> Inr \<lparr>Code = Iata a, pb_Lat = Lat a, pb_Lon = Lon a\<rparr>))"

section \<open>Distance and emissions\<close>

definition earthRadiusKm :: real where
  "earthRadiusKm = 6371"

text \<open>\<^verbatim>\<open>math.Atan2\<close> for non-negative arguments, the only ones it gets here.\<close>

definition atan2_nonneg :: "real \<Rightarrow> real \<Rightarrow> real" where
  "atan2_nonneg y x = (if x = 0 then (if y = 0 then 0 else pi / 2) else arctan (y / x))"

definition haversine_a :: "real \<Rightarrow> real \<Rightarrow> real \<Rightarrow> real \<Rightarrow> real" where
  "haversine_a lat1 lon1 lat2 lon2 =
     (let dLat = (lat2 - lat1) * pi / 180; dLon = (lon2 - lon1) * pi / 180;
          lat1r = lat1 * pi / 180; lat2r = lat2 * pi / 180 in
      sin (dLat / 2) * sin (dLat / 2) + cos lat1r * cos lat2r * sin (dLon / 2) * sin (dLon / 2))"

definition haversineKm :: "real \<Rightarrow> real \<Rightarrow> real \<Rightarrow> real \<Rightarrow> real" where
  "haversineKm lat1 lon1 lat2 lon2 =
     (let a = haversine_a lat1 lon1 lat2 lon2 in
      earthRadiusKm * 2 * atan2_nonneg (sqrt a) (sqrt (1 - a)))"

text \<open>The distance is \<open>None\<close> when a coordinate is not a finite number.\<close>

definition distanceBetweenAirportsKm ::
  "go_error + airport_map \<Rightarrow> string \<Rightarrow> string \<Rightarrow> go_error + real option" where
  "distanceBetweenAirportsKm loaded src dst = (case loaded of
      Inl e \<Rightarrow> Inl (the (Augment (Some e) ''failed to load airports'' []))
    | Inr byIata \<Rightarrow> (case byIata src of
        None \<Rightarrow> Inl (NotFound ''airport'' ''unknown src airport'' [(''code'', src)])
      | Some s \<Rightarrow> (case byIata dst of
          None \<Rightarrow> Inl (NotFound ''airport'' ''unknown dst airport'' [(''code'', dst)])
        | Some d \<Rightarrow> Inr (case (finite_value (Lat s), finite_value (Lon s), finite_value (Lat d), finite_value (Lon d)) of
            (Some a, Some b, Some c, Some e) \<Rightarrow> Some (haversineKm a b c e)
          | _ \<Rightarrow> None))))"

definition flightKmToCO2e :: "real \<Rightarrow> real" where
  "flightKmToCO2e greatCircleKm =
     (let actualKm = greatCircleKm * (108 / 100);
          factor = (if greatCircleKm < 3700 then 158 / 1000 else 11704 / 100000) in
      actualKm * factor)"

record EmissionsForJourneyResponse =
  DistanceKm :: real
  CO2EKg :: real

definition EmissionsForJourney ::
  "go_error + airport_map \<Rightarrow> string \<Rightarrow> string \<Rightarrow> go_error + EmissionsForJourneyResponse option" where
  "EmissionsForJourney loaded src dst = (case distanceBetweenAirportsKm loaded src dst of
      Inl e \<Rightarrow> Inl (the (Augment (Some e) ''failed to calculate distance'' []))
    | Inr distance \<Rightarrow> Inr (map_option (\<lambda>d. \<lparr>DistanceKm = d, CO2EKg = flightKmToCO2e d\<rparr>) distance))"

section \<open>Listing flights\<close>

record Flight =
  Src :: pb_Airport
  Dst :: pb_Airport
  DepartureDate :: int   \<comment> \<open>Unix seconds\<close>

text \<open>
  Each row scans to an error or to source, destination and date; \<open>send n\<close> is the result of
  the \<open>n\<close>-th send on the stream.
\<close>

fun list_rows ::
  "go_error + airport_map \<Rightarrow> (nat \<Rightarrow> err) \<Rightarrow> (go_error + string \<times> string \<times> int) list \<Rightarrow> nat \<Rightarrow> Flight list \<times> err" where
  "list_rows loaded send [] n = ([], None)"
| "list_rows loaded send (Inl e # rows) n =
     ([], Augment (Some e) ''failed to scan flight query result'' [])"
| "list_rows loaded send (Inr (s, d, t) # rows) n = (case airportFromCode loaded s of
      Inl e \<Rightarrow> ([], Augment (Some e) ''failed to get airport object for src'' [])
    | Inr srcAirportObj \<Rightarrow> (case airportFromCode loaded d of
        Inl e \<Rightarrow> ([], Augment (Some e) ''failed to get airport object for dst'' [])
      | Inr dstAirportObj \<Rightarrow> (case send n of
          Some e \<Rightarrow> ([], Augment (Some e) ''failed to send flight'' [])
        | None \<Rightarrow> (case list_rows loaded send rows (Suc n) of
            (sent, r) \<Rightarrow> (\<lparr>Src = srcAirportObj, Dst = dstAirportObj, DepartureDate = t\<rparr> # sent, r)))))"

text \<open>
  The last check augments the variable \<^verbatim>\<open>err\<close>, which is nil at that point (the last successful
  scan), and not the error of the rows.
\<close>

definition ListAll ::
  "err \<Rightarrow> (go_error + string \<times> string \<times> int) list \<Rightarrow> err \<Rightarrow> go_error + airport_map \<Rightarrow> (nat \<Rightarrow> err)
    \<Rightarrow> Flight list \<times> err" where
  "ListAll query_err rows rows_err loaded send = (case query_err of
      Some e \<Rightarrow> ([], Augment (Some e) ''failed to query flights'' [])
    | None \<Rightarrow> (case list_rows loaded send rows 0 of
        (sent, Some e) \<Rightarrow> (sent, Some e)
      | (sent, None) \<Rightarrow> (sent, if rows_err \<noteq> None then Augment None ''failed to fetch flights'' [] else None)))"

section \<open>Statistics\<close>

definition add_year :: "int \<Rightarrow> real \<Rightarrow> (int \<times> real) list \<Rightarrow> (int \<times> real) list" where
  "add_year y x m = AList.update y ((case map_of m y of None \<Rightarrow> 0 | Some v \<Rightarrow> v) + x) m"

fun yearly ::
  "(string \<Rightarrow> string \<Rightarrow> go_error + EmissionsForJourneyResponse) \<Rightarrow> (go_error + Flight) list
    \<Rightarrow> (int \<times> real) list \<Rightarrow> (int \<times> real) list \<Rightarrow> go_error + ((int \<times> real) list \<times> (int \<times> real) list)" where
  "yearly emissions [] co2 km = Inr (co2, km)"
| "yearly emissions (Inl e # recvs) co2 km =
     (if errors_Is e ''EOF'' then Inr (co2, km)
      else Inl (the (Augment (Some e) ''failed to receive flight'' [])))"
| "yearly emissions (Inr rec # recvs) co2 km =
     (case emissions (Code (Src rec)) (Code (Dst rec)) of
        Inl e \<Rightarrow> Inl (the (Augment (Some e) ''failed to get emissions'' []))
      | Inr resp \<Rightarrow> yearly emissions recvs
          (add_year (year_of_unix (DepartureDate rec)) (CO2EKg resp) co2)
          (add_year (year_of_unix (DepartureDate rec)) (DistanceKm resp) km))"

type_synonym gauge_vec = "string \<rightharpoonup> real"

text \<open>
  The gauges by year of footprint and distance. A receive error ends the refresh before any
  gauge is set.
\<close>

definition set_gauges :: "(int \<times> real) list \<Rightarrow> (int \<times> real) list \<Rightarrow> gauge_vec \<times> gauge_vec \<Rightarrow> gauge_vec \<times> gauge_vec" where
  "set_gauges co2 km g = fold (\<lambda>(year, data) (f, k).
     (f(itoa year \<mapsto> data), k(itoa year \<mapsto> (case map_of km year of None \<Rightarrow> 0 | Some v \<Rightarrow> v)))) co2 g"

definition refreshYearlyCo2 ::
  "err \<Rightarrow> (string \<Rightarrow> string \<Rightarrow> go_error + EmissionsForJourneyResponse) \<Rightarrow> (go_error + Flight) list
    \<Rightarrow> gauge_vec \<times> gauge_vec \<Rightarrow> err \<times> gauge_vec \<times> gauge_vec" where
  "refreshYearlyCo2 list_err emissions recvs g = (case list_err of
      Some e \<Rightarrow> (Augment (Some e) ''failed to list flights'' [], g)
    | None \<Rightarrow> (case yearly emissions recvs [] [] of
        Inl e \<Rightarrow> (Some e, g)
      | Inr (co2, km) \<Rightarrow> (None, set_gauges co2 km g)))"

text \<open>A counting query: each row scans to an error or a count; the last count is kept.\<close>

fun scan_count :: "string \<Rightarrow> (go_error + int) list \<Rightarrow> int \<Rightarrow> go_error + int" where
  "scan_count what [] counted = Inr counted"
| "scan_count what (Inl e # rows) counted = Inl (the (Augment (Some e) what []))"
| "scan_count what (Inr n # rows) counted = scan_count what rows n"

definition refreshFlights :: "err \<Rightarrow> (go_error + int) list \<Rightarrow> int \<Rightarrow> err \<times> int" where
  "refreshFlights query_err rows gauge = (case query_err of
      Some e \<Rightarrow> (Augment (Some e) ''failed to query flights'' [], gauge)
    | None \<Rightarrow> (case scan_count ''failed to scan flights query result'' rows 0 of
        Inl e \<Rightarrow> (Some e, gauge) | Inr n \<Rightarrow> (None, n)))"

definition totalAirports :: "err \<Rightarrow> (go_error + int) list \<Rightarrow> int \<Rightarrow> err \<times> int" where
  "totalAirports query_err rows gauge = (case query_err of
      Some e \<Rightarrow> (Augment (Some e) ''failed to query airports'' [], gauge)
    | None \<Rightarrow> (case scan_count ''failed to scan airport query result'' rows 0 of
        Inl e \<Rightarrow> (Some e, gauge) | Inr n \<Rightarrow> (None, n)))"

text \<open>
  A failed scan is ignored: the gauge of the previously scanned code is set again to the
  previously scanned count.
\<close>

fun airline_rows :: "(go_error + string \<times> int) list \<Rightarrow> string \<times> int \<Rightarrow> (string \<rightharpoonup> int) \<Rightarrow> (string \<rightharpoonup> int)" where
  "airline_rows [] cur g = g"
| "airline_rows (r # rows) cur g =
     (let cur' = (case r of Inl _ \<Rightarrow> cur | Inr x \<Rightarrow> x) in airline_rows rows cur' (g(fst cur' \<mapsto> snd cur')))"

definition refreshAirlines :: "err \<Rightarrow> (go_error + string \<times> int) list \<Rightarrow> (string \<rightharpoonup> int) \<Rightarrow> err \<times> (string \<rightharpoonup> int)" where
  "refreshAirlines query_err rows g = (case query_err of
      Some e \<Rightarrow> (Augment (Some e) ''failed to query airlines'' [], g)
    | None \<Rightarrow> (None, airline_rows rows ([], 0) g))"

definition refreshLatestFlight :: "go_error + int \<Rightarrow> int \<Rightarrow> err \<times> int" where
  "refreshLatestFlight scanned gauge = (case scanned of
      Inl e \<Rightarrow> (Augment (Some e) ''failed to query latest flight'' [], gauge)
    | Inr unixMilli \<Rightarrow> (None, unixMilli))"

text \<open>
  The gauges, and what the database and the service answer during one turn of
  \<^verbatim>\<open>RefreshPromStats\<close>; the turn runs the five refreshes in the order of the call to \<^verbatim>\<open>append\<close>
  and joins their errors.
\<close>

record flight_stats =
  airportsStat :: int
  flightsStat :: int
  flightFootprint :: gauge_vec
  latestFlight :: int
  flightsPerAirline :: "string \<rightharpoonup> int"
  totalKm :: gauge_vec

record flight_answers =
  a_latest :: "go_error + int"
  a_airlines :: "err \<times> (go_error + string \<times> int) list"
  a_flights :: "err \<times> (go_error + int) list"
  a_airports :: "err \<times> (go_error + int) list"
  a_list_err :: err
  a_emissions :: "string \<Rightarrow> string \<Rightarrow> go_error + EmissionsForJourneyResponse"
  a_listing :: "(go_error + Flight) list"

definition refresh_turn :: "flight_answers \<Rightarrow> flight_stats \<Rightarrow> err \<times> flight_stats" where
  "refresh_turn a g =
     (case refreshLatestFlight (a_latest a) (latestFlight g) of (e1, latest) \<Rightarrow>
     (case refreshAirlines (fst (a_airlines a)) (snd (a_airlines a)) (flightsPerAirline g) of (e2, airlines) \<Rightarrow>
     (case refreshFlights (fst (a_flights a)) (snd (a_flights a)) (flightsStat g) of (e3, flights) \<Rightarrow>
     (case totalAirports (fst (a_airports a)) (snd (a_airports a)) (airportsStat g) of (e4, airports) \<Rightarrow>
     (case refreshYearlyCo2 (a_list_err a) (a_emissions a) (a_listing a) (flightFootprint g, totalKm g) of (e5, foot, km) \<Rightarrow>
       (errors_Join [e1, e2, e3, e4, e5],
        \<lparr>airportsStat = airports, flightsStat = flights, flightFootprint = foot, latestFlight = latest,
         flightsPerAirline = airlines, totalKm = km\<rparr>))))))"

text \<open>Times are in seconds.\<close>

definition flights_refreshRate :: int where
  "flights_refreshRate = 10 * 60"

definition flights_turn :: "(int \<Rightarrow> flight_answers \<times> int) \<Rightarrow> int \<Rightarrow> flight_stats \<Rightarrow> err \<times> flight_stats \<times> int" where
  "flights_turn answers t g = (case answers t of (a, ends) \<Rightarrow> (case refresh_turn a g of (e, g') \<Rightarrow> (e, g', ends)))"

definition flights_RefreshPromStats ::
  "(int \<Rightarrow> flight_answers \<times> int) \<Rightarrow> int option \<Rightarrow> int \<Rightarrow> flight_stats \<Rightarrow> (flight_stats \<times> span list \<times> int) option" where
  "flights_RefreshPromStats answers = refresh_loop (flights_turn answers) flights_refreshRate"

text \<open>The hook's result, and the shutdown hook, whose \<^verbatim>\<open>err\<close> is that of opening the database.\<close>

definition flights_InitService :: "go_error + 'db \<Rightarrow> err" where
  "flights_InitService db = (case db of Inl e \<Rightarrow> Propagate (Some e) | Inr _ \<Rightarrow> None)"

definition flights_OnShutdown :: "err \<Rightarrow> err" where
  "flights_OnShutdown close_err = (if close_err \<noteq> None then Augment None ''failed to close DB'' [] else None)"

section \<open>Facts\<close>

lemma loadAirports_once:
  assumes "loadAirports v s = Returns (r, s')"
  shows "loadAirports v' s' = Returns (r, s')"
proof (cases s)
  case None
  with assms show ?thesis
    by (cases "fetch_airports v") (auto simp: loadAirports_def OnceValues_def)
next
  case (Some x)
  with assms show ?thesis by (auto simp: loadAirports_def)
qed

lemma parse_row_ok: "row \<noteq> [] \<Longrightarrow> (\<forall>h. col h < length row) \<Longrightarrow> \<exists>r. parse_row col row = Returns r"
  by (auto simp: parse_row_def cell_def split: list.splits option.splits)

lemma columns_bound: "header \<noteq> [] \<Longrightarrow> columns header i h < i + length header \<or> columns header i h = 0"
proof (induction header i h rule: columns.induct)
  case (2 x xs i h)
  then show ?case by (cases xs) auto
qed simp

lemma parse_rows_ok:
  "\<forall>row \<in> set rows. row \<noteq> [] \<and> (\<forall>h. col h < length row) \<Longrightarrow> \<exists>m. parse_rows col rows result = Returns m"
proof (induction rows arbitrary: result)
  case Nil
  show ?case by simp
next
  case (Cons row rows)
  then obtain r where "parse_row col row = Returns r" using parse_row_ok by fastforce
  with Cons show ?case by simp
qed

lemma airport_keys: "parse_row col row = Returns (Some (iata, a)) \<Longrightarrow> Iata a = iata \<and> iata \<noteq> []"
  by (auto simp: parse_row_def cell_def split: list.splits option.splits if_splits)

lemma parse_rows_keys:
  "parse_rows col rows result = Returns m \<Longrightarrow> \<forall>k a. result k = Some a \<longrightarrow> Iata a = k \<Longrightarrow>
     m k = Some a \<Longrightarrow> Iata a = k"
proof (induction rows arbitrary: result)
  case Nil
  then show ?case by simp
next
  case (Cons row rows)
  then obtain r where r: "parse_row col row = Returns r" by (cases "parse_row col row") auto
  have "\<forall>k a. (case r of None \<Rightarrow> result | Some (iata, a) \<Rightarrow> result(iata \<mapsto> a)) k = Some a \<longrightarrow> Iata a = k"
    using Cons.prems(2) airport_keys r by (auto split: option.splits)
  with Cons r show ?case by auto
qed

lemma closed_keys: "map_of closedAirports k = Some a \<Longrightarrow> Iata a = k"
  by (simp add: closedAirports_def split: if_split_asm) (metis Airport.select_convs(2))

subsection \<open>The great-circle distance\<close>

definition central_cos :: "real \<Rightarrow> real \<Rightarrow> real \<Rightarrow> real \<Rightarrow> real" where
  "central_cos p1 l1 p2 l2 = sin p1 * sin p2 + cos p1 * cos p2 * cos (l2 - l1)"

lemma sin_half_sq: "sin (x / 2) * sin (x / 2) = (1 - cos x) / (2::real)"
  using cos_double_sin [of "x / 2"] by (simp add: power2_eq_square)

lemma haversine_a_cos:
  "1 - 2 * haversine_a lat1 lon1 lat2 lon2
     = central_cos (lat1 * pi / 180) (lon1 * pi / 180) (lat2 * pi / 180) (lon2 * pi / 180)"
proof -
  define p1 p2 d where "p1 = lat1 * pi / 180" and "p2 = lat2 * pi / 180" and "d = (lon2 - lon1) * pi / 180"
  have dp: "(lat2 - lat1) * pi / 180 = p2 - p1" and dl: "lon2 * pi / 180 - lon1 * pi / 180 = d"
    by (simp_all add: p1_def p2_def d_def field_simps)
  have "haversine_a lat1 lon1 lat2 lon2
      = sin ((p2 - p1) / 2) * sin ((p2 - p1) / 2) + cos p1 * cos p2 * (sin (d / 2) * sin (d / 2))"
    unfolding haversine_a_def Let_def dp p1_def [symmetric] p2_def [symmetric] d_def [symmetric] by simp
  also have "\<dots> = (1 - cos (p2 - p1)) / 2 + cos p1 * cos p2 * ((1 - cos d) / 2)"
    by (simp only: sin_half_sq)
  finally show ?thesis
    unfolding central_cos_def p1_def [symmetric] p2_def [symmetric] dl
    by (simp add: cos_diff field_simps)
qed

lemma central_cos_bound: "\<bar>central_cos p1 l1 p2 l2\<bar> \<le> 1"
proof -
  let ?k = "cos (l2 - l1)"
  have "\<bar>central_cos p1 l1 p2 l2\<bar> \<le> \<bar>sin p1\<bar> * \<bar>sin p2\<bar> + \<bar>cos p1\<bar> * \<bar>cos p2\<bar> * \<bar>?k\<bar>"
    unfolding central_cos_def by (metis abs_mult abs_triangle_ineq)
  also have "\<dots> \<le> \<bar>sin p1\<bar> * \<bar>sin p2\<bar> + \<bar>cos p1\<bar> * \<bar>cos p2\<bar>"
    using abs_cos_le_one [of "l2 - l1"] by (simp add: mult_left_le)
  also have "\<dots> \<le> 1"
  proof -
    have "2 * (\<bar>sin p1\<bar> * \<bar>sin p2\<bar>) \<le> (sin p1)\<^sup>2 + (sin p2)\<^sup>2"
      using sum_squares_bound [of "\<bar>sin p1\<bar>" "\<bar>sin p2\<bar>"] by simp
    moreover have "2 * (\<bar>cos p1\<bar> * \<bar>cos p2\<bar>) \<le> (cos p1)\<^sup>2 + (cos p2)\<^sup>2"
      using sum_squares_bound [of "\<bar>cos p1\<bar>" "\<bar>cos p2\<bar>"] by simp
    ultimately show ?thesis using sin_cos_squared_add [of p1] sin_cos_squared_add [of p2] by linarith
  qed
  finally show ?thesis .
qed

lemma atan2_half_angle:
  assumes "0 \<le> a" "a \<le> 1"
  shows "2 * atan2_nonneg (sqrt a) (sqrt (1 - a)) = arccos (1 - 2 * a)"
proof -
  define t where "t = arccos (1 - 2 * a)"
  have t: "0 \<le> t" "t \<le> pi" "cos t = 1 - 2 * a"
    using assms by (simp_all add: t_def arccos_lbound arccos_ubound)
  have s: "a = (sin (t / 2))\<^sup>2" using sin_half_sq [of t] t(3) by (simp add: power2_eq_square)
  then have c: "1 - a = (cos (t / 2))\<^sup>2" by (simp add: cos_squared_eq)
  have pos: "0 \<le> sin (t / 2)" "0 \<le> cos (t / 2)"
    using t by (auto intro: sin_ge_zero cos_ge_zero)
  with s c have sq: "sqrt a = sin (t / 2)" "sqrt (1 - a) = cos (t / 2)" by simp_all
  show ?thesis
  proof (cases "t = pi")
    case True
    then have "cos (t / 2) = 0" "sin (t / 2) = 1" by simp_all
    with sq True show ?thesis by (simp add: atan2_nonneg_def t_def [symmetric])
  next
    case False
    with t have lt: "- (pi / 2) < t / 2" "t / 2 < pi / 2" using pi_gt_zero by linarith+
    then have "cos (t / 2) > 0" by (intro cos_gt_zero_pi) auto
    moreover have "arctan (sin (t / 2) / cos (t / 2)) = t / 2"
      using arctan_tan [OF lt] by (simp add: tan_def)
    ultimately show ?thesis using sq by (simp add: atan2_nonneg_def t_def [symmetric])
  qed
qed

lemma haversine_a_range: "0 \<le> haversine_a a b c d" "haversine_a a b c d \<le> 1"
  using haversine_a_cos [of a b c d]
    central_cos_bound [of "a * pi / 180" "b * pi / 180" "c * pi / 180" "d * pi / 180"] by linarith+

lemma haversine_arccos:
  "haversineKm lat1 lon1 lat2 lon2 = earthRadiusKm *
     arccos (central_cos (lat1 * pi / 180) (lon1 * pi / 180) (lat2 * pi / 180) (lon2 * pi / 180))"
proof -
  let ?a = "haversine_a lat1 lon1 lat2 lon2"
  have "haversineKm lat1 lon1 lat2 lon2 = earthRadiusKm * (2 * atan2_nonneg (sqrt ?a) (sqrt (1 - ?a)))"
    by (simp add: haversineKm_def Let_def)
  also have "\<dots> = earthRadiusKm * arccos (1 - 2 * ?a)"
    by (simp only: atan2_half_angle [OF haversine_a_range])
  finally show ?thesis by (simp only: haversine_a_cos)
qed

lemma central_cos_sym: "central_cos p1 l1 p2 l2 = central_cos p2 l2 p1 l1"
  using cos_minus [of "l2 - l1"] by (simp add: central_cos_def mult.commute)

lemma haversine_sym: "haversineKm a b c d = haversineKm c d a b"
  by (simp only: haversine_arccos central_cos_sym)

lemma haversine_bounds: "0 \<le> haversineKm a b c d" "haversineKm a b c d \<le> pi * earthRadiusKm"
proof -
  let ?s = "central_cos (a * pi / 180) (b * pi / 180) (c * pi / 180) (d * pi / 180)"
  have s: "-1 \<le> ?s" "?s \<le> 1"
    using central_cos_bound [of "a * pi / 180" "b * pi / 180" "c * pi / 180" "d * pi / 180"] by linarith+
  show "0 \<le> haversineKm a b c d"
    using arccos_lbound [OF s] by (simp add: haversine_arccos earthRadiusKm_def)
  show "haversineKm a b c d \<le> pi * earthRadiusKm"
    using arccos_ubound [OF s] by (simp add: haversine_arccos earthRadiusKm_def)
qed

subsection \<open>Yearly totals\<close>

definition of_year :: "(EmissionsForJourneyResponse \<Rightarrow> real) \<Rightarrow> int \<Rightarrow> (int \<times> EmissionsForJourneyResponse) list \<Rightarrow> real" where
  "of_year f y rs = sum_list (map (f \<circ> snd) (filter (\<lambda>r. fst r = y) rs))"

lemma of_year_Cons: "of_year f y (r # rs) = (if fst r = y then f (snd r) else 0) + of_year f y rs"
  by (simp add: of_year_def)

lemma map_of_add_year:
  "map_of (add_year y x m) z = (if z = y then Some ((case map_of m y of None \<Rightarrow> 0 | Some v \<Rightarrow> v) + x) else map_of m z)"
  by (simp add: add_year_def update_conv')

lemma distinct_add_year: "distinct (map fst m) \<Longrightarrow> distinct (map fst (add_year y x m))"
  by (simp add: add_year_def distinct_update)

text \<open>What the flights of a stream answered, with the year of each.\<close>

fun answered :: "(string \<Rightarrow> string \<Rightarrow> go_error + EmissionsForJourneyResponse) \<Rightarrow> Flight list
    \<Rightarrow> (int \<times> EmissionsForJourneyResponse) list" where
  "answered em [] = []"
| "answered em (f # fs) = (case em (Code (Src f)) (Code (Dst f)) of
     Inl _ \<Rightarrow> [] | Inr r \<Rightarrow> (year_of_unix (DepartureDate f), r) # answered em fs)"

definition year_value :: "(int \<times> real) list \<Rightarrow> int \<Rightarrow> real" where
  "year_value m y = (case map_of m y of None \<Rightarrow> 0 | Some v \<Rightarrow> v)"

lemma year_value_add: "year_value (add_year y x m) z = year_value m z + (if z = y then x else 0)"
  by (simp add: year_value_def map_of_add_year split: option.splits)

lemma yearly_sums:
  "\<forall>f \<in> set fs. \<not> isl (em (Code (Src f)) (Code (Dst f))) \<Longrightarrow> distinct (map fst co2) \<Longrightarrow>
     fst ` set co2 = Y \<Longrightarrow>
     \<exists>co2' km'. yearly em (map Inr fs @ [Inl io_EOF]) co2 km = Inr (co2', km')
       \<and> distinct (map fst co2') \<and> fst ` set co2' = Y \<union> fst ` set (answered em fs)
       \<and> (\<forall>y. year_value co2' y = year_value co2 y + of_year CO2EKg y (answered em fs))
       \<and> (\<forall>y. year_value km' y = year_value km y + of_year DistanceKm y (answered em fs))"
proof (induction fs arbitrary: co2 km Y)
  case Nil
  then show ?case by (simp add: of_year_def)
next
  case (Cons f fs)
  then obtain r where r: "em (Code (Src f)) (Code (Dst f)) = Inr r" by (auto simp: isl_def split: sum.splits) (metis sum.exhaust_sel)
  let ?y = "year_of_unix (DepartureDate f)"
  have "fst ` set (add_year ?y (CO2EKg r) co2) = insert ?y Y"
    using Cons.prems(3) by (simp add: add_year_def update_conv' flip: dom_map_of_conv_image_fst)
  from Cons.IH [OF _ distinct_add_year [OF Cons.prems(2)] this, of "add_year ?y (DistanceKm r) km"] Cons.prems(1) r
  show ?case by (auto simp: year_value_add of_year_Cons)
qed

subsection \<open>Gauges\<close>

lemma set_gauges_Cons:
  "set_gauges ((y, v) # co2) km (f, k) = set_gauges co2 km (f(itoa y \<mapsto> v), k(itoa y \<mapsto> year_value km y))"
  by (simp add: set_gauges_def year_value_def)

lemma set_gauges_other:
  "\<forall>y \<in> fst ` set co2. itoa y \<noteq> l \<Longrightarrow> fst (set_gauges co2 km g) l = fst g l \<and> snd (set_gauges co2 km g) l = snd g l"
proof (induction co2 arbitrary: g)
  case Nil
  show ?case by (simp add: set_gauges_def)
next
  case (Cons p co2)
  then show ?case by (cases p; cases g) (auto simp: set_gauges_Cons)
qed

lemma set_gauges_year:
  "distinct (map fst co2) \<Longrightarrow> \<forall>y \<in> fst ` set co2. in_int64 y \<Longrightarrow> y \<in> fst ` set co2 \<Longrightarrow>
     fst (set_gauges co2 km g) (itoa y) = Some (year_value co2 y)
   \<and> snd (set_gauges co2 km g) (itoa y) = Some (year_value km y)"
proof (induction co2 arbitrary: g)
  case Nil
  then show ?case by simp
next
  case (Cons p co2)
  obtain y0 v where p: "p = (y0, v)" by (cases p)
  obtain f k where g: "g = (f, k)" by (cases g)
  show ?case
  proof (cases "y = y0")
    case True
    have "\<forall>z \<in> fst ` set co2. itoa z \<noteq> itoa y"
    proof
      fix z assume z: "z \<in> fst ` set co2"
      then have "z \<noteq> y" using Cons.prems(1) True p by auto
      with z Cons.prems(2) p True show "itoa z \<noteq> itoa y" using itoa_inj [of z y] by auto
    qed
    from set_gauges_other [OF this] True show ?thesis by (simp add: p g set_gauges_Cons year_value_def)
  next
    case False
    then have v: "year_value (p # co2) y = year_value co2 y" by (simp add: p year_value_def)
    from Cons.IH [of "(f(itoa y0 \<mapsto> v), k(itoa y0 \<mapsto> year_value km y0))"] Cons.prems False
    show ?thesis unfolding v by (auto simp: p g set_gauges_Cons)
  qed
qed

subsection \<open>Listing\<close>

definition row_sent :: "go_error + airport_map \<Rightarrow> go_error + string \<times> string \<times> int \<Rightarrow> Flight \<Rightarrow> bool" where
  "row_sent loaded r f \<longleftrightarrow> (\<exists>s d. r = Inr (s, d, DepartureDate f)
     \<and> airportFromCode loaded s = Inr (Src f) \<and> airportFromCode loaded d = Inr (Dst f))"

lemma list_rows_None:
  "snd (list_rows loaded send rs n) = None \<longleftrightarrow>
     list_all2 (row_sent loaded) rs (fst (list_rows loaded send rs n)) \<and> (\<forall>i < length rs. send (n + i) = None)"
proof (induction loaded send rs n rule: list_rows.induct)
  case (3 loaded send s d t rows n)
  show ?case
  proof (cases "isl (airportFromCode loaded s) \<or> isl (airportFromCode loaded d) \<or> send n \<noteq> None")
    case True
    then show ?thesis by (auto split: sum.splits option.splits)
  next
    case False
    then obtain a b where ok: "airportFromCode loaded s = Inr a" "airportFromCode loaded d = Inr b" "send n = None"
      by (metis sum.exhaust_sel sum.collapse(2))
    from 3 [OF ok] ok show ?thesis
      by (auto simp: All_less_Suc2 row_sent_def split: prod.splits)
  qed
qed auto

lemma answered_years: "(y, r) \<in> set (answered em fs) \<Longrightarrow> \<exists>f \<in> set fs. y = year_of_unix (DepartureDate f)"
  by (induction fs) (auto split: sum.splits)

section \<open>Properties\<close>

text \<open>
  C21: the distance of two airports is the great-circle distance: the haversine computation
  agrees with the spherical law of cosines for all coordinates; it is symmetric and lies
  between zero and half the circumference of the earth.
\<close>

theorem haversine_great_circle:
  "haversineKm lat1 lon1 lat2 lon2 = 6371 * arccos (sin (lat1 * pi / 180) * sin (lat2 * pi / 180)
      + cos (lat1 * pi / 180) * cos (lat2 * pi / 180) * cos (lon2 * pi / 180 - lon1 * pi / 180))
   \<and> haversineKm lat1 lon1 lat2 lon2 = haversineKm lat2 lon2 lat1 lon1
   \<and> 0 \<le> haversineKm lat1 lon1 lat2 lon2 \<and> haversineKm lat1 lon1 lat2 lon2 \<le> pi * 6371"
  using haversine_arccos [of lat1 lon1 lat2 lon2] haversine_sym [of lat1 lon1 lat2 lon2]
    haversine_bounds [of lat1 lon1 lat2 lon2]
  by (simp add: central_cos_def earthRadiusKm_def)

text \<open>
  Emissions of a journey between two known airports with finite coordinates are the same
  in both directions and are between 0.126 and 0.171 kg per great-circle kilometre.
\<close>

theorem emissions_symmetric:
  assumes "loaded = Inr byIata" "byIata src = Some s" "byIata dst = Some d"
    "Lat s = Finite a" "Lon s = Finite b" "Lat d = Finite c" "Lon d = Finite e"
  shows "\<exists>r. EmissionsForJourney loaded src dst = Inr (Some r)
    \<and> EmissionsForJourney loaded dst src = Inr (Some r)
    \<and> 126 / 1000 * DistanceKm r \<le> CO2EKg r \<and> CO2EKg r \<le> 171 / 1000 * DistanceKm r"
proof -
  have "haversineKm (of_rat c) (of_rat e) (of_rat a) (of_rat b) = haversineKm (of_rat a) (of_rat b) (of_rat c) (of_rat e)"
    by (rule haversine_sym)
  moreover have "0 \<le> haversineKm (of_rat a) (of_rat b) (of_rat c) (of_rat e)" by (rule haversine_bounds)
  ultimately show ?thesis using assms
    by (simp add: EmissionsForJourney_def distanceBetweenAirportsKm_def finite_value_def flightKmToCO2e_def Let_def)
qed

theorem emissions_symmetric_witness:
  "\<exists>r. EmissionsForJourney (Inr (map_of closedAirports)) ''SXF'' ''SXF'' = Inr (Some r)
    \<and> CO2EKg r \<le> 171 / 1000 * DistanceKm r"
proof -
  have "\<exists>r. EmissionsForJourney (Inr (map_of closedAirports)) ''SXF'' ''SXF'' = Inr (Some r)
      \<and> EmissionsForJourney (Inr (map_of closedAirports)) ''SXF'' ''SXF'' = Inr (Some r)
      \<and> 126 / 1000 * DistanceKm r \<le> CO2EKg r \<and> CO2EKg r \<le> 171 / 1000 * DistanceKm r"
    by (rule emissions_symmetric [where byIata = "map_of closedAirports" and s = "snd (hd closedAirports)" and d = "snd (hd closedAirports)"
          and a = "52380001 / 1000000" and c = "52380001 / 1000000" and b = "135225 / 10000" and e = "135225 / 10000"])
      (simp_all add: closedAirports_def)
  then show ?thesis by blast
qed

text \<open>
  The airport table. For a CSV whose rows all have the width of its non-empty header, the
  load returns a table in which every code leads to the airport with that code, and the
  closed airport is always there; the first load is the last: its result, an error
  included, is what every later call gets without fetching again.
\<close>

theorem airports_loaded_once:
  assumes "request_err v = None" "response v = Inr (Inr (header # rows))" "header \<noteq> []"
    "\<forall>row \<in> set rows. length row = length header"
  shows "\<exists>m. loadAirports v None = Returns (Inr m, Some (Inr m))
    \<and> (\<forall>k a. m k = Some a \<longrightarrow> Iata a = k) \<and> m ''SXF'' \<noteq> None
    \<and> (\<forall>v'. loadAirports v' (Some (Inr m)) = Returns (Inr m, Some (Inr m)))
    \<and> (\<forall>v' e. loadAirports v' (Some (Inl e)) = Returns (Inl e, Some (Inl e)))"
proof -
  have "\<forall>row \<in> set rows. row \<noteq> [] \<and> (\<forall>h. columns header 0 h < length row)"
    using assms(3,4) columns_bound [of header 0] by (metis add_0 length_0_conv length_greater_0_conv)
  then obtain m where m: "parse_rows (columns header 0) rows Map.empty = Returns m" using parse_rows_ok by blast
  then have keys: "m k = Some a \<Longrightarrow> Iata a = k" for k a using parse_rows_keys [OF m, of k a] by simp
  have "loadAirports v None = Returns (Inr (m ++ map_of closedAirports), Some (Inr (m ++ map_of closedAirports)))"
    using assms(1,2) m by (simp add: loadAirports_def fetch_airports_def parseAirportsCSV_def OnceValues_def)
  moreover have "(m ++ map_of closedAirports) k = Some a \<Longrightarrow> Iata a = k" for k a
    using keys closed_keys by (auto simp: map_add_Some_iff)
  moreover have "(m ++ map_of closedAirports) ''SXF'' \<noteq> None" by (simp add: closedAirports_def)
  moreover have "loadAirports v' (Some r) = Returns (r, Some r)" for v' r by (simp add: loadAirports_def)
  ultimately show ?thesis by (intro exI [of _ "m ++ map_of closedAirports"] conjI allI impI) blast+
qed

definition demo_csv :: csv_env where
  "demo_csv = \<lparr>request_err = None, response = Inr (Inr
     [[''name'', ''iata_code'', ''iso_country'', ''coordinates''], [''Heathrow'', ''LHR'', ''GB'', ''51.47, -0.46'']])\<rparr>"

theorem airports_loaded_once_witness:
  "\<exists>m. loadAirports demo_csv None = Returns (Inr m, Some (Inr m)) \<and> m ''SXF'' \<noteq> None"
  using airports_loaded_once [of demo_csv] by (fastforce simp: demo_csv_def)

text \<open>
  Listing flights reports success exactly when the query, every scan, every airport
  lookup and every send succeeded, and then every row was sent, in order; a failure of the
  row iteration itself is not reported, so a listing cut short by the database looks
  complete.
\<close>

theorem ListAll_success_iff:
  "snd (ListAll query_err rows rows_err loaded send) = None \<longleftrightarrow>
     query_err = None
   \<and> list_all2 (row_sent loaded) rows (fst (ListAll query_err rows rows_err loaded send))
   \<and> (\<forall>i < length rows. send i = None)"
proof (cases query_err)
  case None
  then show ?thesis
    using list_rows_None [of loaded send rows 0]
    by (cases "list_rows loaded send rows 0"; cases "snd (list_rows loaded send rows 0)")
      (auto simp: ListAll_def)
qed (simp add: ListAll_def)

theorem ListAll_success_iff_witness:
  "snd (ListAll None [] (Some (Plain ''connection reset'')) (Inr Map.empty) (\<lambda>_. None)) = None"
  using ListAll_success_iff [of None "[]" "Some (Plain ''connection reset'')" "Inr Map.empty" "\<lambda>_. None"]
  by (simp add: ListAll_def)



end
