(* ===== verification/Web_Flights.thy ===== *)
theory Web_Flights
  imports Flights
begin

text \<open>
  \<^verbatim>\<open>services/s-web-flights\<close>: the map of all flights as GeoJSON, as straight lines or as arcs
  along the great circle. The sphere geometry (the S2 library) and the GeoJSON encoder are
  arguments.
\<close>

section \<open>Lines\<close>

record 'p s2 =
  PointFromLatLng :: "float64 \<times> float64 \<Rightarrow> 'p"
  Mul :: "'p \<Rightarrow> rat \<Rightarrow> 'p"
  Add :: "'p \<Rightarrow> 'p \<Rightarrow> 'p"
  Normalize :: "'p \<Rightarrow> 'p"
  LatLngFromPoint :: "'p \<Rightarrow> float64 \<times> float64"

definition strokeHex :: string where
  "strokeHex = ''#9C8AFE''"

definition secondaryStrokeHex :: string where
  "secondaryStrokeHex = ''#F44336''"

record feature =
  coordinates :: "(float64 \<times> float64) list"   \<comment> \<open>longitude, latitude\<close>
  stroke_width :: nat
  stroke :: string

definition arc_point :: "'p s2 \<Rightarrow> 'p \<Rightarrow> 'p \<Rightarrow> rat \<Rightarrow> float64 \<times> float64" where
  "arc_point g a b t = (case LatLngFromPoint g (Normalize g (Add g (Mul g a (1 - t)) (Mul g b t))) of
     (lat, lng) \<Rightarrow> (lng, lat))"

definition line :: "'p s2 \<Rightarrow> Flight \<Rightarrow> bool \<Rightarrow> (float64 \<times> float64) list" where
  "line g flight doArcs =
     (if \<not> doArcs then [(pb_Lon (Src flight), pb_Lat (Src flight)), (pb_Lon (Dst flight), pb_Lat (Dst flight))]
      else (let a = PointFromLatLng g (pb_Lat (Src flight), pb_Lon (Src flight));
                b = PointFromLatLng g (pb_Lat (Dst flight), pb_Lon (Dst flight)); n = 100 in
        map (\<lambda>i. arc_point g a b (of_nat i / of_nat n)) [0..<n + 1]))"

definition feature_of :: "'p s2 \<Rightarrow> bool \<Rightarrow> int \<Rightarrow> Flight \<Rightarrow> feature" where
  "feature_of g doArcs now flight = \<lparr>coordinates = line g flight doArcs, stroke_width = 2,
     stroke = (if DepartureDate flight > now then secondaryStrokeHex else strokeHex)\<rparr>"

section \<open>The map\<close>

fun receive_flights ::
  "'p s2 \<Rightarrow> bool \<Rightarrow> int \<Rightarrow> (go_error + Flight) list \<Rightarrow> feature list \<Rightarrow> go_error + feature list" where
  "receive_flights g doArcs now [] j = Inr j"
| "receive_flights g doArcs now (Inl e # rs) j =
     (if errors_Is e ''EOF'' then Inr j else Inl (the (Augment (Some e) ''failed to receive flight'' [])))"
| "receive_flights g doArcs now (Inr f # rs) j = receive_flights g doArcs now rs (j @ [feature_of g doArcs now f])"

definition constructGeoMap ::
  "'p s2 \<Rightarrow> (feature list \<Rightarrow> go_error + string) \<Rightarrow> int \<Rightarrow> err \<Rightarrow> (go_error + Flight) list \<Rightarrow> bool \<Rightarrow> go_error + string" where
  "constructGeoMap g marshal now list_err recvs doArcs = (case list_err of
      Some e \<Rightarrow> Inl (the (Augment (Some e) ''failed to list flights'' []))
    | None \<Rightarrow> (case receive_flights g doArcs now recvs [] of
        Inl e \<Rightarrow> Inl e
      | Inr j \<Rightarrow> (case marshal j of
          Inl e \<Rightarrow> Inl (the (Augment (Some e) ''failed to marshal geojson'' []))
        | Inr str \<Rightarrow> Inr str)))"

text \<open>A map can be embedded in pages of any origin; an error has no headers of its own.\<close>

definition addHeaders :: "(string \<times> string) list" where
  "addHeaders = [(''Content-Type'', ''application/geo+json''), (''Access-Control-Allow-Origin'', ''*'')]"

record geo_response =
  Geo_Status :: nat
  Geo_Headers :: "(string \<times> string) list"
  Geo_Body :: string

definition geoMapWith ::
  "bool \<Rightarrow> 'p s2 \<Rightarrow> (feature list \<Rightarrow> go_error + string) \<Rightarrow> int \<Rightarrow> err \<Rightarrow> (go_error + Flight) list \<Rightarrow> geo_response" where
  "geoMapWith doArcs g marshal now list_err recvs = (case constructGeoMap g marshal now list_err recvs doArcs of
      Inl e \<Rightarrow> \<lparr>Geo_Status = 500, Geo_Headers = [], Geo_Body = []\<rparr>
    | Inr str \<Rightarrow> \<lparr>Geo_Status = 200, Geo_Headers = addHeaders, Geo_Body = str\<rparr>)"

definition geoMap ::
  "'p s2 \<Rightarrow> (feature list \<Rightarrow> go_error + string) \<Rightarrow> int \<Rightarrow> err \<Rightarrow> (go_error + Flight) list \<Rightarrow> geo_response" where
  "geoMap = geoMapWith False"

definition geoMapWithArcs ::
  "'p s2 \<Rightarrow> (feature list \<Rightarrow> go_error + string) \<Rightarrow> int \<Rightarrow> err \<Rightarrow> (go_error + Flight) list \<Rightarrow> geo_response" where
  "geoMapWithArcs = geoMapWith True"

datatype flights_route = GeoMap | GeoMapArcs | FlightsNotFound

definition flights_MakeHTTPHandler :: "string \<Rightarrow> flights_route" where
  "flights_MakeHTTPHandler path = (if path = ''/geomap.geojson'' then GeoMap
     else if path = ''/geomap-arcs.geojson'' then GeoMapArcs else FlightsNotFound)"

definition web_flights_OnShutdown :: "err \<Rightarrow> err \<Rightarrow> err" where
  "web_flights_OnShutdown close_err serverErr = errors_Join
     [Augment close_err ''failed to close http server'' [], Augment serverErr ''failed to close server'' []]"

section \<open>Facts\<close>

text \<open>What a client of the flight listing receives: the flights sent, then the end of the stream.\<close>

definition flight_stream :: "Flight list \<times> err \<Rightarrow> (go_error + Flight) list" where
  "flight_stream s = map Inr (fst s) @ [Inl (case snd s of None \<Rightarrow> io_EOF | Some e \<Rightarrow> Status CodeUnknown (error_text e))]"

lemma receive_flights_prefix:
  "receive_flights g doArcs now (map Inr fs @ rs) j = receive_flights g doArcs now rs (j @ map (feature_of g doArcs now) fs)"
  by (induction fs arbitrary: j) auto

lemma receive_flights_stream:
  "receive_flights g doArcs now (flight_stream (fs, e)) [] =
     (case e of None \<Rightarrow> Inr (map (feature_of g doArcs now) fs)
      | Some x \<Rightarrow> Inl (the (Augment (Some (Status CodeUnknown (error_text x))) ''failed to receive flight'' [])))"
  by (cases e) (simp_all add: flight_stream_def receive_flights_prefix)

section \<open>Properties\<close>

text \<open>
  C36: The map over the flight listing of the other service. When the listing succeeds the map
  has one line per row of the database query, in order, from the airport of origin to that
  of destination: two points for a straight line and 101 for an arc, in the colour for
  planned flights when the departure is in the future. The listing also succeeds when the
  database ended the rows early with an error: the map is then served with status 200 and only
  the rows read so far. A row with an unknown airport, or a failed send, gives status 500.
\<close>

theorem geo_map_of_listing:
  assumes "ListAll None rows rows_err loaded sends = (fs, e)"
  shows "geoMapWith doArcs g marshal now None (flight_stream (fs, e)) =
       (case e of
          None \<Rightarrow> (case marshal (map (feature_of g doArcs now) fs) of
              Inr str \<Rightarrow> \<lparr>Geo_Status = 200, Geo_Headers = addHeaders, Geo_Body = str\<rparr>
            | Inl _ \<Rightarrow> \<lparr>Geo_Status = 500, Geo_Headers = [], Geo_Body = []\<rparr>)
        | Some _ \<Rightarrow> \<lparr>Geo_Status = 500, Geo_Headers = [], Geo_Body = []\<rparr>)
     \<and> (e = None \<longleftrightarrow> list_all2 (row_sent loaded) rows fs \<and> (\<forall>i < length rows. sends i = None))
     \<and> (\<forall>f. length (coordinates (feature_of g doArcs now f)) = (if doArcs then 101 else 2))"
proof -
  obtain e' where l: "list_rows loaded sends rows 0 = (fs, e')" and e: "e = None \<longleftrightarrow> e' = None"
    using assms by (auto simp: ListAll_def split: prod.splits option.splits)
  have "e = None \<longleftrightarrow> list_all2 (row_sent loaded) rows fs \<and> (\<forall>i < length rows. sends i = None)"
    using list_rows_None [of loaded sends rows 0] l e by simp
  moreover have "length (coordinates (feature_of g doArcs now f)) = (if doArcs then 101 else 2)" for f
    by (simp add: feature_of_def line_def Let_def)
  ultimately show ?thesis
    by (auto simp: geoMapWith_def constructGeoMap_def receive_flights_stream split: option.splits sum.splits)
qed

theorem geo_map_of_listing_witness:
  "Geo_Status (geoMapWith False \<lparr>PointFromLatLng = id, Mul = (\<lambda>p _. p), Add = (\<lambda>p _. p), Normalize = id,
       LatLngFromPoint = id\<rparr> (\<lambda>fs. Inr (itoa (int (length fs)))) 0 None (flight_stream ([], None))) = 200"
  using geo_map_of_listing [of "[]" "Some (Plain ''connection reset'')" "Inr Map.empty" "\<lambda>_. None" "[]" None False
      "\<lparr>PointFromLatLng = id, Mul = (\<lambda>p _. p), Add = (\<lambda>p _. p), Normalize = id, LatLngFromPoint = id\<rparr>"
      "\<lambda>fs. Inr (itoa (int (length fs)))" 0]
  by (simp add: ListAll_def)

end
