(* ===== verification/Secrets.thy ===== *)
theory Secrets
  imports Go_Json
begin

text \<open>
  \<^verbatim>\<open>lib/secretstore\<close>, \<^verbatim>\<open>lib/bigq\<close> and \<^verbatim>\<open>lib/objectstore\<close>: secrets and short-lived tokens read from
  Vault, the token source of the BigQuery client, and the credentials of the backup bucket.
  The Vault client is an argument: what creating it, reading a secret and reading a token
  return. The data of a secret is a list of keys and values in the order in which Go iterates
  over the map.
\<close>

section \<open>Secrets\<close>

type_synonym secret_data = "(string \<times> json) list"

record vault_env =
  configure_err :: err
  new_client_err :: err
  kv_get :: "string \<Rightarrow> go_error + secret_data"
  logical_read :: "string \<Rightarrow> go_error + secret_data option"   \<comment> \<open>\<open>None\<close>: no such path, a nil secret\<close>

definition vault_NewClient :: "vault_env \<Rightarrow> err" where
  "vault_NewClient v = (if configure_err v \<noteq> None then Augment (configure_err v) ''failed to init vault client'' []
     else Augment (new_client_err v) ''failed to init vault client'' [])"

definition secret_Get :: "vault_env \<Rightarrow> string \<Rightarrow> go_error + secret_data" where
  "secret_Get v path = (case vault_NewClient v of
      Some e \<Rightarrow> Inl e
    | None \<Rightarrow> (case kv_get v path of
        Inl e \<Rightarrow> Inl (the (Augment (Some e) ''failed to get secret from vault'' []))
      | Inr data \<Rightarrow> Inr data))"

fun all_strings :: "string \<Rightarrow> secret_data \<Rightarrow> (string \<rightharpoonup> string) \<Rightarrow> go_error + (string \<rightharpoonup> string)" where
  "all_strings path [] second = Inr second"
| "all_strings path ((k, v) # data) second = (case v of
      JStr asStr \<Rightarrow> all_strings path data (second(k \<mapsto> asStr))
    | _ \<Rightarrow> Inl (terrors_New ErrPreconditionFailed ''unexpected non string value in secret'' [(''path'', path)]))"

definition GetString :: "vault_env \<Rightarrow> string \<Rightarrow> go_error + (string \<rightharpoonup> string)" where
  "GetString v path = (case secret_Get v path of
      Inl e \<Rightarrow> Inl e
    | Inr underlying \<Rightarrow> all_strings path underlying Map.empty)"

section \<open>Tokens\<close>

record GCPToken =
  Token_Value :: string
  ExpiresAt :: int   \<comment> \<open>Unix seconds\<close>

text \<open>
  \<^verbatim>\<open>reflect.TypeOf(v).String()\<close>: the type of a nil interface is itself nil, and asking for its
  name panics.
\<close>

fun type_string :: "json option \<Rightarrow> string outcome" where
  "type_string None = Panics ''nil pointer dereference''"
| "type_string (Some JNull) = Panics ''nil pointer dereference''"
| "type_string (Some (JBool _)) = Returns ''bool''"
| "type_string (Some (JNum _)) = Returns ''json.Number''"
| "type_string (Some (JStr _)) = Returns ''string''"
| "type_string (Some (JArr _)) = Returns ''[]interface {}''"
| "type_string (Some (JObj _)) = Returns ''map[string]interface {}''"

definition ExchangeGCPToken :: "vault_env \<Rightarrow> string \<Rightarrow> (go_error + GCPToken) outcome" where
  "ExchangeGCPToken v roleset = (case vault_NewClient v of
      Some e \<Rightarrow> Returns (Inl (the (Augment (Some e) ''failed to start vault client'' [])))
    | None \<Rightarrow> (case logical_read v (''gcp/roleset/'' @ roleset @ ''/token'') of
        Inl e \<Rightarrow> Returns (Inl (the (Augment (Some e) ''failed to get token from vault'' [])))
      | Inr None \<Rightarrow> Panics ''nil pointer dereference''
      | Inr (Some data) \<Rightarrow>
          (case (map_of data ''expires_at_seconds'', map_of data ''token'') of
             (Some (JNum expiresAtS), Some (JStr token)) \<Rightarrow> Returns (case atoi expiresAtS of
                 None \<Rightarrow> Inl (the (Augment (Some (Plain (''strconv.ParseInt: parsing '' @ expiresAtS)))
                   ''failed to parse token from vault'' [(''expiresAt'', expiresAtS)]))
               | Some expiresAtParsed \<Rightarrow> Inr \<lparr>Token_Value = token, ExpiresAt = expiresAtParsed\<rparr>)
           | (mapExpiresAt, mapToken) \<Rightarrow>
               bind_outcome (type_string mapToken) (\<lambda>tokenType.
               bind_outcome (type_string mapExpiresAt) (\<lambda>expireType.
                 Returns (Inl (terrors_New ErrPreconditionFailed
                   ''failed to get token from vault (could not parse response)''
                   [(''token_type'', tokenType), (''expires_at_type'', expireType),
                    (''expiresAt'', case mapExpiresAt of Some (JNum s) \<Rightarrow> s | _ \<Rightarrow> [])])))))))"

text \<open>\<^verbatim>\<open>vaultOAuthTokenSource.Token\<close>: the state is the latest token, times are Unix seconds.\<close>

definition Token :: "(go_error + GCPToken) \<Rightarrow> int \<Rightarrow> GCPToken option \<Rightarrow> (go_error + GCPToken) \<times> GCPToken option" where
  "Token renew now latest =
     (if latest = None \<or> ExpiresAt (the latest) < now then (case renew of
          Inl e \<Rightarrow> (Inl e, latest)
        | Inr renewed \<Rightarrow> (Inr renewed, Some renewed))
      else (Inr (the latest), latest))"

text \<open>
  \<^verbatim>\<open>bigq.NewClient\<close>, given what the BigQuery library answers for the project: how the client's
  token source renews its token, and its latest token.
\<close>

definition bigq_NewClient ::
  "(string \<Rightarrow> err) \<Rightarrow> vault_env \<Rightarrow> string \<Rightarrow> go_error + (go_error + GCPToken) outcome \<times> GCPToken option" where
  "bigq_NewClient new v roleset = (case new ''dcotta-com'' of
      Some e \<Rightarrow> Inl e
    | None \<Rightarrow> Inr (ExchangeGCPToken v roleset, None))"

section \<open>Credentials of the backup bucket\<close>

record aws_Credentials =
  AccessKeyID :: string
  SecretAccessKey :: string

definition credentialsProvider :: "vault_env \<Rightarrow> go_error + aws_Credentials" where
  "credentialsProvider v =
     (let credsPath = ''services/s-rpc-vault/b2-services-bu''; errParams = [(''secretPath'', credsPath)] in
      case GetString v credsPath of
        Inl e \<Rightarrow> Inl (the (Augment (Some e) ''could not load B2 credentials'' errParams))
      | Inr secret \<Rightarrow> (case (secret ''keyId'', secret ''secretKey'') of
          (Some keyId, Some secretKey) \<Rightarrow> Inr \<lparr>AccessKeyID = keyId, SecretAccessKey = secretKey\<rparr>
        | _ \<Rightarrow> Inl (NotFound [] ''could not find B2 credentials'' errParams)))"

record aws_Config =
  BaseEndpoint :: string
  Region :: string
  Credentials :: "go_error + aws_Credentials"   \<comment> \<open>what the provider answers when asked\<close>

definition B2Client :: "vault_env \<Rightarrow> go_error + aws_Config" where
  "B2Client v = Inr \<lparr>BaseEndpoint = ''https://s3.us-east-005.backblazeb2.com'', Region = ''us-east-005'',
     Credentials = credentialsProvider v\<rparr>"

section \<open>Facts\<close>

lemma all_strings_ok:
  "(\<exists>m. all_strings path data second = Inr m) \<longleftrightarrow> (\<forall>(k, v) \<in> set data. \<exists>s. v = JStr s)"
proof (induction data arbitrary: second)
  case (Cons kv data)
  then show ?case by (cases kv; cases "snd kv") auto
qed simp

lemma all_strings_lookup:
  "all_strings path data second = Inr m \<Longrightarrow> distinct (map fst data) \<Longrightarrow>
     m k = (case map_of data k of Some (JStr s) \<Rightarrow> Some s | _ \<Rightarrow> second k)"
proof (induction data arbitrary: second)
  case (Cons kv data)
  obtain x v where kv: "kv = (x, v)" by fastforce
  with Cons.prems obtain s where v: "v = JStr s" by (cases v) auto
  with kv Cons have "m k = (case map_of data k of Some (JStr s) \<Rightarrow> Some s | _ \<Rightarrow> (second(x \<mapsto> s)) k)" by simp
  moreover have "map_of data x = None" using Cons.prems(2) kv by (simp add: map_of_eq_None_iff)
  ultimately show ?case using kv v by (auto split: option.splits json.splits)
qed simp

lemma Token_current:
  assumes "Token renew now latest = (Inr t, latest')"
  shows "latest' = Some t" and "renew = Inr t \<or> now \<le> ExpiresAt t"
  using assms by (auto simp: Token_def split: if_splits sum.splits)

text \<open>Successive uses of a token source: the answer of Vault and the time of each use.\<close>

fun Tokens :: "((go_error + GCPToken) \<times> int) list \<Rightarrow> GCPToken option \<Rightarrow> (go_error + GCPToken) list \<times> GCPToken option" where
  "Tokens [] latest = ([], latest)"
| "Tokens ((r, now) # us) latest = (case Token r now latest of (x, latest') \<Rightarrow>
     (case Tokens us latest' of (xs, final) \<Rightarrow> (x # xs, final)))"

lemma Tokens_fresh:
  "\<forall>(r, now) \<in> set us. \<forall>t. r = Inr t \<longrightarrow> now \<le> ExpiresAt t \<Longrightarrow>
     i < length us \<Longrightarrow> fst (Tokens us latest) ! i = Inr t \<Longrightarrow> snd (us ! i) \<le> ExpiresAt t"
proof (induction us arbitrary: latest i)
  case (Cons u us)
  obtain r now where u: "u = (r, now)" by fastforce
  obtain x latest' where x: "Token r now latest = (x, latest')" by fastforce
  obtain xs final where xs: "Tokens us latest' = (xs, final)" by fastforce
  show ?case
  proof (cases i)
    case 0
    with Cons.prems u x xs have "x = Inr t" by simp
    with x Token_current(2) have "r = Inr t \<or> now \<le> ExpiresAt t" by blast
    with Cons.prems u 0 show ?thesis by auto
  next
    case (Suc j)
    with Cons.IH [of j latest'] Cons.prems u x xs show ?thesis by simp
  qed
qed simp

section \<open>Properties\<close>

text \<open>
  Reading a secret as strings succeeds exactly when Vault answers and every value is a
  string, and then returns each key's value, independently of the order in which the map of
  the secret is visited.
\<close>

theorem GetString_exact:
  assumes "distinct (map fst data)" and "kv_get v path = Inr data"
  shows "(case GetString v path of
       Inl _ \<Rightarrow> vault_NewClient v \<noteq> None \<or> \<not> (\<forall>(k, x) \<in> set data. \<exists>s. x = JStr s)
     | Inr m \<Rightarrow> vault_NewClient v = None \<and> (\<forall>(k, x) \<in> set data. \<exists>s. x = JStr s)
         \<and> (\<forall>k s. m k = Some s \<longleftrightarrow> map_of data k = Some (JStr s)))"
proof (cases "vault_NewClient v")
  case (Some e)
  then show ?thesis by (simp add: GetString_def secret_Get_def)
next
  case None
  show ?thesis
  proof (cases "all_strings path data Map.empty")
    case (Inl e)
    with all_strings_ok [of path data Map.empty] None assms show ?thesis
      by (simp add: GetString_def secret_Get_def)
  next
    case (Inr m)
    have "m k = Some s \<longleftrightarrow> map_of data k = Some (JStr s)" for k s
      using all_strings_lookup [OF Inr assms(1), of k] by (auto split: option.splits json.splits)
    moreover have "\<forall>(k, x) \<in> set data. \<exists>s. x = JStr s" using all_strings_ok Inr by blast
    ultimately show ?thesis using None assms Inr by (simp add: GetString_def secret_Get_def)
  qed
qed

text \<open>
  A token handed to the BigQuery client has not expired: over any sequence of uses, with
  any failures of Vault in between, provided the tokens Vault issues are valid when issued.
\<close>

theorem tokens_never_stale:
  assumes "\<forall>(r, now) \<in> set us. \<forall>t. r = Inr t \<longrightarrow> now \<le> ExpiresAt t"
    and "i < length us" and "fst (Tokens us None) ! i = Inr t"
  shows "snd (us ! i) \<le> ExpiresAt t"
  using Tokens_fresh [OF assms] .

theorem tokens_never_stale_witness:
  "ExpiresAt \<lparr>Token_Value = ''b'', ExpiresAt = 9\<rparr> \<ge> 6"
  using tokens_never_stale [of "[(Inr \<lparr>Token_Value = ''a'', ExpiresAt = 4\<rparr>, 1), (Inl (Plain ''down''), 3),
      (Inr \<lparr>Token_Value = ''b'', ExpiresAt = 9\<rparr>, 6)]" 2 "\<lparr>Token_Value = ''b'', ExpiresAt = 9\<rparr>"]
  by (simp add: Token_def numeral_2_eq_2)

definition demo_vault :: vault_env where
  "demo_vault = \<lparr>configure_err = None, new_client_err = None, kv_get = (\<lambda>_. Inr [(''value'', JStr ''x''), (''n'', JNum ''1'')]),
     logical_read = (\<lambda>_. Inr None)\<rparr>"

theorem GetString_exact_witness:
  "case GetString demo_vault ''p'' of Inl _ \<Rightarrow> True | Inr m \<Rightarrow> False"
  using GetString_exact [of "[(''value'', JStr ''x''), (''n'', JNum ''1'')]" demo_vault "''p''"]
  by (simp add: demo_vault_def split: sum.splits)

end
