(* ===== verification/Webhook.thy ===== *)
theory Webhook
  imports Secrets Consul
begin

text \<open>
  \<^verbatim>\<open>services/s-web-github-webhook\<close>: receiving workflow events from GitHub and checking their
  signature with a secret from Vault. HMAC-SHA256, the JSON parser and the BigQuery client
  are arguments.
\<close>

section \<open>Events\<close>

record WorkflowJobEntity =
  HeadBranch :: string
  HeadSha :: string
  Job_Status :: string
  Conclusion :: string
  Job_Name :: string

record WorkflowJobEvent =
  Action :: string
  WorkflowJob :: "WorkflowJobEntity option"

definition zero_job :: WorkflowJobEntity where
  "zero_job = \<lparr>HeadBranch = [], HeadSha = [], Job_Status = [], Conclusion = [], Job_Name = []\<rparr>"

definition dec_job :: "WorkflowJobEntity decoder" where
  "dec_job = dec_struct
     [(''head_branch'', field HeadBranch (\<lambda>v s. s\<lparr>HeadBranch := v\<rparr>) dec_string),
      (''head_sha'', field HeadSha (\<lambda>v s. s\<lparr>HeadSha := v\<rparr>) dec_string),
      (''status'', field Job_Status (\<lambda>v s. s\<lparr>Job_Status := v\<rparr>) dec_string),
      (''conclusion'', field Conclusion (\<lambda>v s. s\<lparr>Conclusion := v\<rparr>) dec_string),
      (''name'', field Job_Name (\<lambda>v s. s\<lparr>Job_Name := v\<rparr>) dec_string)]"

definition dec_event :: "WorkflowJobEvent decoder" where
  "dec_event = dec_struct
     [(''action'', field Action (\<lambda>v s. s\<lparr>Action := v\<rparr>) dec_string),
      (''workflow_job'', field WorkflowJob (\<lambda>v s. s\<lparr>WorkflowJob := v\<rparr>) (dec_ptr dec_job zero_job))]"

section \<open>Validation\<close>

definition ghWebhookSecret :: "vault_env \<Rightarrow> go_error + string" where
  "ghWebhookSecret v = (case GetString v ''services/s-web-github-webhook/webhook_secret'' of
      Inl e \<Rightarrow> Inl (the (Augment (Some e) ''failed to fetch webhook secret from vault'' []))
    | Inr secret \<Rightarrow> (case secret ''value'' of
        None \<Rightarrow> Inl (NotFound ''missing_secret'' ''failed to patse webhook secret from vault'' [])
      | Some whSecret \<Rightarrow> Inr whSecret))"

text \<open>\<open>disabled\<close>: the first result of the configuration's \<^verbatim>\<open>Bool\<close>, whose error is ignored.\<close>

definition signature_of :: "(string \<Rightarrow> string \<Rightarrow> string) \<Rightarrow> string \<Rightarrow> string \<Rightarrow> string" where
  "signature_of hmac secret body = ''sha256='' @ hex_encode (hmac secret body)"

definition validateWebhookHmac ::
  "(string \<Rightarrow> string \<Rightarrow> string) \<Rightarrow> bool \<Rightarrow> string \<Rightarrow> string \<Rightarrow> string \<Rightarrow> err" where
  "validateWebhookHmac hmac disabled payloadBody secret digestGH256 =
     (if disabled then None
      else (let actualSignature = signature_of hmac secret payloadBody in
        if actualSignature \<noteq> digestGH256 then
          Some (Forbidden ''invalid'' ''request signatures didn't match''
            [(''header_expected'', digestGH256), (''actual'', actualSignature)])
        else None))"

section \<open>Handlers\<close>

record 'c webhook_env =
  vault :: vault_env
  consul :: "'c consul_env"
  consul_kv :: "'c kv_get"
  whctx :: ctx
  hmac_sha256 :: "string \<Rightarrow> string \<Rightarrow> string"
  json_parse :: "string \<Rightarrow> payload"

datatype push_result =
    SecretUnavailable go_error | InvalidSignature go_error | Unparsable go_error | Accepted WorkflowJobEvent

definition validation_disabled :: "'c webhook_env \<Rightarrow> 'c option \<Rightarrow> bool \<times> 'c option" where
  "validation_disabled v s =
     (case Value_Bool (consul v) (consul_kv v) (Get (whctx v) ''webhook/disableValidation'') s of
        ((disabled, _), s') \<Rightarrow> (disabled, s'))"

text \<open>
  \<^verbatim>\<open>handlePush\<close> for the bytes that could be read from the body (a read error is only logged)
  and the signature header. It always answers 204; reporting an accepted event to BigQuery
  is switched off in the code. The state is the Consul client.
\<close>

definition handlePush ::
  "'c webhook_env \<Rightarrow> string \<Rightarrow> string \<Rightarrow> 'c option \<Rightarrow> (nat \<times> push_result) \<times> 'c option" where
  "handlePush v fullBody ghHmac256 s = (case ghWebhookSecret (vault v) of
      Inl e \<Rightarrow> ((204, SecretUnavailable e), s)
    | Inr ghSecret \<Rightarrow> (case validation_disabled v s of (disabled, s') \<Rightarrow>
        (case validateWebhookHmac (hmac_sha256 v) disabled fullBody ghSecret ghHmac256 of
           Some e \<Rightarrow> ((204, InvalidSignature e), s')
         | None \<Rightarrow> (case unmarshal dec_event (json_parse v fullBody) \<lparr>Action = [], WorkflowJob = None\<rparr> of
             (_, Some e) \<Rightarrow> ((204, Unparsable e), s')
           | (event, None) \<Rightarrow> ((204, Accepted event), s')))))"

text \<open>The statement's columns after the insertion time, and the parameters bound to them.\<close>

definition action_columns :: "string list" where
  "action_columns = [''head_branch'', ''head_sha'', ''status'', ''conclusion'', ''name'']"

definition reportEvent ::
  "((string \<times> string) list \<Rightarrow> err) \<Rightarrow> WorkflowJobEvent \<Rightarrow> err outcome" where
  "reportEvent submit event = (case WorkflowJob event of
      None \<Rightarrow> Panics ''nil pointer dereference''
    | Some j \<Rightarrow> Returns (Augment (submit (zip action_columns
        [HeadSha j, HeadBranch j, Job_Status j, Conclusion j, Job_Name j]))
        ''failed to insert action into bq'' []))"

definition webhook_InitService :: "go_error + 'bq \<Rightarrow> string outcome" where
  "webhook_InitService bqClient = (case bqClient of
      Inl e \<Rightarrow> Panics (error_text (the (Propagate (Some e))))
    | Inr _ \<Rightarrow> Returns ''s-web-github-webhook'')"

definition webhook_OnShutdown :: "err \<Rightarrow> err \<Rightarrow> err \<Rightarrow> err" where
  "webhook_OnShutdown close_err bq_err serverErr = errors_Join
     [Augment close_err ''failed to close http server'' [], Augment bq_err ''failed to close bq client'' [],
      Augment serverErr ''failed to close server'' []]"

section \<open>Facts\<close>

lemma signature_inj: "signature_of h k x = signature_of h k' y \<longleftrightarrow> h k x = h k' y"
  by (simp add: signature_of_def hex_encode_inj)

lemma validation_disabled_iff:
  "fst (validation_disabled v s) \<longleftrightarrow>
     (\<exists>b s'. getKV (consul v) (consul_kv v) (Get (whctx v) ''webhook/disableValidation'') s = (Inr b, s')
        \<and> parse_bool b = Some True)"
  by (auto simp: validation_disabled_def Value_Bool_def split: sum.splits prod.splits option.splits)

lemma report_swaps_branch_and_sha:
  "WorkflowJob event = Some j \<Longrightarrow>
     reportEvent submit event = Returns (Augment (submit
       [(''head_branch'', HeadSha j), (''head_sha'', HeadBranch j), (''status'', Job_Status j),
        (''conclusion'', Conclusion j), (''name'', Job_Name j)]) ''failed to insert action into bq'' [])"
  by (simp add: reportEvent_def action_columns_def)

section \<open>Properties\<close>

text \<open>
  C17: A push is accepted exactly when the webhook secret could be read, its body decodes as an
  event, and either the configuration explicitly disables validation or the signature header
  is the one of the body under the secret: a header made with another key or for another body
  passes only if the two MACs are equal. Validation fails closed: a missing, unreadable or
  malformed configuration value keeps it on. The answer is 204 in every case.
\<close>

theorem webhook_accepts_iff:
  "fst (fst (handlePush v body header s)) = 204
   \<and> (snd (fst (handlePush v body header s)) = Accepted event \<longleftrightarrow>
       (\<exists>secret. ghWebhookSecret (vault v) = Inr secret
          \<and> unmarshal dec_event (json_parse v body) \<lparr>Action = [], WorkflowJob = None\<rparr> = (event, None)
          \<and> ((\<exists>b s'. getKV (consul v) (consul_kv v) (Get (whctx v) ''webhook/disableValidation'') s = (Inr b, s')
                 \<and> parse_bool b = Some True)
             \<or> header = signature_of (hmac_sha256 v) secret body)))
   \<and> (header = signature_of (hmac_sha256 v) k other \<and> (\<forall>secret. hmac_sha256 v secret body \<noteq> hmac_sha256 v k other)
       \<and> \<not> fst (validation_disabled v s) \<longrightarrow> snd (fst (handlePush v body header s)) \<noteq> Accepted event)"
proof (cases "ghWebhookSecret (vault v)")
  case (Inl e)
  then show ?thesis by (simp add: handlePush_def)
next
  case (Inr secret)
  obtain d s' where d: "validation_disabled v s = (d, s')" by fastforce
  obtain ev e where u: "unmarshal dec_event (json_parse v body) \<lparr>Action = [], WorkflowJob = None\<rparr> = (ev, e)"
    by fastforce
  have d_iff: "d \<longleftrightarrow> (\<exists>b s'. getKV (consul v) (consul_kv v) (Get (whctx v) ''webhook/disableValidation'') s = (Inr b, s')
      \<and> parse_bool b = Some True)"
    using validation_disabled_iff [of v s] d by simp
  have "snd (fst (handlePush v body header s)) = Accepted event \<longleftrightarrow>
      (d \<or> header = signature_of (hmac_sha256 v) secret body) \<and> ev = event \<and> e = None"
    and "fst (fst (handlePush v body header s)) = 204"
    using Inr d u by (auto simp: handlePush_def validateWebhookHmac_def Let_def split: option.splits)
  with Inr u d show ?thesis unfolding d_iff [symmetric] by (auto simp: signature_inj)
qed

definition demo_webhook :: "unit webhook_env" where
  "demo_webhook = \<lparr>vault = \<lparr>configure_err = None, new_client_err = None, kv_get = (\<lambda>_. Inr [(''value'', JStr ''k'')]),
       logical_read = (\<lambda>_. Inr None)\<rparr>,
     consul = (Map.empty, \<lambda>_. Inr ()), consul_kv = (\<lambda>_ _. Inr None), whctx = background,
     hmac_sha256 = (\<lambda>k b. k @ b), json_parse = (\<lambda>b. Some (JObj [(''action'', JStr b)]))\<rparr>"

theorem webhook_accepts_iff_witness:
  "snd (fst (handlePush demo_webhook ''hi'' (signature_of (@) ''k'' ''hi'') None))
     = Accepted \<lparr>Action = ''hi'', WorkflowJob = None\<rparr>"
proof -
  have "ghWebhookSecret (vault demo_webhook) = Inr ''k''"
    by (simp add: ghWebhookSecret_def GetString_def secret_Get_def vault_NewClient_def demo_webhook_def)
  moreover have "unmarshal dec_event (json_parse demo_webhook ''hi'') \<lparr>Action = [], WorkflowJob = None\<rparr>
      = (\<lparr>Action = ''hi'', WorkflowJob = None\<rparr>, None)"
    by (simp add: demo_webhook_def dec_event_def dec_simps)
  moreover have "hmac_sha256 demo_webhook = (@)" by (simp add: demo_webhook_def)
  ultimately show ?thesis
    using webhook_accepts_iff [of demo_webhook "''hi''" "signature_of (@) ''k'' ''hi''" None
        "\<lparr>Action = ''hi'', WorkflowJob = None\<rparr>"] by simp
qed

end
