(* ===== verification/Portfolio.thy ===== *)
theory Portfolio
  imports Consul Go_Float Telemetry "HOL-Library.Multiset"
begin

text \<open>
  \<^verbatim>\<open>services/s-rpc-portfolio-stats\<close> and \<^verbatim>\<open>services/s-web-portfolio\<close>: counting visits to the
  portfolio site and serving the aquarium's temperature to it from a cache. The database,
  SHA-256 and the calls to other services are arguments.
\<close>

section \<open>Visits\<close>

record Visit =
  Url :: string
  Ip :: string
  UserAgent :: string

definition salt :: string where
  "salt = map char_of [4 :: nat, 49, 127, 104, 174, 252, 225, 13]"

definition normaliseIp :: "string \<Rightarrow> string" where
  "normaliseIp str =
     (if \<not> contains str '','' then str
      else (case split str '', '' of [first, _] \<Rightarrow> first | _ \<Rightarrow> str))"

definition excludeUrls :: "string list" where
  "excludeUrls = [''/static'', ''/assets'', ''.'']"

definition includeList :: "string list" where
  "includeList = [''/blog'', ''/projects'']"

definition shouldIncludeUrl :: "string \<Rightarrow> bool" where
  "shouldIncludeUrl url =
     (if url = ''/'' then True
      else if list_ex (contains url) excludeUrls then False
      else list_ex (contains url) includeList)"

text \<open>A row of the visit table: URL, time of insertion, fingerprint.\<close>

type_synonym visit_row = "string \<times> int \<times> string"

definition fingerprint :: "(string \<Rightarrow> string) \<Rightarrow> Visit \<Rightarrow> string" where
  "fingerprint sha256 visit = hex_encode (sha256 (salt @ normaliseIp (Ip visit) @ UserAgent visit))"

definition Report :: "(string \<Rightarrow> string) \<Rightarrow> err \<Rightarrow> int \<Rightarrow> Visit \<Rightarrow> visit_row list \<Rightarrow> err \<times> visit_row list" where
  "Report sha256 exec_err now visit db =
     (if \<not> shouldIncludeUrl (Url visit) then (None, db)
      else (case exec_err of
          Some e \<Rightarrow> (Augment (Some e) ''failed to insert visit into db'' [], db)
        | None \<Rightarrow> (None, db @ [(Url visit, now, fingerprint sha256 visit)])))"

section \<open>Statistics\<close>

definition day :: int where
  "day = 24 * 60 * 60 * 10 ^ 9"

definition durations :: "int list" where
  "durations = [0, day, 7 * day, 30 * day, 90 * day]"

text \<open>Days are truncated towards zero; the quotient is exact for the durations in use.\<close>

definition fmtDuration :: "int \<Rightarrow> string" where
  "fmtDuration t = (if t = 0 then ''ever'' else itoa (sgn t * (\<bar>t\<bar> div day)) @ ''d'')"

definition since_absolute :: "int \<Rightarrow> int \<Rightarrow> int" where
  "since_absolute now since = (if since = 0 then 0 else now - since)"

text \<open>
  A counting query for a point in time: an error, or the rows it scans to. The last count
  is kept; without a row it is 0.
\<close>

type_synonym count_query = "int \<Rightarrow> go_error + (go_error + int) list"

fun scan_counts :: "string \<Rightarrow> (go_error + int) list \<Rightarrow> int \<Rightarrow> go_error + int" where
  "scan_counts what [] counted = Inr counted"
| "scan_counts what (Inl e # rows) counted = Inl (the (Augment (Some e) what []))"
| "scan_counts what (Inr n # rows) counted = scan_counts what rows n"

definition refreshPageVisitsSince ::
  "count_query \<Rightarrow> int \<Rightarrow> int \<Rightarrow> (string \<rightharpoonup> int) \<Rightarrow> err \<times> (string \<rightharpoonup> int)" where
  "refreshPageVisitsSince query now since visits =
     (let sinceString = fmtDuration since in
      case query (since_absolute now since) of
        Inl e \<Rightarrow> (Augment (Some e) ''failed to query visits'' [(''since'', sinceString)], visits)
      | Inr rows \<Rightarrow> (case scan_counts ''failed to scan visits query result'' rows 0 of
          Inl e \<Rightarrow> (Some e, visits)
        | Inr counted \<Rightarrow> (None, visits(sinceString \<mapsto> counted))))"

definition refreshUniquePageVisitsSince ::
  "count_query \<Rightarrow> int \<Rightarrow> int \<Rightarrow> (string \<rightharpoonup> int) \<Rightarrow> err \<times> (string \<rightharpoonup> int)" where
  "refreshUniquePageVisitsSince query now since visitsUnique =
     (let sinceString = fmtDuration since in
      case query (since_absolute now since) of
        Inl e \<Rightarrow> (Augment (Some e) ''failed to query unique visits'' [(''since'', sinceString)], visitsUnique)
      | Inr rows \<Rightarrow> (case scan_counts ''failed to scan unique visits query result'' rows 0 of
          Inl e \<Rightarrow> (Some e, visitsUnique)
        | Inr counted \<Rightarrow> (None, visitsUnique(sinceString \<mapsto> counted))))"

type_synonym url_gauges = "string \<times> string \<rightharpoonup> int"

fun url_rows :: "string \<Rightarrow> (go_error + int \<times> string) list \<Rightarrow> url_gauges \<Rightarrow> err \<times> url_gauges" where
  "url_rows since [] g = (None, g)"
| "url_rows since (Inl e # rows) g = (Augment (Some e) ''failed to scan unique visits query result'' [], g)"
| "url_rows since (Inr (n, url) # rows) g = url_rows since rows (g((since, url) \<mapsto> n))"

definition refreshUniquePageVisitsSinceWithURL ::
  "(int \<Rightarrow> go_error + (go_error + int \<times> string) list) \<Rightarrow> int \<Rightarrow> int \<Rightarrow> url_gauges \<Rightarrow> err \<times> url_gauges" where
  "refreshUniquePageVisitsSinceWithURL query now since g =
     (let sinceString = fmtDuration since in
      case query (since_absolute now since) of
        Inl e \<Rightarrow> (Augment (Some e) ''failed to query unique visits'' [(''since'', sinceString)], g)
      | Inr rows \<Rightarrow> url_rows sinceString rows g)"

record visit_gauges =
  page_visits :: "string \<rightharpoonup> int"
  page_visits_unique :: "string \<rightharpoonup> int"
  page_visits_unique_url :: url_gauges

record visit_queries =
  q_visits :: count_query
  q_unique :: count_query
  q_url :: "int \<Rightarrow> go_error + (go_error + int \<times> string) list"

definition refresh_one :: "visit_queries \<Rightarrow> int \<Rightarrow> int \<Rightarrow> err list \<times> visit_gauges \<Rightarrow> err list \<times> visit_gauges" where
  "refresh_one q now since st = (case st of (errs, g) \<Rightarrow>
     (case refreshPageVisitsSince (q_visits q) now since (page_visits g) of (err1, v) \<Rightarrow>
     (case refreshUniquePageVisitsSince (q_unique q) now since (page_visits_unique g) of (err2, u) \<Rightarrow>
     (case refreshUniquePageVisitsSinceWithURL (q_url q) now since (page_visits_unique_url g) of (err3, w) \<Rightarrow>
       (errs @ [err1, err2, err3],
        \<lparr>page_visits = v, page_visits_unique = u, page_visits_unique_url = w\<rparr>)))))"

text \<open>One turn of \<^verbatim>\<open>RefreshPromStats\<close>.\<close>

definition refresh_visits :: "visit_queries \<Rightarrow> int \<Rightarrow> visit_gauges \<Rightarrow> err \<times> visit_gauges" where
  "refresh_visits q now g = (case fold (refresh_one q now) durations ([], g) of
     (errs, g') \<Rightarrow> (errors_Join errs, g'))"

text \<open>Times of the loop are in seconds, those of the queries as the database has them.\<close>

definition visits_refreshRate :: int where
  "visits_refreshRate = 30"

definition visits_turn :: "(int \<Rightarrow> visit_queries \<times> int \<times> int) \<Rightarrow> int \<Rightarrow> visit_gauges \<Rightarrow> err \<times> visit_gauges \<times> int" where
  "visits_turn answers t g = (case answers t of (q, clock, ends) \<Rightarrow>
     (case refresh_visits q clock g of (e, g') \<Rightarrow> (e, g', ends)))"

definition visits_RefreshPromStats ::
  "(int \<Rightarrow> visit_queries \<times> int \<times> int) \<Rightarrow> int option \<Rightarrow> int \<Rightarrow> visit_gauges \<Rightarrow> (visit_gauges \<times> span list \<times> int) option" where
  "visits_RefreshPromStats answers = refresh_loop (visits_turn answers) visits_refreshRate"

definition portfolio_stats_InitService :: "go_error + 'db \<Rightarrow> err" where
  "portfolio_stats_InitService db = (case db of Inl e \<Rightarrow> Propagate (Some e) | Inr _ \<Rightarrow> None)"

text \<open>The hook's \<^verbatim>\<open>err\<close> is the nil error of opening the database.\<close>

definition portfolio_stats_OnShutdown :: "err \<Rightarrow> err" where
  "portfolio_stats_OnShutdown close_err = (if close_err \<noteq> None then Augment None ''failed to close DB'' [] else None)"

section \<open>The site's API\<close>

record BrowseRequest =
  Browse_Url :: string

definition dec_browse :: "BrowseRequest decoder" where
  "dec_browse = dec_struct [(''url'', field Browse_Url (\<lambda>v s. s\<lparr>Browse_Url := v\<rparr>) dec_string)]"

text \<open>
  The status and the headers of the answer, and the visit reported in the background. A header
  set after \<^verbatim>\<open>WriteHeader\<close> is not sent, so the answer to a malformed request has none.
\<close>

definition portfolio_origin :: "string \<times> string" where
  "portfolio_origin = (''Access-Control-Allow-Origin'', ''https://nico.dcotta.com'')"

definition handleHttpBrowse ::
  "bool \<Rightarrow> payload \<Rightarrow> string \<Rightarrow> string \<Rightarrow> nat \<times> (string \<times> string) list \<times> Visit option" where
  "handleHttpBrowse doGrpcUpstream body forwardedFor userAgent =
     (case unmarshal dec_browse body \<lparr>Browse_Url = []\<rparr> of (parsed, e) \<Rightarrow>
        (if e \<noteq> None then 400 else 200, if e \<noteq> None then [] else [portfolio_origin],
         if doGrpcUpstream then Some \<lparr>Url = Browse_Url parsed, Ip = forwardedFor, UserAgent = userAgent\<rparr> else None))"

record temp_cache =
  cachedValue :: string
  cachedAt :: "int option"   \<comment> \<open>\<open>None\<close>: the zero time\<close>

definition aquarium_headers :: "(string \<times> string) list" where
  "aquarium_headers = [portfolio_origin, (''Content-Type'', ''application/json''), (''Cache-Control'', ''max-age=30'')]"

text \<open>
  Answering from the cache or from Prometheus: status, headers (the same for an error, which a
  browser may so keep for half a minute) and temperature; the last component is the update
  that a goroutine applies to the cache later, stamped with the time after the query.
\<close>

definition handleAquariumTemp ::
  "(string \<Rightarrow> go_error + string) \<Rightarrow> int \<Rightarrow> int \<Rightarrow> temp_cache
    \<Rightarrow> nat \<times> (string \<times> string) list \<times> string option \<times> (string \<times> int) option" where
  "handleAquariumTemp queryInstant now later c =
     (if (case cachedAt c of None \<Rightarrow> False | Some t \<Rightarrow> now - t < 20 * 10 ^ 9)
      then (200, aquarium_headers, Some (cachedValue c), None)
      else (case queryInstant (''avg(s_rpc_mqtt_pill_temp{shelly_id='' @ [CHR 0x22] @ ''pill107'' @ [CHR 0x22] @ ''})'') of
          Inl e \<Rightarrow> (500, aquarium_headers, None, None)
        | Inr result \<Rightarrow> (case parse_float result of
            None \<Rightarrow> (500, aquarium_headers, None, None)
          | Some parsed \<Rightarrow> (200, aquarium_headers, Some (format_1f parsed), Some (format_1f parsed, later)))))"

definition refreshCache :: "string \<times> int \<Rightarrow> temp_cache \<Rightarrow> temp_cache" where
  "refreshCache update c = (case update of (v, timestamp) \<Rightarrow>
     if (case cachedAt c of None \<Rightarrow> False | Some t \<Rightarrow> timestamp < t) then c
     else \<lparr>cachedValue = v, cachedAt = Some timestamp\<rparr>)"

datatype portfolio_route = Browse | AquariumTemp | PortfolioNotFound

definition MakeHandler :: "string \<Rightarrow> portfolio_route" where
  "MakeHandler path = (if path = ''/api/browse'' then Browse
     else if path = ''/api/aquarium_temp'' then AquariumTemp else PortfolioNotFound)"

text \<open>Nothing assigns the server error that the shutdown hook reports.\<close>

definition web_portfolio_OnShutdown :: err where
  "web_portfolio_OnShutdown = (let serverErr = None in
     if serverErr \<noteq> None then Augment serverErr ''failed to close http server'' [] else None)"

section \<open>Facts\<close>

lemma refreshCache_at: "cachedAt (refreshCache u c) =
   Some (case cachedAt c of None \<Rightarrow> snd u | Some t \<Rightarrow> max (snd u) t)"
  by (cases u) (auto simp: refreshCache_def split: option.splits)

lemma refreshCache_newest:
  "snd u < t \<or> u = (v, t) \<Longrightarrow> refreshCache u \<lparr>cachedValue = v, cachedAt = Some t\<rparr> = \<lparr>cachedValue = v, cachedAt = Some t\<rparr>"
  by (cases u) (auto simp: refreshCache_def)

lemma fold_newest:
  "\<forall>u \<in> set us. snd u < t \<or> u = (v, t) \<Longrightarrow>
     fold refreshCache us \<lparr>cachedValue = v, cachedAt = Some t\<rparr> = \<lparr>cachedValue = v, cachedAt = Some t\<rparr>"
  by (induction us) (auto simp: refreshCache_newest)

lemma url_rows_other:
  "\<forall>n. Inr (n, url) \<notin> set rows \<Longrightarrow> snd (url_rows since rows g) (since', url) = g (since', url)"
  by (induction since rows g rule: url_rows.induct) auto

lemma url_rows_since: "since' \<noteq> since \<Longrightarrow> snd (url_rows since rows g) (since', url) = g (since', url)"
  by (induction since rows g rule: url_rows.induct) auto

lemma duration_labels: "map fmtDuration durations = [''ever'', ''1d'', ''7d'', ''30d'', ''90d'']"
  by (simp add: durations_def fmtDuration_def day_def itoa_def digit_char_def show_nat.simps, code_simp)

lemma refresh_one_visits:
  "page_visits (snd (refresh_one q now d st)) = snd (refreshPageVisitsSince (q_visits q) now d (page_visits (snd st)))"
  by (simp add: refresh_one_def split: prod.splits)

lemma refresh_one_url:
  "page_visits_unique_url (snd (refresh_one q now d st)) =
     snd (refreshUniquePageVisitsSinceWithURL (q_url q) now d (page_visits_unique_url (snd st)))"
  by (simp add: refresh_one_def split: prod.splits)

lemma fold_visits:
  "\<forall>d \<in> set ds. q_visits q (since_absolute now d) = Inr [Inr (n d)] \<Longrightarrow>
     page_visits (snd (fold (refresh_one q now) ds st)) = fold (\<lambda>d g. g(fmtDuration d \<mapsto> n d)) ds (page_visits (snd st))"
  by (induction ds arbitrary: st) (auto simp: refresh_one_visits refreshPageVisitsSince_def Let_def)

lemma fold_update:
  "distinct (map f ds) \<Longrightarrow> d \<in> set ds \<Longrightarrow> fold (\<lambda>d g. g(f d \<mapsto> n d)) ds g (f d) = Some (n d)"
proof (induction ds rule: rev_induct)
  case (snoc x ds)
  then show ?case by (auto simp: rev_image_eqI)
qed simp

lemma fold_url_other:
  "\<forall>d \<in> set ds. \<forall>rows. q_url q (since_absolute now d) = Inr rows \<longrightarrow> (\<forall>n. Inr (n, url) \<notin> set rows) \<Longrightarrow>
     page_visits_unique_url (snd (fold (refresh_one q now) ds st)) (l, url) = page_visits_unique_url (snd st) (l, url)"
proof (induction ds arbitrary: st)
  case (Cons d ds)
  have "snd (refreshUniquePageVisitsSinceWithURL (q_url q) now d g) (l, url) = g (l, url)" for g
    using Cons.prems url_rows_other [of url]
    by (auto simp: refreshUniquePageVisitsSinceWithURL_def Let_def split: sum.splits)
  with Cons show ?case by (simp add: refresh_one_url)
qed simp

section \<open>Properties\<close>

text \<open>
  The cached temperature is the newest one fetched, whatever the order in which the
  goroutines that refresh the cache happen to run: an update with an older stamp never
  replaces it.
\<close>

theorem aquarium_cache_newest_wins:
  assumes "(v, t) \<in> set us" and "\<forall>u \<in> set us. snd u < t \<or> u = (v, t)"
    and "case cachedAt c of None \<Rightarrow> True | Some t0 \<Rightarrow> t0 \<le> t"
  shows "fold refreshCache us c = \<lparr>cachedValue = v, cachedAt = Some t\<rparr>"
  using assms
proof (induction us arbitrary: c)
  case (Cons u us)
  show ?case
  proof (cases "u = (v, t)")
    case True
    with Cons.prems have "refreshCache u c = \<lparr>cachedValue = v, cachedAt = Some t\<rparr>"
      by (auto simp: refreshCache_def split: option.splits)
    with fold_newest [of us t v] Cons.prems show ?thesis by simp
  next
    case False
    with Cons.prems have "case cachedAt (refreshCache u c) of None \<Rightarrow> True | Some t0 \<Rightarrow> t0 \<le> t"
      by (auto simp: refreshCache_at split: option.splits)
    with Cons.IH [of "refreshCache u c"] Cons.prems False show ?thesis by auto
  qed
qed simp

theorem aquarium_cache_newest_wins_witness:
  "fold refreshCache [(''21.0'', 5), (''22.5'', 9), (''20.1'', 7)] \<lparr>cachedValue = [], cachedAt = None\<rparr>
     = \<lparr>cachedValue = ''22.5'', cachedAt = Some 9\<rparr>"
  using aquarium_cache_newest_wins [of "''22.5''" 9 "[(''21.0'', 5), (''22.5'', 9), (''20.1'', 7)]"
      "\<lparr>cachedValue = [], cachedAt = None\<rparr>"] by simp

text \<open>
  One refresh of the visit statistics. The gauge of every reporting period is the count
  returned for visits since the start of that period, counted from the epoch for the period
  called \<^verbatim>\<open>ever\<close>; no period overwrites another. A URL that no query returns any more keeps the
  count it had: the per-URL gauges of a period are not reset when its visits are past.
\<close>

theorem visit_gauges_exact:
  assumes "\<forall>d \<in> set durations. q_visits q (since_absolute now d) = Inr [Inr (n d)]"
  shows "(\<forall>d \<in> set durations. page_visits (snd (refresh_visits q now g)) (fmtDuration d) = Some (n d))
     \<and> ((\<forall>d \<in> set durations. \<forall>rows. q_url q (since_absolute now d) = Inr rows \<longrightarrow> (\<forall>k. Inr (k, url) \<notin> set rows)) \<longrightarrow>
         page_visits_unique_url (snd (refresh_visits q now g)) (period, url) = page_visits_unique_url g (period, url))"
proof -
  have "distinct (map fmtDuration durations)" by (simp add: duration_labels)
  then show ?thesis
    using fold_visits [OF assms, of "([], g)"] fold_update [of fmtDuration durations]
      fold_url_other [of durations q now url "([], g)" period]
    by (auto simp: refresh_visits_def split: prod.splits)
qed

theorem visit_gauges_exact_witness:
  "let q = \<lparr>q_visits = (\<lambda>t. Inr [Inr (t + 1)]), q_unique = (\<lambda>_. Inr []), q_url = (\<lambda>_. Inr [])\<rparr>;
       g = \<lparr>page_visits = Map.empty, page_visits_unique = Map.empty,
            page_visits_unique_url = [(''7d'', ''/blog'') \<mapsto> 3]\<rparr> in
     page_visits (snd (refresh_visits q 0 g)) (fmtDuration day) = Some (1 - day)
     \<and> page_visits_unique_url (snd (refresh_visits q 0 g)) (''7d'', ''/blog'') = Some 3"
  using visit_gauges_exact [of "\<lparr>q_visits = (\<lambda>t. Inr [Inr (t + 1)]), q_unique = (\<lambda>_. Inr []), q_url = (\<lambda>_. Inr [])\<rparr>"
      0 "\<lambda>d. since_absolute 0 d + 1" "\<lparr>page_visits = Map.empty, page_visits_unique = Map.empty,
            page_visits_unique_url = [(''7d'', ''/blog'') \<mapsto> 3]\<rparr>" "''/blog''" "''7d''"]
  by (simp add: durations_def since_absolute_def day_def)



end
