(* ===== verification/Nomad.thy ===== *)
theory Nomad
  imports Consul
begin

text \<open>
  \<^verbatim>\<open>services/s-rpc-nomad-api\<close> and \<^verbatim>\<open>services/s-rpc-autoscaler\<close>: serving the job definitions of the
  Nomad cluster and evaluating resource targets for the jobs that ask for it. The Nomad
  client and the JSON encoding of its job type are arguments. Targets are exact rationals;
  the code computes them in \<^verbatim>\<open>float64\<close>.
\<close>

section \<open>Job definitions\<close>

record nomad_Task =
  Task_Name :: string
  Meta :: "string \<rightharpoonup> string"
  Resources :: "(int option \<times> int option) option"   \<comment> \<open>pointers to CPU and memory (MB)\<close>

record nomad_TaskGroup =
  Group_Name :: "string option"
  Tasks :: "nomad_Task list"

record nomad_Job =
  Job_ID :: "string option"
  TaskGroups :: "nomad_TaskGroup list"

record job_stub =
  Stub_Name :: string
  Stub_Stop :: bool

record 'j nomad_env =
  list_jobs :: "go_error + job_stub list"
  job_info :: "string \<Rightarrow> go_error + 'j"
  marshal :: "'j \<Rightarrow> go_error + string"

definition ReadJobDefinition :: "'j nomad_env \<Rightarrow> string \<Rightarrow> go_error + string" where
  "ReadJobDefinition v jobId = (case job_info v jobId of
      Inl e \<Rightarrow> Inl (the (Augment (Some e) ''failed to get latest jobInfo'' []))
    | Inr jobInfo \<Rightarrow> (case marshal v jobInfo of
        Inl e \<Rightarrow> Inl (the (Augment (Some e) ''failed to marshal jobInfo'' []))
      | Inr asJson \<Rightarrow> Inr asJson))"

record ListJobsResponse =
  JobDefinitionJson :: string
  Stopped :: bool

text \<open>
  The loop of \<^verbatim>\<open>ListJobDefinitions\<close>; \<open>send n\<close> is the result of the \<open>n\<close>-th send. The error of
  \<^verbatim>\<open>Marshal\<close> is overwritten by that of \<^verbatim>\<open>Send\<close>, so a job that cannot be encoded is sent with an
  empty definition.
\<close>

fun list_definitions :: "'j nomad_env \<Rightarrow> (nat \<Rightarrow> err) \<Rightarrow> job_stub list \<Rightarrow> nat \<Rightarrow> ListJobsResponse list \<times> err" where
  "list_definitions v send [] n = ([], None)"
| "list_definitions v send (job # jobs) n =
     (let errParams = [(''jobName'', Stub_Name job)] in
      case job_info v (Stub_Name job) of
        Inl e \<Rightarrow> ([], Augment (Some e) ''failed to get job info'' errParams)
      | Inr info \<Rightarrow>
          (let asJson = (case marshal v info of Inl _ \<Rightarrow> [] | Inr s \<Rightarrow> s) in
           case send n of
             Some e \<Rightarrow> ([], Augment (Some e) ''failed to send job info'' errParams)
           | None \<Rightarrow> (case list_definitions v send jobs (Suc n) of (sent, r) \<Rightarrow>
               (\<lparr>JobDefinitionJson = asJson, Stopped = Stub_Stop job\<rparr> # sent, r))))"

definition ListJobDefinitions :: "'j nomad_env \<Rightarrow> (nat \<Rightarrow> err) \<Rightarrow> ListJobsResponse list \<times> err" where
  "ListJobDefinitions v send = (case list_jobs v of
      Inl e \<Rightarrow> ([], Augment (Some e) ''failed to list jobs'' [])
    | Inr jobs \<Rightarrow> list_definitions v send jobs 0)"

definition nomad_api_InitService :: "env \<Rightarrow> (string \<Rightarrow> err) \<Rightarrow> err \<Rightarrow> err" where
  "nomad_api_InitService e new_client health = (case e ''NOMAD_TOKEN'' of
      None \<Rightarrow> Some (Plain ''NOMAD_TOKEN environment variable not set'')
    | Some token \<Rightarrow> (case new_client token of
        Some x \<Rightarrow> Augment (Some x) ''failed to create nomad client'' []
      | None \<Rightarrow> Augment health ''failed to check nomad health'' []))"

section \<open>Targets\<close>

definition autoscalingValueDisabled :: string where
  "autoscalingValueDisabled = ''disabled''"

definition autoscalingValueEnabled :: string where
  "autoscalingValueEnabled = ''enabled''"

definition targetCPUPercentage :: rat where
  "targetCPUPercentage = 6 / 10"

definition targetMemoryPercentage :: rat where
  "targetMemoryPercentage = 8 / 10"

definition isEligibleForAutoscaling :: "(string \<rightharpoonup> string) \<Rightarrow> go_error + bool" where
  "isEligibleForAutoscaling meta = (case meta ''DCOTTA_COM_VERTICAL_AUTOSCALING'' of
      None \<Rightarrow> Inr False
    | Some v \<Rightarrow> if v = autoscalingValueDisabled then Inr False
        else if v = autoscalingValueEnabled then Inr True
        else Inl (PreconditionFailed ''bad_param''
          (''DCOTTA_COM_AUTOSCALING must be either 'enabled' or 'disabled'' @ [CHR 0x27]) []))"

text \<open>Gauges by job, task and group, of CPU and memory.\<close>

type_synonym target_gauges = "(string \<times> string \<times> string \<rightharpoonup> rat) \<times> (string \<times> string \<times> string \<rightharpoonup> rat)"

definition deref :: "'a option \<Rightarrow> 'a outcome" where
  "deref p = (case p of None \<Rightarrow> Panics ''nil pointer dereference'' | Some x \<Rightarrow> Returns x)"

definition publish_targets :: "string \<Rightarrow> nomad_TaskGroup \<Rightarrow> nomad_Task \<Rightarrow> target_gauges \<Rightarrow> target_gauges outcome" where
  "publish_targets job grp task g =
     bind_outcome (deref (Resources task)) (\<lambda>(cpu, mem).
     bind_outcome (deref cpu) (\<lambda>c.
     bind_outcome (deref mem) (\<lambda>m.
     bind_outcome (deref (Group_Name grp)) (\<lambda>gn.
       Returns (let l = (job, Task_Name task, gn) in
         ((fst g)(l \<mapsto> targetCPUPercentage * of_int c), (snd g)(l \<mapsto> targetMemoryPercentage * of_int m)))))))"

fun process_tasks ::
  "string \<Rightarrow> (nomad_TaskGroup \<times> nomad_Task) list \<Rightarrow> target_gauges \<Rightarrow> (err \<times> target_gauges) outcome" where
  "process_tasks job [] g = Returns (None, g)"
| "process_tasks job ((grp, task) # ts) g = (case isEligibleForAutoscaling (Meta task) of
      Inl e \<Rightarrow> Returns (Augment (Some e) ''failed to check autoscaling status'' [(''jobId'', job)], g)
    | Inr ok \<Rightarrow> if \<not> ok then process_tasks job ts g
        else bind_outcome (publish_targets job grp task g) (process_tasks job ts))"

definition all_tasks :: "nomad_Job \<Rightarrow> (nomad_TaskGroup \<times> nomad_Task) list" where
  "all_tasks j = concat (map (\<lambda>grp. map (Pair grp) (Tasks grp)) (TaskGroups j))"

definition processJob :: "nomad_Job option \<Rightarrow> target_gauges \<Rightarrow> (err \<times> target_gauges) outcome" where
  "processJob def g = bind_outcome (deref def) (\<lambda>j. bind_outcome (deref (Job_ID j)) (\<lambda>job.
     process_tasks job (all_tasks j) g))"

text \<open>
  The receive loop. The job is decoded into a nil pointer, which \<^verbatim>\<open>json.Unmarshal\<close> refuses
  whatever the bytes are; the pointer stays nil.
\<close>

fun eval_jobs ::
  "(string \<Rightarrow> payload) \<Rightarrow> (go_error + ListJobsResponse) list \<Rightarrow> target_gauges \<Rightarrow> (err \<times> target_gauges) outcome" where
  "eval_jobs json_of [] g = Returns (None, g)"
| "eval_jobs json_of (Inl e # rs) g = Returns
     (if errors_Is e ''EOF'' then None else Augment (Some e) ''failed to receive flight'' [], g)"
| "eval_jobs json_of (Inr next # rs) g =
     (if Stopped next then eval_jobs json_of rs g
      else (case unmarshal_nil (json_of (JobDefinitionJson next)) of
          Some e \<Rightarrow> Returns (Augment (Some e) ''failed to unmarshal job definition'' [], g)
        | None \<Rightarrow> bind_outcome (processJob None g) (\<lambda>(r, g').
            case r of Some e \<Rightarrow> Returns (Augment (Some e) ''failed to process job'' [], g')
            | None \<Rightarrow> eval_jobs json_of rs g')))"

definition EvalAllScalingStatus ::
  "err \<Rightarrow> (string \<Rightarrow> payload) \<Rightarrow> (go_error + ListJobsResponse) list \<Rightarrow> target_gauges \<Rightarrow> (err \<times> target_gauges) outcome" where
  "EvalAllScalingStatus list_err json_of recvs g = (case list_err of
      Some e \<Rightarrow> Returns (Augment (Some e) ''failed to list job definitions'' [], g)
    | None \<Rightarrow> eval_jobs json_of recvs g)"

definition NewHandler :: "'db option \<times> err \<Rightarrow> go_error + 'db option" where
  "NewHandler opened = (case opened of (db, None) \<Rightarrow> Inr db | (_, Some e) \<Rightarrow> Inl (the (Propagate (Some e))))"

definition autoscaler_Close :: "err \<Rightarrow> err" where
  "autoscaler_Close db_close = Augment db_close ''failed to close DB'' []"

definition autoscaler_InitService :: "'db option \<times> err \<Rightarrow> err" where
  "autoscaler_InitService opened = (case NewHandler opened of
      Inl e \<Rightarrow> Augment (Some e) ''failed to init autoscaler handler'' []
    | Inr _ \<Rightarrow> None)"

section \<open>Facts\<close>

text \<open>What a client receives from a stream: the messages sent, then its end.\<close>

definition stream_of :: "ListJobsResponse list \<times> err \<Rightarrow> (go_error + ListJobsResponse) list" where
  "stream_of s = map Inr (fst s) @ [Inl (case snd s of None \<Rightarrow> io_EOF | Some e \<Rightarrow> Status CodeUnknown (error_text e))]"

lemma eval_jobs_result:
  "\<exists>r. eval_jobs json_of recvs g = Returns (r, g)"
proof (induction json_of recvs g rule: eval_jobs.induct)
  case (3 json_of m rs g)
  obtain e where "unmarshal_nil (json_of (JobDefinitionJson m)) = Some e"
    using unmarshal_nil_fails by blast
  with 3 show ?case by auto
qed auto

lemma eval_jobs_stream:
  "eval_jobs json_of (map Inr ms @ [Inl e]) g = Returns (r, g) \<Longrightarrow>
     r = None \<longleftrightarrow> (\<forall>m \<in> set ms. Stopped m) \<and> errors_Is e ''EOF''"
proof (induction ms)
  case (Cons m ms)
  obtain x where "unmarshal_nil (json_of (JobDefinitionJson m)) = Some x"
    using unmarshal_nil_fails by blast
  with Cons show ?case by (auto split: if_splits)
qed (auto split: if_splits)

lemma list_definitions_stopped:
  "list_definitions v send jobs n = (ms, None) \<Longrightarrow> map Stopped ms = map Stub_Stop jobs"
  by (induction v send jobs n arbitrary: ms rule: list_definitions.induct)
    (auto simp: Let_def split: sum.splits option.splits prod.splits)

section \<open>Properties\<close>

text \<open>
  C37: Evaluating the cluster's jobs through the job listing of the other service succeeds
  exactly when that listing succeeds and lists no running job: a single running job makes
  it fail, and no target is ever published, since every job definition is decoded into a nil
  pointer. It never panics.
\<close>

theorem autoscaler_fails_on_running_jobs:
  assumes "list_jobs v = Inr jobs" and "ListJobDefinitions v send = (ms, r)"
  shows "\<exists>r'. EvalAllScalingStatus None json_of (stream_of (ms, r)) g = Returns (r', g)
     \<and> (r' = None \<longleftrightarrow> r = None \<and> (\<forall>job \<in> set jobs. Stub_Stop job))"
proof -
  obtain r' where e: "eval_jobs json_of (stream_of (ms, r)) g = Returns (r', g)"
    using eval_jobs_result by blast
  have "r' = None \<longleftrightarrow> (\<forall>m \<in> set ms. Stopped m) \<and> r = None"
    using eval_jobs_stream [of json_of ms _ g r'] e by (cases r) (auto simp: stream_of_def)
  moreover have "r = None \<longrightarrow> (\<forall>m \<in> set ms. Stopped m) = (\<forall>job \<in> set jobs. Stub_Stop job)"
  proof
    assume "r = None"
    with assms list_definitions_stopped [of v send jobs 0 ms] have "map Stopped ms = map Stub_Stop jobs"
      by (simp add: ListJobDefinitions_def)
    then have "Stopped ` set ms = Stub_Stop ` set jobs" by (metis list.set_map)
    then show "(\<forall>m \<in> set ms. Stopped m) = (\<forall>job \<in> set jobs. Stub_Stop job)"
      by (metis (full_types) image_iff)
  qed
  ultimately show ?thesis using e by (auto simp: EvalAllScalingStatus_def)
qed

theorem autoscaler_fails_on_running_jobs_witness:
  "\<exists>e. EvalAllScalingStatus None (\<lambda>_. Some JNull)
     (stream_of ([\<lparr>JobDefinitionJson = ''{}'', Stopped = False\<rparr>], None)) (Map.empty, Map.empty)
       = Returns (Some e, (Map.empty, Map.empty))"
  using autoscaler_fails_on_running_jobs [of
      "\<lparr>list_jobs = Inr [\<lparr>Stub_Name = ''web'', Stub_Stop = False\<rparr>], job_info = Inr, marshal = (\<lambda>_. Inr ''{}'')\<rparr>"
      "[\<lparr>Stub_Name = ''web'', Stub_Stop = False\<rparr>]" "\<lambda>_. None" "[\<lparr>JobDefinitionJson = ''{}'', Stopped = False\<rparr>]"
      None "\<lambda>_. Some JNull" "(Map.empty, Map.empty)"]
  by (auto simp: ListJobDefinitions_def)

end
