(* ===== verification/Prometheus.thy ===== *)
theory Prometheus
  imports Bedrock Go_Float
begin

text \<open>
  \<^verbatim>\<open>services/s-rpc-prometheus\<close>: instant queries, of which callers want a single number. The
  Prometheus client is an argument.
\<close>

datatype model_Value = Vector "float64 list" | Scalar float64 | Matrix | StringValue string

fun value_type :: "model_Value \<Rightarrow> string" where
  "value_type (Vector _) = ''vector''"
| "value_type (Scalar _) = ''scalar''"
| "value_type Matrix = ''matrix''"
| "value_type (StringValue _) = ''string''"

record QueryInstantResponse =
  Result :: string
  Result_Type :: string

text \<open>\<^verbatim>\<open>fmt.Sprint\<close> of a list of warnings.\<close>

definition sprint_warnings :: "string list \<Rightarrow> string" where
  "sprint_warnings ws = ''['' @ join ws '' '' @ '']''"

definition QueryInstant ::
  "(string \<Rightarrow> (go_error + model_Value) \<times> string list) \<Rightarrow> string \<Rightarrow> go_error + QueryInstantResponse" where
  "QueryInstant query promQLQuery = (case query promQLQuery of
      (Inl e, warning) \<Rightarrow> Inl (the (Augment (Some e) ''failed to query prometheus''
        [(''query'', promQLQuery), (''warning'', sprint_warnings warning)]))
    | (Inr v, warning) \<Rightarrow> (case v of
        Vector samples \<Rightarrow> (case samples of
            [] \<Rightarrow> Inl (NotFound ''no_result'' ''query returned no results'' [(''query'', promQLQuery)])
          | sample # _ \<Rightarrow> Inr \<lparr>Result = format_f sample, Result_Type = ''float64''\<rparr>)
      | _ \<Rightarrow> Inl (terrors_New ''unexpected_err_type'' ''unexpected result type'' [(''type'', value_type v)])))"

text \<open>The address of the upstream, and the hook's result.\<close>

definition prometheus_address :: "env \<Rightarrow> string" where
  "prometheus_address e = ''http://'' @ (case e ''NOMAD_UPSTREAM_ADDR_mimir_http'' of None \<Rightarrow> [] | Some a \<Rightarrow> a) @ ''/prometheus''"

definition prometheus_InitService :: "env \<Rightarrow> (string \<Rightarrow> err) \<Rightarrow> err" where
  "prometheus_InitService e newClient = newClient (prometheus_address e)"

section \<open>Properties\<close>

text \<open>
  A query whose result is a non-empty vector returns a text that reads back as its first
  sample, for every sample that is a decimal or a special value; every other result is an
  error, and an empty vector is one with the code for not found.
\<close>

theorem QueryInstant_roundtrip:
  assumes "fst (query q) = Inr v"
  shows "(case QueryInstant query q of
       Inr r \<Rightarrow> (\<exists>sample rest. v = Vector (sample # rest) \<and> Result r = format_f sample
         \<and> ((\<forall>x. sample = Finite x \<longrightarrow> decimal_places x \<noteq> None) \<longrightarrow> parse_float (Result r) = Some sample))
     | Inl e \<Rightarrow> (v = Vector [] \<longleftrightarrow> terrors_Is e ErrNotFound) \<and> (\<forall>sample rest. v \<noteq> Vector (sample # rest)))"
proof -
  obtain ws where q: "query q = (Inr v, ws)" using assms by (metis prod.collapse)
  have nf: "terrors_Is (NotFound ''no_result'' m ps) ErrNotFound" for m ps
    by (simp add: NotFound_def errorFactory_def errCode_def ErrNotFound_def)
  have un: "\<not> terrors_Is (terrors_New ''unexpected_err_type'' m ps) ErrNotFound" for m ps
    by (simp add: terrors_New_def errorFactory_def ErrNotFound_def)
  show ?thesis
  proof (cases v)
    case (Vector samples)
    then show ?thesis using q nf format_f_parses by (cases samples) (auto simp: QueryInstant_def)
  qed (use q un in \<open>simp_all add: QueryInstant_def\<close>)
qed

theorem QueryInstant_roundtrip_witness:
  "case QueryInstant (\<lambda>_. (Inr (Vector [Finite (49 / 2)]), [])) ''up'' of
     Inr r \<Rightarrow> parse_float (Result r) = Some (Finite (49 / 2)) | Inl _ \<Rightarrow> False"
proof -
  define h :: rat where "h = 49 / 2"
  have "decimal_places h \<noteq> None" unfolding h_def by code_simp
  then show ?thesis unfolding h_def [symmetric]
    using QueryInstant_roundtrip [of "\<lambda>_. (Inr (Vector [Finite h]), [])" "''up''" "Vector [Finite h]"]
    by (auto split: sum.splits)
qed

end
