(* ===== verification/Vault_Snapshot.thy ===== *)
theory Vault_Snapshot
  imports Secrets
begin

text \<open>
  \<^verbatim>\<open>services/s-rpc-vault\<close> and \<^verbatim>\<open>services/cron-vault-snapshot\<close>: a periodic job asks the service to
  take a snapshot of Vault from the active node and to store it in the backup bucket. The
  Vault client and the bucket are arguments.
\<close>

record HANode =
  ActiveNode :: bool
  APIAddress :: string

record snapshot_env =
  ha_status :: "go_error + HANode list"
  set_address :: "string \<Rightarrow> err"
  b2_client :: err
  raft_snapshot :: "string \<Rightarrow> go_error + string"   \<comment> \<open>by the address of the node\<close>
  put_object :: "string \<Rightarrow> string \<Rightarrow> string \<Rightarrow> int \<Rightarrow> err"
  today :: string
  unix_millis :: int

text \<open>The loop keeps the last active node.\<close>

definition find_leader :: "HANode list \<Rightarrow> HANode option" where
  "find_leader nodes = fold (\<lambda>node leader. if ActiveNode node then Some node else leader) nodes None"

definition snapshot_key :: "snapshot_env \<Rightarrow> string" where
  "snapshot_key v = ''vault/snapshot/'' @ today v @ ''-'' @ itoa (unix_millis v) @ ''.snap''"

text \<open>The state: the objects of the bucket, as triples of bucket, key and content.\<close>

type_synonym objects = "(string \<times> string \<times> string) list"

definition Snapshot :: "snapshot_env \<Rightarrow> objects \<Rightarrow> err \<times> objects" where
  "Snapshot v objs = (case ha_status v of
      Inl e \<Rightarrow> (Augment (Some e) ''failed to call vault status'' [], objs)
    | Inr nodes \<Rightarrow> (case find_leader nodes of
        None \<Rightarrow> (Some (PreconditionFailed ''no_leader'' ''failed to find a vault leader'' []), objs)
      | Some leader \<Rightarrow> (case set_address v (APIAddress leader) of
          Some e \<Rightarrow> (Augment (Some e) ''failed to set vault address'' [], objs)
        | None \<Rightarrow> (case b2_client v of
            Some e \<Rightarrow> (Some e, objs)
          | None \<Rightarrow> (case raft_snapshot v (APIAddress leader) of
              Inl e \<Rightarrow> (Augment (Some e) ''failed to snapshot raft snapshot'' [], objs)
            | Inr buffer \<Rightarrow> (case put_object v ''services-bu'' (snapshot_key v) buffer (int (length buffer)) of
                Some e \<Rightarrow> (Augment (Some e) ''failed to upload snapshot'' [], objs)
              | None \<Rightarrow> (None, objs @ [(''services-bu'', snapshot_key v, buffer)])))))))"

definition vault_InitService :: "vault_env \<Rightarrow> err" where
  "vault_InitService v = Augment (vault_NewClient v) ''failed to init vault client'' []"

text \<open>\<^verbatim>\<open>cron-vault-snapshot\<close>: the exit status of the process, for the result of the call.\<close>

definition cron_main :: "err \<Rightarrow> int" where
  "cron_main snapshot_err = (if snapshot_err \<noteq> None then 1 else 0)"

section \<open>Facts\<close>

lemma find_leader_step:
  "fold (\<lambda>node leader. if ActiveNode node then Some node else leader) nodes l =
     (if filter ActiveNode nodes = [] then l else Some (last (filter ActiveNode nodes)))"
  by (induction nodes arbitrary: l) auto

lemma find_leader_last:
  "find_leader nodes = (if filter ActiveNode nodes = [] then None else Some (last (filter ActiveNode nodes)))"
  by (simp add: find_leader_def find_leader_step)

section \<open>Properties\<close>

text \<open>
  The snapshot job exits with status 0 exactly when one object was stored: the Raft
  snapshot read from the active node of the cluster, whole, under the key of the day. On any
  failure it exits with status 1 and the bucket is unchanged. With one active node that is
  the node asked, wherever it stands in the list.
\<close>

theorem snapshot_stored_iff_success:
  assumes "ha_status v = Inr nodes" and "filter ActiveNode nodes = [leader]"
    and "Snapshot v objs = (e, objs')"
  shows "(cron_main e = 0 \<longleftrightarrow> (\<exists>data. raft_snapshot v (APIAddress leader) = Inr data
        \<and> objs' = objs @ [(''services-bu'', snapshot_key v, data)]))
     \<and> (cron_main e = 1 \<longleftrightarrow> objs' = objs)"
proof -
  have "find_leader nodes = Some leader" using assms(2) by (simp add: find_leader_last)
  with assms(1,3) show ?thesis
    by (cases "b2_client v", auto simp: Snapshot_def cron_main_def split: option.splits sum.splits, metis)
qed

theorem snapshot_stored_iff_success_witness:
  "let v = \<lparr>ha_status = Inr [\<lparr>ActiveNode = False, APIAddress = ''a''\<rparr>, \<lparr>ActiveNode = True, APIAddress = ''b''\<rparr>],
            set_address = (\<lambda>_. None), b2_client = None, raft_snapshot = (\<lambda>a. Inr (a @ ''-data'')),
            put_object = (\<lambda>_ _ _ _. None), today = ''2026-01-02'', unix_millis = 7\<rparr> in
     cron_main (fst (Snapshot v [])) = 0
     \<and> snd (Snapshot v []) = [(''services-bu'', snapshot_key v, ''b-data'')]"
proof -
  let ?v = "\<lparr>ha_status = Inr [\<lparr>ActiveNode = False, APIAddress = ''a''\<rparr>, \<lparr>ActiveNode = True, APIAddress = ''b''\<rparr>],
            set_address = (\<lambda>_. None), b2_client = None, raft_snapshot = (\<lambda>a. Inr (a @ ''-data'')),
            put_object = (\<lambda>_ _ _ _. None), today = ''2026-01-02'', unix_millis = 7\<rparr>"
  have "Snapshot ?v [] = (None, [(''services-bu'', snapshot_key ?v, ''b-data'')])"
    by (simp add: Snapshot_def find_leader_def)
  with snapshot_stored_iff_success [of ?v
      "[\<lparr>ActiveNode = False, APIAddress = ''a''\<rparr>, \<lparr>ActiveNode = True, APIAddress = ''b''\<rparr>]"
      "\<lparr>ActiveNode = True, APIAddress = ''b''\<rparr>" "[]"]
  show ?thesis by simp
qed

end
