(* ===== verification/Services.thy ===== *)
theory Services
  imports Mqtt_Handler Web_Home Web_Flights Webhook Portfolio Nomad Prometheus Vault_Snapshot
begin

text \<open>
  \<^verbatim>\<open>services/main.go\<close>: the process that runs all services. Each service registers a hook, and
  \<^verbatim>\<open>RunRegistered\<close> calls them and serves those that started. The record below holds what the
  platform answers to the hooks: database, broker, Nomad, Vault, Prometheus and BigQuery.
\<close>

section \<open>The platform and the hooks\<close>

record 'db platform =
  p_run :: run_env
  p_env :: env
  p_db :: "'db option \<times> err"            \<comment> \<open>\<^verbatim>\<open>bedrock.OpenDB\<close>\<close>
  p_db_close :: err
  p_broker :: "string \<times> err"           \<comment> \<open>the configured broker address\<close>
  p_mqtt :: broker_env
  p_nomad_client :: "string \<Rightarrow> err"
  p_nomad_health :: err
  p_vault :: vault_env
  p_prom_client :: "string \<Rightarrow> err"
  p_bq :: "go_error + unit"
  p_bq_close :: err
  p_srv_close :: err                    \<comment> \<open>closing an HTTP server\<close>
  p_listened :: err                     \<comment> \<open>what \<^verbatim>\<open>ListenAndServe\<close> has returned by then\<close>

definition hook_of :: "string \<Rightarrow> bool \<Rightarrow> err \<Rightarrow> err \<Rightarrow> hook_result" where
  "hook_of name grpc stop e = (\<lparr>Name = name, RegisterGrpc = grpc, OnShutdown = Some stop\<rparr>, name, e)"

definition opened :: "'db option \<times> err \<Rightarrow> go_error + 'db option" where
  "opened r = (case r of (db, None) \<Rightarrow> Inr db | (_, Some e) \<Rightarrow> Inl e)"

text \<open>The HTTP servers of the web services: address, read and write timeout in nanoseconds.\<close>

record http_Server =
  Addr :: string
  ReadTimeout :: int
  WriteTimeout :: int

definition web_portfolio_server :: http_Server where
  "web_portfolio_server = \<lparr>Addr = ''localhost:7001'', ReadTimeout = 10 ^ 9, WriteTimeout = 10 * 10 ^ 9\<rparr>"

definition webhook_server :: http_Server where
  "webhook_server = \<lparr>Addr = ''localhost:7002'', ReadTimeout = 10 ^ 9, WriteTimeout = 10 * 10 ^ 9\<rparr>"

definition web_flights_server :: http_Server where
  "web_flights_server = \<lparr>Addr = ''localhost:7003'', ReadTimeout = 10 ^ 9, WriteTimeout = 10 * 10 ^ 9\<rparr>"

definition newServer :: http_Server where
  "newServer = \<lparr>Addr = ''localhost:7004'', ReadTimeout = 10 ^ 9, WriteTimeout = 10 * 10 ^ 9\<rparr>"

lemma http_servers_apart: "distinct (map Addr [web_portfolio_server, webhook_server, web_flights_server, newServer])"
  by (simp add: web_portfolio_server_def webhook_server_def web_flights_server_def newServer_def)

text \<open>The error a server's goroutine records: none when the server was closed.\<close>

definition serverErr :: "err \<Rightarrow> err" where
  "serverErr listened = (case listened of
      None \<Rightarrow> None
    | Some e \<Rightarrow> if errors_Is e ''http: Server closed'' then None else Some e)"

definition autoscaler_hook :: "'db platform \<Rightarrow> hook_result outcome" where
  "autoscaler_hook p = Returns (hook_of ''s-rpc-autoscaler'' True (autoscaler_Close (p_db_close p)) (autoscaler_InitService (p_db p)))"

definition flights_hook :: "'db platform \<Rightarrow> hook_result outcome" where
  "flights_hook p = Returns (hook_of ''s-rpc-flights'' True (flights_OnShutdown (p_db_close p)) (flights_InitService (opened (p_db p))))"

definition mqtt_hook :: "'db platform \<Rightarrow> hook_result outcome" where
  "mqtt_hook p = bind_outcome (mqtt_InitService (base_config (p_run p)) (p_broker p) (p_mqtt p)) (\<lambda>r.
     Returns (case r of Inl e \<Rightarrow> hook_of mqtt_Name True None (Some e) | Inr (svc, _, _) \<Rightarrow> (svc, mqtt_Name, None)))"

definition nomad_hook :: "'db platform \<Rightarrow> hook_result outcome" where
  "nomad_hook p = Returns (hook_of ''s-rpc-nomad-api'' True None
     (nomad_api_InitService (p_env p) (p_nomad_client p) (p_nomad_health p)))"

definition portfolio_stats_hook :: "'db platform \<Rightarrow> hook_result outcome" where
  "portfolio_stats_hook p = Returns (hook_of ''s-rpc-portfolio-stats'' True (portfolio_stats_OnShutdown (p_db_close p))
     (portfolio_stats_InitService (opened (p_db p))))"

definition vault_hook :: "'db platform \<Rightarrow> hook_result outcome" where
  "vault_hook p = Returns (hook_of ''s-rpc-vault'' True None (vault_InitService (p_vault p)))"

definition prometheus_hook :: "'db platform \<Rightarrow> hook_result outcome" where
  "prometheus_hook p = Returns (hook_of ''s-rpc-prometheus'' True None (prometheus_InitService (p_env p) (p_prom_client p)))"

definition web_portfolio_hook :: "'db platform \<Rightarrow> hook_result outcome" where
  "web_portfolio_hook p = Returns (hook_of ''s-web-portfolio'' False web_portfolio_OnShutdown None)"

definition webhook_hook :: "'db platform \<Rightarrow> hook_result outcome" where
  "webhook_hook p = bind_outcome (webhook_InitService (p_bq p)) (\<lambda>name.
     Returns (hook_of name False (webhook_OnShutdown (p_srv_close p) (p_bq_close p) (serverErr (p_listened p))) None))"

definition web_flights_hook :: "'db platform \<Rightarrow> hook_result outcome" where
  "web_flights_hook p = Returns (hook_of ''s-web-flights'' False (web_flights_OnShutdown (p_srv_close p) (serverErr (p_listened p))) None)"

definition web_home_hook :: "'db platform \<Rightarrow> hook_result outcome" where
  "web_home_hook p = Returns (hook_of ''s-web-home'' False (web_home_OnShutdown (p_srv_close p) (serverErr (p_listened p))) None)"

definition registered_hooks :: "'db platform \<Rightarrow> hook_result outcome list" where
  "registered_hooks p = fold (\<lambda>hook. Register (hook p))
     [autoscaler_hook, flights_hook, mqtt_hook, nomad_hook, portfolio_stats_hook, vault_hook, prometheus_hook,
      web_portfolio_hook, webhook_hook, web_flights_hook, web_home_hook] []"

text \<open>The hooks run in order after the start-up of bedrock; a panic or \<^verbatim>\<open>log.Fatal\<close> ends the process.\<close>

fun run_hooks :: "'a outcome list \<Rightarrow> 'a list outcome" where
  "run_hooks [] = Returns []"
| "run_hooks (h # hs) = bind_outcome h (\<lambda>x. bind_outcome (run_hooks hs) (\<lambda>xs. Returns (x # xs)))"

definition services_main :: "'db platform \<Rightarrow> run_end outcome" where
  "services_main p = (if initBedrock (p_run p) \<noteq> None then RunRegistered (p_run p) []
     else bind_outcome (run_hooks (registered_hooks p)) (RunRegistered (p_run p)))"

section \<open>Facts\<close>

lemma update_fresh: "k \<notin> fst ` set al \<Longrightarrow> AList.update k v al = al @ [(k, v)]"
  by (induction al) auto

definition started :: "hook_result list \<Rightarrow> (string \<times> Service) list" where
  "started hs = map (\<lambda>(s, n, _). (n, s)) (filter (\<lambda>(_, _, e). e = None) hs)"

lemma init_services_started:
  "distinct (map (fst \<circ> snd) hs) \<Longrightarrow> \<forall>h \<in> set hs. fst (snd h) \<notin> fst ` set services \<Longrightarrow>
     init_services hs services = services @ started hs"
proof (induction hs services rule: init_services.induct)
  case (2 svc name e hs services)
  show ?case
  proof (cases e)
    case None
    from "2.prems" have "AList.update name svc services = services @ [(name, svc)]"
      by (intro update_fresh) simp
    moreover have "\<forall>h \<in> set hs. fst (snd h) \<notin> fst ` set (services @ [(name, svc)])"
      using "2.prems" by force
    ultimately show ?thesis using 2 None by (simp add: started_def)
  qed (use 2 in \<open>simp add: started_def\<close>)
qed (simp add: started_def)

definition serving :: "run_env \<Rightarrow> bool" where
  "serving v \<longleftrightarrow> initBedrock v = None \<and> snd (base_config v) = None \<and> fst (base_config v) \<noteq> None \<and> listen v = None
     \<and> metrics v = None \<and> (case serve v of None \<Rightarrow> True | Some e \<Rightarrow> errors_Is e ''grpc: the server has been stopped'')"

lemma RunRegistered_serving:
  assumes "serving v" "\<forall>(n, s) \<in> set (init_services hooks []). OnShutdown s \<noteq> None"
  shows "\<exists>ws. RunRegistered v hooks = Returns (Served (map fst (filter (\<lambda>(_, s). RegisterGrpc s) (init_services hooks []))) ws)"
proof -
  obtain ws where "shutdownServices (init_services hooks []) = Returns ws"
    using shutdownServices_returns [OF assms(2)] by blast
  then show ?thesis using assms(1)
    by (cases "base_config v"; cases "fst (base_config v)")
      (auto simp: RunRegistered_def serving_def Let_def split: option.splits)
qed

text \<open>What each RPC service needs of the platform, in the order of registration, and the services
  that are up.\<close>

definition prerequisites :: "'db platform \<Rightarrow> (string \<times> bool) list" where
  "prerequisites p =
     [(''s-rpc-autoscaler'', snd (p_db p) = None), (''s-rpc-flights'', snd (p_db p) = None),
      (''s-rpc-mqtt'', snd (p_broker p) = None \<and> url_err (p_mqtt p) (fst (p_broker p)) = None
         \<and> connect_err (p_mqtt p) = None \<and> await_err (p_mqtt p) = None),
      (''s-rpc-nomad-api'', case p_env p ''NOMAD_TOKEN'' of None \<Rightarrow> False
         | Some token \<Rightarrow> p_nomad_client p token = None \<and> p_nomad_health p = None),
      (''s-rpc-portfolio-stats'', snd (p_db p) = None),
      (''s-rpc-vault'', configure_err (p_vault p) = None \<and> new_client_err (p_vault p) = None),
      (''s-rpc-prometheus'', p_prom_client p (prometheus_address (p_env p)) = None)]"

definition up_services :: "'db platform \<Rightarrow> string list" where
  "up_services p = map fst (filter snd (prerequisites p))"

lemma hook_results:
  "autoscaler_InitService db = None \<longleftrightarrow> snd db = None"
  "flights_InitService (opened db) = None \<longleftrightarrow> snd db = None"
  "portfolio_stats_InitService (opened db) = None \<longleftrightarrow> snd db = None"
  "vault_InitService v = None \<longleftrightarrow> configure_err v = None \<and> new_client_err v = None"
  "nomad_api_InitService e nc h = None \<longleftrightarrow> (case e ''NOMAD_TOKEN'' of None \<Rightarrow> False | Some token \<Rightarrow> nc token = None \<and> h = None)"
  by (auto simp: autoscaler_InitService_def NewHandler_def flights_InitService_def portfolio_stats_InitService_def
      opened_def vault_InitService_def vault_NewClient_def nomad_api_InitService_def split: prod.splits option.splits)

lemma mqtt_hook_result:
  assumes "base_config (p_run p) = (Some c, None)"
  shows "\<exists>e. mqtt_hook p = Returns (hook_of mqtt_Name True None e)
     \<and> (e = None \<longleftrightarrow> snd (p_broker p) = None \<and> url_err (p_mqtt p) (fst (p_broker p)) = None
         \<and> connect_err (p_mqtt p) = None \<and> await_err (p_mqtt p) = None)"
  using assms by (auto simp: mqtt_hook_def mqtt_InitService_def newMqtt_def hook_of_def split: prod.splits option.splits)

text \<open>Hooks given by their name, whether they serve gRPC, their shutdown and their error.\<close>

definition hooks_of :: "(string \<times> bool \<times> err \<times> err) list \<Rightarrow> hook_result list" where
  "hooks_of L = map (\<lambda>(n, g, c, e). hook_of n g c e) L"

lemma hooks_of_started:
  "map fst (filter (\<lambda>(_, s). RegisterGrpc s) (started (hooks_of L))) =
     map fst (filter snd (map (\<lambda>(n, g, c, e). (n, e = None \<and> g)) L))"
  by (induction L) (auto simp: hooks_of_def started_def hook_of_def)

lemma hooks_of_names: "map (fst \<circ> snd) (hooks_of L) = map fst L"
  by (induction L) (auto simp: hooks_of_def hook_of_def)

lemma hooks_of_shutdown: "\<forall>(n, s) \<in> set (started (hooks_of L)). OnShutdown s \<noteq> None"
  by (auto simp: hooks_of_def started_def hook_of_def)

lemma hooks_of_serving:
  assumes "serving v" "distinct (map fst L)"
  shows "\<exists>ws. RunRegistered v (hooks_of L) = Returns (Served (map fst (filter snd (map (\<lambda>(n, g, c, e). (n, e = None \<and> g)) L))) ws)"
proof -
  have i: "init_services (hooks_of L) [] = started (hooks_of L)"
    using init_services_started [of "hooks_of L" "[]"] assms(2) by (simp add: hooks_of_names)
  show ?thesis
    using RunRegistered_serving [OF assms(1), of "hooks_of L"] hooks_of_shutdown [of L] by (simp add: i hooks_of_started)
qed

section \<open>Properties\<close>


definition demo_platform :: "unit platform" where
  "demo_platform = \<lparr>
     p_run = \<lparr>trace_exporter = Inr None, db_migration = None,
       base_config = (Some \<lparr>HttpHost = ''h'', HttpPort = 1, GrpcPort = 2, AllocID = ''a''\<rparr>, None),
       listen = None, metrics = None, serve = None\<rparr>,
     p_env = Map.empty, p_db = (None, Some (Plain ''db down'')), p_db_close = None,
     p_broker = (''tcp://b'', None), p_mqtt = \<lparr>url_err = (\<lambda>_. None), connect_err = None, await_err = None\<rparr>,
     p_nomad_client = (\<lambda>_. None), p_nomad_health = None,
     p_vault = \<lparr>configure_err = None, new_client_err = None, kv_get = (\<lambda>_. Inr []), logical_read = (\<lambda>_. Inr None)\<rparr>,
     p_prom_client = (\<lambda>_. None), p_bq = Inr (), p_bq_close = None, p_srv_close = None, p_listened = Some (Sentinel ''http: Server closed'')\<rparr>"


end
