(* ===== verification/Metrics.thy ===== *)
theory Metrics
  imports Services
begin

text \<open>
  The Prometheus metrics of the services: their declarations (\<^verbatim>\<open>promMetrics.go\<close> of the MQTT,
  flight and portfolio services, the thermometer gauge, the autoscaler's targets) and the
  rules of the client library (\<^verbatim>\<open>vendor/github.com/prometheus/client_golang\<close>) under which
  declaring a metric or addressing one of its series panics. All services share the default
  registry of the one process. The library compares hashes of names, help and labels; the
  model compares the values.
\<close>

section \<open>The client library\<close>

text \<open>\<^verbatim>\<open>utf8.ValidString\<close> on the bytes of a string.\<close>

definition cont :: "nat \<Rightarrow> nat \<Rightarrow> char \<Rightarrow> bool" where
  "cont lo hi c \<longleftrightarrow> lo \<le> (of_char c :: nat) \<and> (of_char c :: nat) \<le> hi"

fun valid_utf8 :: "string \<Rightarrow> bool" where
  "valid_utf8 [] = True"
| "valid_utf8 (c # s) =
     (if cont 0 0x7F c then valid_utf8 s
      else (case s of
          [] \<Rightarrow> False
        | c1 # s1 \<Rightarrow>
            if cont 0xC2 0xDF c then cont 0x80 0xBF c1 \<and> valid_utf8 s1
            else (case s1 of
                [] \<Rightarrow> False
              | c2 # s2 \<Rightarrow>
                  if cont 0xE0 0xEF c
                  then cont (if cont 0xE0 0xE0 c then 0xA0 else 0x80) (if cont 0xED 0xED c then 0x9F else 0xBF) c1
                    \<and> cont 0x80 0xBF c2 \<and> valid_utf8 s2
                  else (case s2 of
                      [] \<Rightarrow> False
                    | c3 # s3 \<Rightarrow> cont 0xF0 0xF4 c
                        \<and> cont (if cont 0xF0 0xF0 c then 0x90 else 0x80) (if cont 0xF4 0xF4 c then 0x8F else 0xBF) c1
                        \<and> cont 0x80 0xBF c2 \<and> cont 0x80 0xBF c3 \<and> valid_utf8 s3))))"

definition BuildFQName :: "string \<Rightarrow> string \<Rightarrow> string \<Rightarrow> string" where
  "BuildFQName namespace subsystem name =
     (if name = [] then []
      else (if namespace \<noteq> [] then namespace @ ''_'' else [])
         @ (if subsystem \<noteq> [] then subsystem @ ''_'' else []) @ name)"

record metric_desc =
  fqName :: string
  desc_help :: string
  variableLabels :: "string list"

definition checkLabelName :: "string \<Rightarrow> bool" where
  "checkLabelName l \<longleftrightarrow> l \<noteq> [] \<and> valid_utf8 l \<and> \<not> has_prefix l ''__''"

text \<open>The error that \<^verbatim>\<open>NewDesc\<close> records in a descriptor without constant labels.\<close>

definition desc_err :: "metric_desc \<Rightarrow> err" where
  "desc_err d =
     (if fqName d = [] \<or> \<not> valid_utf8 (fqName d) then Some (Plain (fqName d @ '' is not a valid metric name''))
      else (case find (\<lambda>l. \<not> checkLabelName l) (variableLabels d) of
          Some l \<Rightarrow> Some (Plain (l @ '' is not a valid label name for metric '' @ fqName d))
        | None \<Rightarrow> if \<not> distinct (variableLabels d)
            then Some (Plain (''duplicate label names in constant and variable labels for metric '' @ fqName d))
            else None))"

text \<open>\<^verbatim>\<open>Registry.Register\<close> of a collector with one descriptor.\<close>

definition registry_Register :: "metric_desc \<Rightarrow> metric_desc list \<Rightarrow> err \<times> metric_desc list" where
  "registry_Register d reg = (case desc_err d of
      Some e \<Rightarrow> (Some (Wrapped (''descriptor '' @ fqName d @ '' is invalid: '' @ error_text e) e), reg)
    | None \<Rightarrow> (case find (\<lambda>d'. fqName d' = fqName d) reg of
        Some d' \<Rightarrow>
          (if desc_help d' = desc_help d \<and> set (variableLabels d') = set (variableLabels d)
           then (Some (Plain ''duplicate metrics collector registration attempted''), reg)
           else (Some (Plain (''a previously registered descriptor with the same fully-qualified name as ''
             @ fqName d @ '' has different label names or a different help string'')), reg))
      | None \<Rightarrow> (None, reg @ [d])))"

definition MustRegister :: "metric_desc \<Rightarrow> metric_desc list \<Rightarrow> metric_desc list outcome" where
  "MustRegister d reg = (case registry_Register d reg of
      (Some e, _) \<Rightarrow> Panics (error_text e)
    | (None, reg') \<Rightarrow> Returns reg')"

text \<open>Addressing a series of a metric by a map of labels, or by the label values.\<close>

definition With :: "metric_desc \<Rightarrow> (string \<times> string) list \<Rightarrow> string list outcome" where
  "With d labels =
     (if length labels \<noteq> length (variableLabels d) then Panics ''inconsistent label cardinality''
      else if \<not> list_all (\<lambda>(_, v). valid_utf8 v) labels then Panics ''label value is not valid UTF-8''
      else if \<not> list_all (\<lambda>n. map_of labels n \<noteq> None) (variableLabels d) then Panics ''label name missing in label map''
      else Returns (map (\<lambda>n. the (map_of labels n)) (variableLabels d)))"

definition WithLabelValues :: "metric_desc \<Rightarrow> string list \<Rightarrow> string list outcome" where
  "WithLabelValues d vals =
     (if length vals \<noteq> length (variableLabels d) then Panics ''inconsistent label cardinality''
      else if \<not> list_all valid_utf8 vals then Panics ''label value is not valid UTF-8''
      else Returns vals)"

text \<open>\<^verbatim>\<open>promauto\<close>: the metric of a service, its namespace being the service's name.\<close>

definition service_metric :: "string \<Rightarrow> string \<Rightarrow> string \<Rightarrow> string list \<Rightarrow> metric_desc" where
  "service_metric service n hlp labels =
     \<lparr>fqName = BuildFQName (KebabToSnakeCase service) [] n, desc_help = hlp, variableLabels = labels\<rparr>"

section \<open>The metrics of the services\<close>

definition airportsStat_metric :: metric_desc where
  "airportsStat_metric = service_metric ''s-rpc-flights'' ''airports'' ''Total airports visited'' []"

definition flightsStat_metric :: metric_desc where
  "flightsStat_metric = service_metric ''s-rpc-flights'' ''flights'' ''Flights flown'' []"

definition flightFootprint_metric :: metric_desc where
  "flightFootprint_metric =
     service_metric ''s-rpc-flights'' ''flight_yearly_footprint'' ''Footprint for year of flights'' [''year'']"

definition latestFlight_metric :: metric_desc where
  "latestFlight_metric =
     service_metric ''s-rpc-flights'' ''last_flight_timestamp'' ''Date of latest flight (unix millis)'' []"

definition flightsPerAirline_metric :: metric_desc where
  "flightsPerAirline_metric =
     service_metric ''s-rpc-flights'' ''flights_per_airline'' ''flights broken down per airline'' [''airline_code'']"

definition totalKm_metric :: metric_desc where
  "totalKm_metric =
     service_metric ''s-rpc-flights'' ''flights_total_distance_km'' ''total distance flown by flights'' [''year'']"

definition visits_metric :: metric_desc where
  "visits_metric =
     service_metric ''s-rpc-portfolio-stats'' ''page_visits'' ''Page visits to web_portfolio'' [''since'']"

definition visitsUnique_metric :: metric_desc where
  "visitsUnique_metric =
     service_metric ''s-rpc-portfolio-stats'' ''page_visits_unique'' ''Unique page visits to web_portfolio'' [''since'']"

definition visitsUniqueWithUri_metric :: metric_desc where
  "visitsUniqueWithUri_metric =
     service_metric ''s-rpc-portfolio-stats'' ''page_visits_unique_url''
       ''Unique page visits to web_portfolio per URL'' [''since'', ''url'']"

definition leaderGauge_metric :: metric_desc where
  "leaderGauge_metric = service_metric mqtt_Name ''mqtt_leader'' ''Whether this node thinks they are the leader'' []"

definition buttonEvent_metric :: metric_desc where
  "buttonEvent_metric = service_metric mqtt_Name ''button_event'' ''A button press'' [''button'']"

definition tempStat_metric :: metric_desc where
  "tempStat_metric =
     service_metric mqtt_Name ''pill_temp'' ''Temperature as reported by a Shelly pill'' [''shelly_id'']"

definition targetCPU_metric :: metric_desc where
  "targetCPU_metric = service_metric ''s-rpc-autoscaler'' ''task_target_cpu'' ''Target CPU for task''
     [''nomad_job'', ''task_name'', ''task_group'']"

definition targetMemory_metric :: metric_desc where
  "targetMemory_metric = service_metric ''s-rpc-autoscaler'' ''task_target_memorymb'' ''Target memory for task''
     [''nomad_job'', ''task_name'', ''task_group'']"

definition service_metrics :: "metric_desc list" where
  "service_metrics =
     [airportsStat_metric, flightsStat_metric, flightFootprint_metric, latestFlight_metric,
      flightsPerAirline_metric, totalKm_metric, visits_metric, visitsUnique_metric,
      visitsUniqueWithUri_metric, leaderGauge_metric, buttonEvent_metric, tempStat_metric,
      targetCPU_metric, targetMemory_metric]"

text \<open>Go runs the declarations of all packages before \<^verbatim>\<open>main\<close>.\<close>

fun declare_metrics :: "metric_desc list \<Rightarrow> metric_desc list \<Rightarrow> metric_desc list outcome" where
  "declare_metrics [] reg = Returns reg"
| "declare_metrics (d # ds) reg = bind_outcome (MustRegister d reg) (declare_metrics ds)"

section \<open>The label maps the services pass\<close>

definition year_labels :: "int \<Rightarrow> (string \<times> string) list" where
  "year_labels y = [(''year'', itoa y)]"

definition airline_labels :: "string \<Rightarrow> (string \<times> string) list" where
  "airline_labels code = [(''airline_code'', code)]"

definition since_labels :: "string \<Rightarrow> (string \<times> string) list" where
  "since_labels since = [(''since'', since)]"

definition url_labels :: "string \<Rightarrow> string \<Rightarrow> (string \<times> string) list" where
  "url_labels since url = [(''since'', since), (''url'', url)]"

definition target_labels :: "string \<Rightarrow> string \<Rightarrow> string \<Rightarrow> (string \<times> string) list" where
  "target_labels job task grp = [(''nomad_job'', job), (''task_name'', task), (''task_group'', grp)]"

definition button_labels :: "int \<Rightarrow> int \<Rightarrow> int \<Rightarrow> int \<Rightarrow> (string \<times> string) list" where
  "button_labels b0 b1 b2 b3 =
     [(''button'', ''['' @ itoa b0 @ '', '' @ itoa b1 @ '', '' @ itoa b2 @ '', '' @ itoa b3 @ '']'')]"


section \<open>Facts\<close>

lemma valid_utf8_ascii: "\<forall>c \<in> set s. (of_char c :: nat) < 128 \<Longrightarrow> valid_utf8 s"
  by (induction s rule: valid_utf8.induct) (auto simp: cont_def)

lemma ascii_digit: "char_digit c \<noteq> None \<Longrightarrow> (of_char c :: nat) < 128"
  by (auto simp: char_digit_def Let_def split: if_splits)

lemma itoa_ascii: "c \<in> set (itoa i) \<Longrightarrow> char_digit c \<noteq> None \<or> c = CHR ''-''"
  by (auto simp: itoa_def split: if_splits dest: show_nat_digits)

lemma itoa_less_128: "c \<in> set (itoa i) \<Longrightarrow> (of_char c :: nat) < 128"
  using itoa_ascii ascii_digit by fastforce

lemma valid_itoa [simp]: "valid_utf8 (itoa i)"
  by (rule valid_utf8_ascii) (auto dest: itoa_less_128)

lemma itoa_no_comma: "CHR '','' \<notin> set (itoa i)"
  using itoa_ascii by (fastforce simp: char_digit_def)

lemma declare_metrics_returns:
  assumes "distinct (map fqName ds)" "\<forall>d \<in> set ds. desc_err d = None"
    "\<forall>d \<in> set ds. \<forall>d' \<in> set reg. fqName d \<noteq> fqName d'"
  shows "declare_metrics ds reg = Returns (reg @ ds)"
  using assms
proof (induction ds arbitrary: reg)
  case Nil
  show ?case by simp
next
  case (Cons d ds)
  have "find (\<lambda>d'. fqName d' = fqName d) reg = None"
    using Cons.prems(3) by (auto simp: find_None_iff)
  with Cons.prems(2) have "MustRegister d reg = Returns (reg @ [d])"
    by (simp add: MustRegister_def registry_Register_def)
  moreover have "declare_metrics ds (reg @ [d]) = Returns ((reg @ [d]) @ ds)"
    by (rule Cons.IH) (use Cons.prems in \<open>auto dest: sym [of "fqName _" "fqName d"]\<close>)
  ultimately show ?case by simp
qed

lemmas metric_defs = airportsStat_metric_def flightsStat_metric_def flightFootprint_metric_def
  latestFlight_metric_def flightsPerAirline_metric_def totalKm_metric_def visits_metric_def
  visitsUnique_metric_def visitsUniqueWithUri_metric_def leaderGauge_metric_def buttonEvent_metric_def
  tempStat_metric_def targetCPU_metric_def targetMemory_metric_def service_metric_def

lemma service_metrics_distinct: "distinct (map fqName service_metrics)"
  by (simp add: service_metrics_def metric_defs BuildFQName_def mqtt_Name_def KebabToSnakeCase_map)

lemma service_metrics_valid: "d \<in> set service_metrics \<Longrightarrow> desc_err d = None \<and> has_prefix (fqName d) ''s_rpc_''"
  by (auto simp: service_metrics_def metric_defs BuildFQName_def mqtt_Name_def KebabToSnakeCase_map
      desc_err_def checkLabelName_def cont_def)


lemma button_label_inj:
  assumes "button_labels a b c d = button_labels a' b' c' d'"
    "in_int64 a" "in_int64 b" "in_int64 c" "in_int64 d" "in_int64 a'" "in_int64 b'" "in_int64 c'" "in_int64 d'"
  shows "a = a' \<and> b = b' \<and> c = c' \<and> d = d'"
proof -
  have "itoa a @ CHR '','' # CHR '' '' # itoa b @ CHR '','' # CHR '' '' # itoa c @ CHR '','' # CHR '' '' # itoa d @ '']''
      = itoa a' @ CHR '','' # CHR '' '' # itoa b' @ CHR '','' # CHR '' '' # itoa c' @ CHR '','' # CHR '' '' # itoa d' @ '']''"
    using assms(1) by (simp add: button_labels_def)
  then have "itoa a = itoa a' \<and> itoa b = itoa b' \<and> itoa c = itoa c' \<and> itoa d = itoa d'"
    by (simp add: append_sep_eq itoa_no_comma)
  with assms(2-9) show ?thesis by (auto dest: itoa_inj)
qed

section \<open>Properties\<close>

text \<open>
  C27: the process survives the declaration of its metrics: in whatever order Go initialises
  the packages, no declaration panics in the registry that all services share, next to the
  collectors the library puts there itself, and every metric ends up registered.
\<close>

theorem metrics_register:
  assumes "distinct order" "set order = set service_metrics"
    "\<forall>d \<in> set reg. has_prefix (fqName d) ''go_'' \<or> has_prefix (fqName d) ''process_'' \<or> has_prefix (fqName d) ''promhttp_''"
  shows "declare_metrics order reg = Returns (reg @ order)"
proof (rule declare_metrics_returns)
  have "inj_on fqName (set order)"
    using service_metrics_distinct assms(2) by (simp add: distinct_map)
  with assms(1) show "distinct (map fqName order)" by (simp add: distinct_map)
  show "\<forall>d \<in> set order. desc_err d = None" using service_metrics_valid assms(2) by auto
  show "\<forall>d \<in> set order. \<forall>d' \<in> set reg. fqName d \<noteq> fqName d'"
    using service_metrics_valid assms(2,3) by (fastforce simp: has_prefix_iff)
qed

theorem metrics_register_witness:
  "declare_metrics (rev service_metrics) [\<lparr>fqName = ''go_goroutines'', desc_help = [], variableLabels = []\<rparr>] =
     Returns (\<lparr>fqName = ''go_goroutines'', desc_help = [], variableLabels = []\<rparr> # rev service_metrics)"
  using metrics_register [of "rev service_metrics" "[\<lparr>fqName = ''go_goroutines'', desc_help = [], variableLabels = []\<rparr>]"]
    service_metrics_distinct by (simp add: distinct_map)

text \<open>
  No update of a metric panics for want of a label, and each addresses the series the
  statistics mean: years, reporting periods and buttons are always accepted, and distinct
  buttons count separately; airline codes, URLs, jobs, tasks and groups are accepted exactly
  when they are valid UTF-8, as texts from the database and from JSON are.
\<close>

theorem metric_updates_addressed:
  assumes "in_int64 a" "in_int64 b" "in_int64 c" "in_int64 d" "in_int64 a'" "in_int64 b'" "in_int64 c'" "in_int64 d'"
  shows "With flightFootprint_metric (year_labels y) = Returns [itoa y]
   \<and> With totalKm_metric (year_labels y) = Returns [itoa y]
   \<and> With visits_metric (since_labels (fmtDuration t)) = Returns [fmtDuration t]
   \<and> With visitsUnique_metric (since_labels (fmtDuration t)) = Returns [fmtDuration t]
   \<and> (With visitsUniqueWithUri_metric (url_labels (fmtDuration t) url) = Returns [fmtDuration t, url] \<longleftrightarrow> valid_utf8 url)
   \<and> (With flightsPerAirline_metric (airline_labels code) = Returns [code] \<longleftrightarrow> valid_utf8 code)
   \<and> (With targetCPU_metric (target_labels job task grp) = Returns [job, task, grp]
        \<longleftrightarrow> valid_utf8 job \<and> valid_utf8 task \<and> valid_utf8 grp)
   \<and> With targetMemory_metric (target_labels job task grp) = With targetCPU_metric (target_labels job task grp)
   \<and> WithLabelValues tempStat_metric [aquariumPill] = Returns [aquariumPill]
   \<and> (\<exists>l. With buttonEvent_metric (button_labels a b c d) = Returns [l])
   \<and> (With buttonEvent_metric (button_labels a b c d) = With buttonEvent_metric (button_labels a' b' c' d')
        \<longleftrightarrow> a = a' \<and> b = b' \<and> c = c' \<and> d = d')"
proof -
  have fmt: "valid_utf8 (fmtDuration t)"
    by (rule valid_utf8_ascii) (auto simp: fmtDuration_def dest: itoa_less_128 split: if_splits)
  have pill: "valid_utf8 aquariumPill" by (simp add: aquariumPill_def cont_def)
  obtain l where l: "button_labels a b c d = [(''button'', l)]" "valid_utf8 l"
    and "\<exists>l'. button_labels a' b' c' d' = [(''button'', l')] \<and> valid_utf8 l'"
  proof -
    have "\<exists>l. button_labels p q r s = [(''button'', l)] \<and> valid_utf8 l" for p q r s
      unfolding button_labels_def
      by (intro exI conjI refl valid_utf8_ascii) (auto dest: itoa_less_128)
    then show ?thesis using that by meson
  qed
  then obtain l' where l': "button_labels a' b' c' d' = [(''button'', l')]" "valid_utf8 l'" by blast
  have "button_labels a b c d = button_labels a' b' c' d' \<longleftrightarrow> l = l'" by (simp add: l(1) l'(1))
  moreover have "button_labels a b c d = button_labels a' b' c' d' \<longleftrightarrow> a = a' \<and> b = b' \<and> c = c' \<and> d = d'"
    using button_label_inj [OF _ assms] by blast
  ultimately have "l = l' \<longleftrightarrow> a = a' \<and> b = b' \<and> c = c' \<and> d = d'" by simp
  then show ?thesis
    using fmt pill l l'
    by (simp add: With_def WithLabelValues_def metric_defs year_labels_def since_labels_def url_labels_def
        airline_labels_def target_labels_def)
qed

theorem metric_updates_addressed_witness:
  "With buttonEvent_metric (button_labels 1 254 0 2) = Returns [''[1, 254, 0, 2]'']
   \<and> With buttonEvent_metric (button_labels 1 254 0 2) \<noteq> With buttonEvent_metric (button_labels 12 54 0 2)"
proof -
  have "With buttonEvent_metric (button_labels 1 254 0 2) = Returns [''[1, 254, 0, 2]'']" by code_simp
  with metric_updates_addressed [of 1 254 0 2 12 54 0 2] show ?thesis by (simp add: in_int64_def)
qed

end
