(* ===== verification/Cloudreve.thy ===== *)
theory Cloudreve
  imports Bedrock Go_Json
begin

text \<open>
  \<^verbatim>\<open>cmd/s3-to-cloudreve/main.go\<close>: copying the objects under an S3 prefix to Cloudreve, small
  ones in one request and large ones in chunks. The S3 and HTTP clients are arguments that
  thread the state of the world; a listing is the sequence of pages the client returns.
\<close>

section \<open>Source and target names\<close>

definition apiBase :: string where
  "apiBase = ''/api/v4''"

definition simpleUploadMaxBytes :: int where
  "simpleUploadMaxBytes = 50 * 1024 * 1024"

definition parseS3URI :: "string \<Rightarrow> go_error + (string \<times> string)" where
  "parseS3URI uri =
     (if \<not> has_prefix uri ''s3://'' then Inl (Plain ''URI must start with s3://'')
      else (let parts = split_first (trim_prefix uri ''s3://'') (CHR ''/''); bucket = hd parts in
        if bucket = [] then Inl (Plain ''empty bucket name'')
        else Inr (bucket, if length parts > 1 then parts ! 1 else [])))"

definition targetURI :: "string \<Rightarrow> string \<Rightarrow> string \<Rightarrow> string" where
  "targetURI cloudreveTargetDir pre key =
     cloudreveTargetDir @ ''/'' @ trim_prefix (trim_prefix key pre) ''/''"

text \<open>\<^verbatim>\<open>url.QueryEscape\<close>\<close>

definition unreserved :: "char \<Rightarrow> bool" where
  "unreserved c \<longleftrightarrow> (let n = of_char c :: nat in
     (48 \<le> n \<and> n \<le> 57) \<or> (65 \<le> n \<and> n \<le> 90) \<or> (97 \<le> n \<and> n \<le> 122) \<or> c \<in> set ''-_.~'')"

definition hex_digit :: "nat \<Rightarrow> char" where
  "hex_digit n = (if n < 10 then char_of (48 + n) else char_of (55 + n))"

definition escape_char :: "char \<Rightarrow> string" where
  "escape_char c = (if unreserved c then [c] else if c = CHR '' '' then ''+''
     else (let n = of_char c :: nat in [CHR ''%'', hex_digit (n div 16), hex_digit (n mod 16)]))"

definition QueryEscape :: "string \<Rightarrow> string" where
  "QueryEscape s = concat (map escape_char s)"

section \<open>Requests and responses\<close>

text \<open>
  The content length of a request; \<open>-1\<close> where the source leaves it to the library, which
  takes it from the body.
\<close>

datatype req_body = NoBody | Bytes string | JsonBody json

record http_request =
  Req_Method :: string
  Req_URL :: string
  Bearer :: string
  Req_Body :: req_body
  ContentLength :: int

record 'w ops =
  url_error :: "string \<Rightarrow> err"
  http_Do :: "http_request \<Rightarrow> 'w \<Rightarrow> (go_error + int \<times> payload) \<times> 'w"
  GetObject :: "string \<Rightarrow> string \<Rightarrow> 'w \<Rightarrow> (go_error + string) \<times> 'w"

record cloudreveResponse =
  Resp_Code :: int
  Msg :: string
  Data :: payload

record uploadSession =
  SessionID :: string
  ChunkSize :: int

definition dec_raw :: "payload decoder" where
  "dec_raw j old = (Some j, True)"

definition dec_cloudreve :: "cloudreveResponse decoder" where
  "dec_cloudreve = dec_struct
     [(''code'', field Resp_Code (\<lambda>v s. s\<lparr>Resp_Code := v\<rparr>) dec_int),
      (''msg'', field Msg (\<lambda>v s. s\<lparr>Msg := v\<rparr>) dec_string),
      (''data'', field Data (\<lambda>v s. s\<lparr>Data := v\<rparr>) dec_raw)]"

definition dec_session :: "uploadSession decoder" where
  "dec_session = dec_struct
     [(''session_id'', field SessionID (\<lambda>v s. s\<lparr>SessionID := v\<rparr>) dec_string),
      (''chunk_size'', field ChunkSize (\<lambda>v s. s\<lparr>ChunkSize := v\<rparr>) dec_int)]"

definition decode_response :: "payload \<Rightarrow> cloudreveResponse \<times> err" where
  "decode_response p = unmarshal dec_cloudreve p \<lparr>Resp_Code = 0, Msg = [], Data = None\<rparr>"

definition checkCloudreveResponse :: "int \<times> payload \<Rightarrow> err" where
  "checkCloudreveResponse resp = (case decode_response (snd resp) of
      (_, Some e) \<Rightarrow> Some (Wrapped (''decoding response (status '' @ itoa (fst resp) @ '')'') e)
    | (cr, None) \<Rightarrow>
        if Resp_Code cr \<noteq> 0 then Some (Plain (''API error: code='' @ itoa (Resp_Code cr) @ '' msg='' @ Msg cr))
        else None)"

text \<open>Building a request and performing it, with the error prefixes of the two steps.\<close>

definition perform :: "'w ops \<Rightarrow> string \<Rightarrow> string \<Rightarrow> http_request \<Rightarrow> 'w \<Rightarrow> (go_error + int \<times> payload) \<times> 'w" where
  "perform ops creating doing req w = (case url_error ops (Req_URL req) of
      Some e \<Rightarrow> (Inl (Wrapped creating e), w)
    | None \<Rightarrow> (case http_Do ops req w of
        (Inl e, w') \<Rightarrow> (Inl (Wrapped doing e), w')
      | (Inr resp, w') \<Rightarrow> (Inr resp, w')))"

text \<open>
  The caller only logs the error of this check; for a response that does not decode, the
  text in the source goes on to quote the rest of the body.
\<close>

definition fileExistsInCloudreve ::
  "'w ops \<Rightarrow> string \<Rightarrow> string \<Rightarrow> string \<Rightarrow> 'w \<Rightarrow> (go_error + bool) \<times> 'w" where
  "fileExistsInCloudreve ops cloudreveURL token target w =
     (case perform ops ''creating request'' ''checking file info''
         \<lparr>Req_Method = ''GET'', Req_URL = cloudreveURL @ apiBase @ ''/file/info?uri='' @ QueryEscape target,
          Bearer = token, Req_Body = NoBody, ContentLength = 0\<rparr> w of
        (Inl e, w') \<Rightarrow> (Inl e, w')
      | (Inr resp, w') \<Rightarrow> (case decode_response (snd resp) of
          (_, Some e) \<Rightarrow> (Inl (Wrapped ''decoding response'' e), w')
        | (cr, None) \<Rightarrow> (Inr (Resp_Code cr = 0), w')))"

definition simpleUpload :: "'w ops \<Rightarrow> string \<Rightarrow> string \<Rightarrow> string \<Rightarrow> int \<Rightarrow> string \<Rightarrow> 'w \<Rightarrow> err \<times> 'w" where
  "simpleUpload ops cloudreveURL token target sz body w =
     (case perform ops ''creating request'' ''uploading''
         \<lparr>Req_Method = ''PUT'', Req_URL = cloudreveURL @ apiBase @ ''/file/content?uri='' @ QueryEscape target,
          Bearer = token, Req_Body = Bytes body, ContentLength = sz\<rparr> w of
        (Inl e, w') \<Rightarrow> (Some e, w')
      | (Inr resp, w') \<Rightarrow> (checkCloudreveResponse resp, w'))"

definition createUploadSession ::
  "'w ops \<Rightarrow> string \<Rightarrow> string \<Rightarrow> string \<Rightarrow> int \<Rightarrow> 'w \<Rightarrow> (go_error + uploadSession) \<times> 'w" where
  "createUploadSession ops cloudreveURL token target sz w =
     (case perform ops ''creating session request'' ''creating session''
         \<lparr>Req_Method = ''PUT'', Req_URL = cloudreveURL @ apiBase @ ''/file/upload'', Bearer = token,
          Req_Body = JsonBody (JObj [(''size'', JNum (itoa sz)), (''uri'', JStr target)]), ContentLength = -1\<rparr> w of
        (Inl e, w') \<Rightarrow> (Inl e, w')
      | (Inr resp, w') \<Rightarrow> (case decode_response (snd resp) of
          (_, Some e) \<Rightarrow> (Inl (Wrapped ''decoding session response'' e), w')
        | (cr, None) \<Rightarrow>
            if Resp_Code cr \<noteq> 0 then
              (Inl (Plain (''session creation failed: code='' @ itoa (Resp_Code cr) @ '' msg='' @ Msg cr)), w')
            else (case unmarshal dec_session (Data cr) \<lparr>SessionID = [], ChunkSize = 0\<rparr> of
                (_, Some e) \<Rightarrow> (Inl (Wrapped ''decoding session data'' e), w')
              | (session, None) \<Rightarrow> (Inr session, w'))))"

definition chunk_request :: "string \<Rightarrow> string \<Rightarrow> string \<Rightarrow> int \<Rightarrow> int \<Rightarrow> string \<Rightarrow> http_request" where
  "chunk_request cloudreveURL token sessionID index sz body =
     \<lparr>Req_Method = ''POST'', Req_URL = cloudreveURL @ apiBase @ ''/file/upload/'' @ sessionID @ ''/'' @ itoa index,
      Bearer = token, Req_Body = Bytes body, ContentLength = sz\<rparr>"

definition uploadChunk ::
  "'w ops \<Rightarrow> string \<Rightarrow> string \<Rightarrow> string \<Rightarrow> int \<Rightarrow> int \<Rightarrow> string \<Rightarrow> 'w \<Rightarrow> err \<times> 'w" where
  "uploadChunk ops cloudreveURL token sessionID index sz body w =
     (case perform ops ''creating chunk request'' ''uploading chunk''
         (chunk_request cloudreveURL token sessionID index sz body) w of
        (Inl e, w') \<Rightarrow> (Some e, w')
      | (Inr resp, w') \<Rightarrow> (checkCloudreveResponse resp, w'))"

text \<open>
  The chunk loop, for any chunk size: it would never end for a chunk size that is not
  positive, so its result is optional. Each request takes the next \<open>thisChunk\<close> bytes of the
  object's body.
\<close>

partial_function (option) upload_chunks ::
  "'w ops \<Rightarrow> string \<Rightarrow> string \<Rightarrow> string \<Rightarrow> int \<Rightarrow> int \<Rightarrow> int \<Rightarrow> string \<Rightarrow> 'w \<Rightarrow> (err \<times> 'w) option" where
  "upload_chunks ops url token sessionID chunkSize index remaining body w =
     (if remaining > 0 then
        (let thisChunk = (if remaining < chunkSize then remaining else chunkSize) in
         case uploadChunk ops url token sessionID index thisChunk (take (nat thisChunk) body) w of
           (Some e, w') \<Rightarrow> Some (Some (Wrapped (''uploading chunk '' @ itoa index) e), w')
         | (None, w') \<Rightarrow> upload_chunks ops url token sessionID chunkSize (index + 1) (remaining - thisChunk)
             (drop (nat thisChunk) body) w')
      else Some (None, w))"

definition chunkedUpload ::
  "'w ops \<Rightarrow> string \<Rightarrow> string \<Rightarrow> string \<Rightarrow> int \<Rightarrow> string \<Rightarrow> 'w \<Rightarrow> (err \<times> 'w) option" where
  "chunkedUpload ops cloudreveURL token target sz body w =
     (case createUploadSession ops cloudreveURL token target sz w of
        (Inl e, w') \<Rightarrow> Some (Some (Wrapped ''creating upload session'' e), w')
      | (Inr session, w') \<Rightarrow>
         (let chunkSize = (if ChunkSize session \<le> 0 then sz else ChunkSize session) in
          upload_chunks ops cloudreveURL token (SessionID session) chunkSize 0 sz body w'))"

definition copyObject ::
  "'w ops \<Rightarrow> string \<Rightarrow> string \<Rightarrow> int \<Rightarrow> string \<Rightarrow> string \<Rightarrow> string \<Rightarrow> 'w \<Rightarrow> (err \<times> 'w) option" where
  "copyObject ops bucket key sz cloudreveURL token target w = (case GetObject ops bucket key w of
      (Inl e, w') \<Rightarrow> Some (Some (Wrapped ''getting S3 object'' e), w')
    | (Inr body, w') \<Rightarrow>
        if sz < simpleUploadMaxBytes then Some (simpleUpload ops cloudreveURL token target sz body w')
        else chunkedUpload ops cloudreveURL token target sz body w')"

section \<open>Copying everything\<close>

record stats =
  uploaded :: nat
  skipped :: nat
  errors :: nat

record job =
  job_bucket :: string
  job_prefix :: string
  job_url :: string
  job_token :: string
  job_target :: string
  job_dryRun :: bool

text \<open>
  The goroutine of one object, given whether the semaphore could be acquired; the result is
  the statistics it leaves.
\<close>

definition copy_one ::
  "'w ops \<Rightarrow> job \<Rightarrow> string \<times> int \<Rightarrow> err \<Rightarrow> stats \<Rightarrow> 'w \<Rightarrow> (stats \<times> 'w) option" where
  "copy_one ops j obj acquire_err st w = (case obj of (key, sz) \<Rightarrow>
     if acquire_err \<noteq> None then Some (st, w)
     else if job_dryRun j then Some (st, w)
     else (let target = targetURI (job_target j) (job_prefix j) key in
       case fileExistsInCloudreve ops (job_url j) (job_token j) target w of
         (Inr True, w') \<Rightarrow> Some (st\<lparr>skipped := skipped st + 1\<rparr>, w')
       | (_, w') \<Rightarrow>
          (case copyObject ops (job_bucket j) key sz (job_url j) (job_token j) target w' of
             None \<Rightarrow> None
           | Some (Some e, w'') \<Rightarrow> Some (st\<lparr>errors := errors st + 1\<rparr>, w'')
           | Some (None, w'') \<Rightarrow> Some (st\<lparr>uploaded := uploaded st + 1\<rparr>, w''))))"

text \<open>
  The listing loop: the objects it starts goroutines for, the directory entries it skips, and
  whether it ended with an error (\<open>None\<close>: the listing has not ended within these pages).
\<close>

fun list_pages ::
  "(go_error + (string \<times> int) list \<times> bool) list \<Rightarrow> (string \<times> int) list \<times> nat \<times> err option" where
  "list_pages [] = ([], 0, None)"
| "list_pages (Inl e # pages) = ([], 0, Some (Some e))"
| "list_pages (Inr (contents, truncated) # pages) =
     (let objs = filter (\<lambda>(key, _). \<not> has_suffix key ''/'') contents;
          dirs = length (filter (\<lambda>(key, _). has_suffix key ''/'') contents) in
      if \<not> truncated then (objs, dirs, Some None)
      else (case list_pages pages of (objs', dirs', r) \<Rightarrow> (objs @ objs', dirs + dirs', r)))"

fun run_workers ::
  "'w ops \<Rightarrow> job \<Rightarrow> ((string \<times> int) \<times> err) list \<Rightarrow> stats \<Rightarrow> 'w \<Rightarrow> (stats \<times> 'w) option" where
  "run_workers ops j [] st w = Some (st, w)"
| "run_workers ops j ((obj, a) # objs) st w = (case copy_one ops j obj a st w of
     None \<Rightarrow> None | Some (st', w') \<Rightarrow> run_workers ops j objs st' w')"

text \<open>
  \<^verbatim>\<open>copyAll\<close> when its listing ends: \<open>finished\<close> are the goroutines that have finished when it
  returns, in the order in which they did, each with the result of acquiring the semaphore.
  After a complete listing it waits for all of them; a listing error returns at once.
\<close>

definition may_finish :: "(go_error + (string \<times> int) list \<times> bool) list \<Rightarrow> (string \<times> int) list \<Rightarrow> bool" where
  "may_finish pages finished \<longleftrightarrow> (case list_pages pages of
      (objs, _, Some None) \<Rightarrow> (\<exists>ix. distinct ix \<and> set ix = {..<length objs} \<and> finished = map ((!) objs) ix)
    | (objs, _, Some (Some _)) \<Rightarrow> (\<exists>ix. distinct ix \<and> set ix \<subseteq> {..<length objs} \<and> finished = map ((!) objs) ix)
    | _ \<Rightarrow> False)"

definition copyAll ::
  "'w ops \<Rightarrow> job \<Rightarrow> (go_error + (string \<times> int) list \<times> bool) list \<Rightarrow> ((string \<times> int) \<times> err) list
    \<Rightarrow> 'w \<Rightarrow> (stats \<times> 'w) option" where
  "copyAll ops j pages finished w = (case list_pages pages of
      (objs, dirs, r) \<Rightarrow> run_workers ops j finished
        \<lparr>uploaded = 0, skipped = dirs, errors = (case r of Some (Some _) \<Rightarrow> 1 | _ \<Rightarrow> 0)\<rparr> w)"

text \<open>The checks of \<^verbatim>\<open>main\<close> before it copies; the error is the message it exits with.\<close>

record copy_flags =
  flag_s3_uri :: string
  flag_target_dir :: string
  flag_cloudreve_url :: string
  flag_dry_run :: bool

definition getenv :: "env \<Rightarrow> string \<Rightarrow> string" where
  "getenv e k = (case e k of None \<Rightarrow> [] | Some v \<Rightarrow> v)"

definition cloudreve_main :: "copy_flags \<Rightarrow> env \<Rightarrow> err \<Rightarrow> string + (job \<times> string)" where
  "cloudreve_main f e identity_err =
     (if flag_s3_uri f = [] then Inl ''--s3-uri is required''
      else (case parseS3URI (flag_s3_uri f) of
        Inl _ \<Rightarrow> Inl ''invalid S3 URI''
      | Inr (bucket, pre) \<Rightarrow>
          if getenv e ''AWS_ENDPOINT_URL_S3'' = [] then
            Inl ''AWS_ENDPOINT_URL_S3 environment variable is required''
          else (let region = (if getenv e ''AWS_REGION'' = [] then ''us-east-1'' else getenv e ''AWS_REGION'') in
            if getenv e ''AWS_ACCESS_KEY_ID'' = [] \<or> getenv e ''AWS_SECRET_ACCESS_KEY'' = [] then
              Inl ''AWS_ACCESS_KEY_ID and AWS_SECRET_ACCESS_KEY environment variables are required''
            else if getenv e ''CLOUDREVE_BEARER_TOKEN'' = [] then
              Inl ''CLOUDREVE_BEARER_TOKEN environment variable is required''
            else if identity_err \<noteq> None then Inl ''loading keychain identity''
            else Inr (\<lparr>job_bucket = bucket, job_prefix = pre, job_url = flag_cloudreve_url f,
                       job_token = getenv e ''CLOUDREVE_BEARER_TOKEN'',
                       job_target = ''cloudreve://my'' @ flag_target_dir f,
                       job_dryRun = flag_dry_run f\<rparr>, region))))"

section \<open>Facts about names\<close>

definition hex_val :: "char \<Rightarrow> nat" where
  "hex_val c = (let n = of_char c in if n < 58 then n - 48 else n - 55)"

fun query_unescape :: "string \<Rightarrow> string" where
  "query_unescape [] = []"
| "query_unescape [c] = [if c = CHR ''+'' then CHR '' '' else c]"
| "query_unescape [c, d] = (if c = CHR ''+'' then CHR '' '' else c) # query_unescape [d]"
| "query_unescape (c # a # b # s) =
     (if c = CHR ''%'' then char_of (16 * hex_val a + hex_val b) # query_unescape s
      else (if c = CHR ''+'' then CHR '' '' else c) # query_unescape (a # b # s))"

lemma query_unescape_Cons:
  "c \<noteq> CHR ''%'' \<Longrightarrow> query_unescape (c # s) = (if c = CHR ''+'' then CHR '' '' else c) # query_unescape s"
  by (cases s rule: query_unescape.cases) auto

lemma hex_val_digit: "n < 16 \<Longrightarrow> hex_val (hex_digit n) = n"
  by (auto simp: hex_val_def hex_digit_def of_char_of Let_def)

lemma unreserved_plain: "unreserved c \<Longrightarrow> c \<noteq> CHR ''%'' \<and> c \<noteq> CHR ''+''"
  by (auto simp: unreserved_def)

lemma query_unescape_char: "query_unescape (escape_char c @ s) = c # query_unescape s"
proof (cases "unreserved c")
  case True
  then show ?thesis using unreserved_plain by (auto simp: escape_char_def query_unescape_Cons)
next
  case False
  let ?n = "of_char c :: nat"
  have n: "?n < 256" using of_char_mod_256 [of c, where 'a = nat] by (metis mod_less_divisor zero_less_numeral)
  then have "?n div 16 < 16" by (simp add: less_mult_imp_div_less)
  then have d: "16 * hex_val (hex_digit (?n div 16)) + hex_val (hex_digit (?n mod 16)) = ?n"
    by (simp add: hex_val_digit)
  show ?thesis
  proof (cases "c = CHR '' ''")
    case True
    with False show ?thesis by (simp add: escape_char_def query_unescape_Cons)
  next
    case False
    with \<open>\<not> unreserved c\<close> d show ?thesis by (simp add: escape_char_def Let_def)
  qed
qed

lemma query_roundtrip: "query_unescape (QueryEscape s) = s"
  by (induction s) (simp_all add: QueryEscape_def query_unescape_char)

section \<open>Facts about chunks\<close>

lemma upload_chunks_returns:
  assumes "0 < c \<or> n \<le> 0"
  shows "\<exists>r. upload_chunks ops url token sid c i n body w = Some r"
  using assms
proof (induction "nat n" arbitrary: i n body w rule: less_induct)
  case less
  show ?case
  proof (cases "n > 0")
    case True
    let ?t = "if n < c then n else c"
    obtain e w' where u: "uploadChunk ops url token sid i ?t (take (nat ?t) body) w = (e, w')" by fastforce
    have "nat (n - ?t) < nat n" using True less.prems by auto
    moreover have "0 < c \<or> n - ?t \<le> 0" using True less.prems by auto
    ultimately obtain r where "upload_chunks ops url token sid c (i + 1) (n - ?t) (drop (nat ?t) body) w' = Some r"
      using less.hyps by blast
    then show ?thesis
      unfolding upload_chunks.simps [of _ _ _ _ _ _ n] using True u by (cases e) (simp_all add: Let_def)
  next
    case False
    then show ?thesis by (simp add: upload_chunks.simps [of _ _ _ _ _ _ n])
  qed
qed

lemma chunked_returns: "\<exists>r. chunkedUpload ops url token target sz body w = Some r"
proof (cases "createUploadSession ops url token target sz w")
  case (Pair r w1)
  show ?thesis
  proof (cases r)
    case (Inl e)
    with Pair show ?thesis by (simp add: chunkedUpload_def)
  next
    case (Inr s)
    let ?c = "if ChunkSize s \<le> 0 then sz else ChunkSize s"
    have "0 < ?c \<or> sz \<le> 0" by auto
    then have "\<exists>r. upload_chunks ops url token (SessionID s) ?c 0 sz body w1 = Some r"
      by (rule upload_chunks_returns)
    with Pair Inr show ?thesis by (simp add: chunkedUpload_def Let_def)
  qed
qed

function pieces :: "nat \<Rightarrow> 'a list \<Rightarrow> 'a list list" where
  "pieces c xs = (if c = 0 \<or> xs = [] then [] else take c xs # pieces c (drop c xs))"
  by auto
termination
  by (relation "measure (\<lambda>(c, xs). length xs)") auto

declare pieces.simps [simp del]

lemma concat_pieces: "0 < c \<Longrightarrow> concat (pieces c xs) = xs"
proof (induction c xs rule: pieces.induct)
  case (1 c xs)
  then show ?case by (subst pieces.simps) auto
qed

lemma pieces_length: "p \<in> set (pieces c xs) \<Longrightarrow> 0 < length p \<and> length p \<le> c"
proof (induction c xs rule: pieces.induct)
  case (1 c xs)
  then show ?case by (subst (asm) (2) pieces.simps) (auto split: if_splits)
qed

definition chunk_log :: "string \<Rightarrow> string \<Rightarrow> string \<Rightarrow> nat \<Rightarrow> string list \<Rightarrow> http_request list" where
  "chunk_log url token sid i ps =
     map (\<lambda>(k, p). chunk_request url token sid (int k) (int (length p)) p) (enumerate i ps)"

definition accepts :: "http_request list ops \<Rightarrow> string \<Rightarrow> string \<Rightarrow> string \<Rightarrow> bool" where
  "accepts ops url token sid \<longleftrightarrow> (\<forall>i n b w. url_error ops (Req_URL (chunk_request url token sid i n b)) = None
     \<and> (\<exists>resp. http_Do ops (chunk_request url token sid i n b) w = (Inr resp, w @ [chunk_request url token sid i n b])
          \<and> checkCloudreveResponse resp = None))"

lemma uploadChunk_accepted:
  assumes "accepts ops url token sid"
  shows "uploadChunk ops url token sid i n b w = (None, w @ [chunk_request url token sid i n b])"
proof -
  from assms obtain resp where "url_error ops (Req_URL (chunk_request url token sid i n b)) = None"
      "http_Do ops (chunk_request url token sid i n b) w = (Inr resp, w @ [chunk_request url token sid i n b])"
      "checkCloudreveResponse resp = None"
    unfolding accepts_def by blast
  then show ?thesis by (simp add: uploadChunk_def perform_def)
qed

lemma upload_chunks_accepted:
  assumes "accepts ops url token sid" "0 < c"
  shows "upload_chunks ops url token sid (int c) (int i) (int (length body)) body w
    = Some (None, w @ chunk_log url token sid i (pieces c body))"
  using assms(2)
proof (induction c body arbitrary: i w rule: pieces.induct)
  case (1 c body)
  show ?case
  proof (cases "body = []")
    case True
    then show ?thesis
      by (simp add: upload_chunks.simps [of _ _ _ _ _ _ 0] pieces.simps [of c "[]"] chunk_log_def)
  next
    case False
    let ?p = "take c body"
    define t where "t = (if int (length body) < int c then int (length body) else int c)"
    have t: "take (nat t) body = ?p" "drop (nat t) body = drop c body"
        "int (length body) - t = int (length (drop c body))" and tl: "t = int (length ?p)"
      by (auto simp: t_def)
    have IH: "upload_chunks ops url token sid (int c) (int (Suc i)) (int (length (drop c body))) (drop c body) w'
        = Some (None, w' @ chunk_log url token sid (Suc i) (pieces c (drop c body)))" for w'
      using 1(1) [of "Suc i" w'] 1(2) False by blast
    have "upload_chunks ops url token sid (int c) (int i) (int (length body)) body w
        = upload_chunks ops url token sid (int c) (int i + 1) (int (length body) - t) (drop (nat t) body)
            (w @ [chunk_request url token sid (int i) t (take (nat t) body)])"
      using False by (subst upload_chunks.simps) (simp add: Let_def uploadChunk_accepted [OF assms(1)] t_def)
    also have "\<dots> = Some (None, (w @ [chunk_request url token sid (int i) t ?p])
        @ chunk_log url token sid (Suc i) (pieces c (drop c body)))"
      unfolding t using IH by (simp only: of_nat_Suc add.commute)
    finally show ?thesis
      using False 1(2) tl by (simp add: pieces.simps [of c body] chunk_log_def)
  qed
qed

lemma copy_one_total:
  assumes "\<not> job_dryRun j"
  shows "\<exists>st' w'. copy_one ops j obj None st w = Some (st', w')
    \<and> uploaded st' + skipped st' + errors st' = Suc (uploaded st + skipped st + errors st)"
proof -
  obtain key sz where o: "obj = (key, sz)" by (cases obj)
  let ?t = "targetURI (job_target j) (job_prefix j) key"
  obtain ex w1 where x: "fileExistsInCloudreve ops (job_url j) (job_token j) ?t w = (ex, w1)" by fastforce
  have "\<exists>r. copyObject ops (job_bucket j) key sz (job_url j) (job_token j) ?t w1 = Some r"
    using chunked_returns by (auto simp: copyObject_def split: sum.splits prod.splits)
  then obtain e w2 where c: "copyObject ops (job_bucket j) key sz (job_url j) (job_token j) ?t w1 = Some (e, w2)"
    by fastforce
  show ?thesis
    using assms x c by (cases e; cases ex) (auto simp: copy_one_def o Let_def split: bool.splits)
qed

lemma run_workers_total:
  "\<not> job_dryRun j \<Longrightarrow> \<exists>st' w'. run_workers ops j (map (\<lambda>obj. (obj, None)) objs) st w = Some (st', w')
     \<and> uploaded st' + skipped st' + errors st' = length objs + (uploaded st + skipped st + errors st)"
proof (induction objs arbitrary: st w)
  case Nil
  then show ?case by simp
next
  case (Cons obj objs)
  from copy_one_total [OF Cons.prems, of ops obj st w] obtain st1 w1 where
      "copy_one ops j obj None st w = Some (st1, w1)"
      "uploaded st1 + skipped st1 + errors st1 = Suc (uploaded st + skipped st + errors st)" by blast
  moreover from Cons obtain st2 w2 where "run_workers ops j (map (\<lambda>obj. (obj, None)) objs) st1 w1 = Some (st2, w2)"
      "uploaded st2 + skipped st2 + errors st2 = length objs + (uploaded st1 + skipped st1 + errors st1)" by blast
  ultimately show ?case by simp
qed

fun listed :: "(go_error + (string \<times> int) list \<times> bool) list \<Rightarrow> nat" where
  "listed [] = 0"
| "listed (Inl e # pages) = 0"
| "listed (Inr (contents, truncated) # pages) = length contents + (if truncated then listed pages else 0)"

lemma list_pages_listed: "list_pages pages = (objs, dirs, r) \<Longrightarrow> length objs + dirs = listed pages"
proof (induction pages arbitrary: objs dirs r)
  case Nil
  then show ?case by simp
next
  case (Cons page pages)
  show ?case
  proof (cases page)
    case (Inl e)
    with Cons.prems show ?thesis by simp
  next
    case (Inr x)
    obtain contents truncated where x: "x = (contents, truncated)" by (cases x)
    obtain objs' dirs' r' where l: "list_pages pages = (objs', dirs', r')" by (metis prod_cases3)
    have "length (filter (\<lambda>(key, _). \<not> has_suffix key ''/'') contents) + length (filter (\<lambda>(key, _). has_suffix key ''/'') contents)
        = length contents"
      using sum_length_filter_compl [of "\<lambda>(key, _). has_suffix key ''/''" contents] by (simp add: case_prod_unfold)
    with Cons.prems Cons.IH [OF l] Inr x l show ?thesis by (auto simp: Let_def split: if_splits)
  qed
qed

section \<open>Properties\<close>

text \<open>
  C13: a chunked upload always ends, whatever chunk size the server asks for, zero and
  negative ones included, and whatever the server answers.
\<close>

theorem chunkedUpload_terminates:
  "\<exists>e w'. chunkedUpload ops url token target sz body w = Some (e, w')"
  using chunked_returns by fastforce


definition demo_ops :: "http_request list ops" where
  "demo_ops = \<lparr>url_error = (\<lambda>_. None),
     http_Do = (\<lambda>req w. (Inr (200, Some (JObj [(''code'', JNum ''0''),
        (''data'', JObj [(''session_id'', JStr ''s''), (''chunk_size'', JNum ''2'')])])), w @ [req])),
     GetObject = (\<lambda>b k w. (Inr ''hello'', w))\<rparr>"




text \<open>
  Where an object goes. Under a prefix that ends in a slash (or is empty), different keys
  whose remainder does not start with a slash get different targets; under a prefix without
  one, an object directly next to it and the object of the same name inside it collide.
\<close>

theorem target_names:
  assumes "\<not> has_prefix a ''/''" "\<not> has_prefix b ''/''"
  shows "(targetURI dir pre (pre @ a) = targetURI dir pre (pre @ b) \<longleftrightarrow> a = b)
    \<and> targetURI dir pre (pre @ ''/'' @ a) = targetURI dir pre (pre @ a)
    \<and> QueryEscape (targetURI dir pre (pre @ a)) = QueryEscape (targetURI dir pre (pre @ b)) = (a = b)"
proof -
  have t: "targetURI dir pre (pre @ x) = dir @ ''/'' @ x" if "\<not> has_prefix x ''/''" for x
    using that trim_prefix_append [of pre x] by (simp add: targetURI_def trim_prefix_def [of x])
  have "targetURI dir pre (pre @ ''/'' @ a) = dir @ ''/'' @ a"
    unfolding targetURI_def trim_prefix_append by simp
  moreover have "QueryEscape x = QueryEscape y \<longleftrightarrow> x = y" for x y by (metis query_roundtrip)
  ultimately show ?thesis using t [OF assms(1)] t [OF assms(2)] by simp
qed

theorem target_names_witness:
  "targetURI ''t'' ''p'' (''p'' @ ''/'' @ ''x'') = targetURI ''t'' ''p'' (''p'' @ ''x'')"
  using target_names [of "''x''" "''y''" "''t''" "''p''"] by simp

text \<open>
  A source URI is read back exactly: a bucket without slashes and any prefix, or none; and
  a URI without the scheme or without a bucket is refused.
\<close>

theorem parseS3URI_roundtrip:
  assumes "b \<noteq> []" "CHR ''/'' \<notin> set b"
  shows "parseS3URI (''s3://'' @ b @ ''/'' @ p) = Inr (b, p) \<and> parseS3URI (''s3://'' @ b) = Inr (b, [])
    \<and> isl (parseS3URI (''s3:///'' @ p))"
proof -
  have f: "split_first (CHR ''/'' # p) (CHR ''/'') = [[], p]" by simp
  have "parseS3URI (''s3://'' @ b @ ''/'' @ p) = Inr (b, p)"
    unfolding parseS3URI_def trim_prefix_append using assms
    by (simp add: split_first_append trim_prefix_append [of "''s3://''", simplified])
  moreover have "parseS3URI (''s3://'' @ b) = Inr (b, [])"
    unfolding parseS3URI_def trim_prefix_append using assms
    by (simp add: split_first_no trim_prefix_append [of "''s3://''", simplified])
  moreover have "isl (parseS3URI (''s3:///'' @ p))"
    by (simp add: parseS3URI_def trim_prefix_append [of "''s3://''" "CHR ''/'' # p", simplified])
  ultimately show ?thesis by blast
qed

theorem parseS3URI_roundtrip_witness:
  "parseS3URI (''s3://'' @ ''bucket'' @ ''/'' @ ''some/prefix'') = Inr (''bucket'', ''some/prefix'')"
  using parseS3URI_roundtrip [of "''bucket''" "''some/prefix''"] by simp

end
