(* ===== verification/Recovery.thy ===== *)
theory Recovery
  imports Cloudreve
begin

text \<open>
  \<^verbatim>\<open>cmd/recovery/main.go\<close>: walking a SeaweedFS filer, restoring files whose data is lost from a
  backup bucket and marking those without a backup. The filer and the bucket are arguments
  that thread the state of the world. The goroutines of a listing are run one after the
  other in an order that is an argument (\<^verbatim>\<open>Recovery_Concurrent\<close> interleaves them); the context of
  \<^verbatim>\<open>main\<close> is the background context, for which acquiring the semaphore does not fail.
\<close>

section \<open>Listings\<close>

record filerEntry =
  FullPath :: string
  Chunks :: "json list"
  Mode :: "32 word"

text \<open>\<^verbatim>\<open>fs.FileMode.IsDir\<close> tests bit 31.\<close>

definition isDirectory :: "filerEntry \<Rightarrow> bool" where
  "isDirectory e = bit (Mode e) 31"

record filerListing =
  Listing_Path :: string
  Entries :: "filerEntry list"
  LastFileName :: string
  ShouldDisplayLoadMore :: bool

definition dec_uint32 :: "32 word decoder" where
  "dec_uint32 j old = (case j of
      JNum lit \<Rightarrow> (case atoi lit of
          Some i \<Rightarrow> if \<not> has_prefix lit ''-'' \<and> i < 2 ^ 32 then (word_of_int i, True) else (old, False)
        | None \<Rightarrow> (old, False))
    | JNull \<Rightarrow> (old, True)
    | _ \<Rightarrow> (old, False))"

definition zero_entry :: filerEntry where
  "zero_entry = \<lparr>FullPath = [], Chunks = [], Mode = 0\<rparr>"

definition dec_entry :: "filerEntry decoder" where
  "dec_entry = dec_struct
     [(''FullPath'', field FullPath (\<lambda>v s. s\<lparr>FullPath := v\<rparr>) dec_string),
      (''chunks'', field Chunks (\<lambda>v s. s\<lparr>Chunks := v\<rparr>) (dec_slice (\<lambda>j _. (j, True)) JNull)),
      (''Mode'', field Mode (\<lambda>v s. s\<lparr>Mode := v\<rparr>) dec_uint32)]"

definition dec_listing :: "filerListing decoder" where
  "dec_listing = dec_struct
     [(''Path'', field Listing_Path (\<lambda>v s. s\<lparr>Listing_Path := v\<rparr>) dec_string),
      (''Entries'', field Entries (\<lambda>v s. s\<lparr>Entries := v\<rparr>) (dec_slice dec_entry zero_entry)),
      (''LastFileName'', field LastFileName (\<lambda>v s. s\<lparr>LastFileName := v\<rparr>) dec_string),
      (''ShouldDisplayLoadMore'', field ShouldDisplayLoadMore (\<lambda>v s. s\<lparr>ShouldDisplayLoadMore := v\<rparr>) dec_bool)]"

record filer_request =
  Filer_Method :: string
  Filer_URL :: string
  Accept :: string
  Filer_Body :: "string option"

record 'w filer_ops =
  bad_url :: "string \<Rightarrow> err"
  filer_Do :: "filer_request \<Rightarrow> 'w \<Rightarrow> (go_error + int \<times> payload) \<times> 'w"
  backup :: "string \<Rightarrow> string \<Rightarrow> 'w \<Rightarrow> (go_error + string) \<times> 'w"

definition listing_url :: "string \<Rightarrow> string \<Rightarrow> string \<Rightarrow> string" where
  "listing_url filerURL dirPath lastFileName = filerURL @ dirPath @ ''/''
     @ (if lastFileName \<noteq> [] then ''?lastFileName='' @ QueryEscape lastFileName else [])"

definition listDirectory ::
  "'w filer_ops \<Rightarrow> string \<Rightarrow> string \<Rightarrow> string \<Rightarrow> 'w \<Rightarrow> (go_error + filerListing) \<times> 'w" where
  "listDirectory ops filerURL dirPath lastFileName w =
     (let u = listing_url filerURL dirPath lastFileName in
      case bad_url ops u of
        Some e \<Rightarrow> (Inl (Wrapped ''creating request'' e), w)
      | None \<Rightarrow> (case filer_Do ops \<lparr>Filer_Method = ''GET'', Filer_URL = u, Accept = ''application/json'', Filer_Body = None\<rparr> w of
          (Inl e, w') \<Rightarrow> (Inl (Wrapped ''requesting directory listing'' e), w')
        | (Inr (status, body), w') \<Rightarrow>
            if status \<noteq> 200 then (Inl (Plain (''unexpected status '' @ itoa status @ '' for '' @ u)), w')
            else (case unmarshal dec_listing body
                \<lparr>Listing_Path = [], Entries = [], LastFileName = [], ShouldDisplayLoadMore = False\<rparr> of
              (_, Some e) \<Rightarrow> (Inl (Wrapped ''decoding listing'' e), w')
            | (listing, None) \<Rightarrow> (Inr listing, w'))))"

section \<open>One file\<close>

record rec_stats =
  scanned :: nat
  healthy :: nat
  restored :: nat
  missing :: nat
  walk_errors :: nat

definition no_stats :: rec_stats where
  "no_stats = \<lparr>scanned = 0, healthy = 0, restored = 0, missing = 0, walk_errors = 0\<rparr>"

definition marker :: string where
  "marker = ''.missing_7jun26''"

definition uploadToFiler :: "'w filer_ops \<Rightarrow> string \<Rightarrow> string \<Rightarrow> string \<Rightarrow> 'w \<Rightarrow> err \<times> 'w" where
  "uploadToFiler ops filerURL filePath body w = (case bad_url ops (filerURL @ filePath) of
      Some e \<Rightarrow> (Some (Wrapped ''creating upload request'' e), w)
    | None \<Rightarrow> (case filer_Do ops \<lparr>Filer_Method = ''PUT'', Filer_URL = filerURL @ filePath, Accept = [], Filer_Body = Some body\<rparr> w of
        (Inl e, w') \<Rightarrow> (Some (Wrapped ''uploading to filer'' e), w')
      | (Inr (status, _), w') \<Rightarrow>
          (if status < 200 \<or> status \<ge> 300 then Some (Plain (''filer upload returned status '' @ itoa status)) else None, w')))"

text \<open>The loop over the backup prefixes.\<close>

fun restore_from ::
  "'w filer_ops \<Rightarrow> string \<Rightarrow> string \<Rightarrow> string \<Rightarrow> bool \<Rightarrow> string list \<Rightarrow> 'w \<Rightarrow> bool \<times> 'w" where
  "restore_from ops filerURL filePath bucket dryRun [] w = (False, w)"
| "restore_from ops filerURL filePath bucket dryRun (pre # pres) w =
     (case backup ops bucket (pre @ trim_prefix filePath ''/'') w of
        (Inl e, w') \<Rightarrow> restore_from ops filerURL filePath bucket dryRun pres w'
      | (Inr body, w') \<Rightarrow>
          if dryRun then (True, w')
          else (case uploadToFiler ops filerURL filePath body w' of
              (Some e, w'') \<Rightarrow> restore_from ops filerURL filePath bucket dryRun pres w''
            | (None, w'') \<Rightarrow> (True, w'')))"

definition tryRestore :: "'w filer_ops \<Rightarrow> string \<Rightarrow> string \<Rightarrow> string \<Rightarrow> bool \<Rightarrow> 'w \<Rightarrow> bool \<times> 'w" where
  "tryRestore ops filerURL filePath bucket dryRun w =
     restore_from ops filerURL filePath bucket dryRun [''snapshot2/'', ''snapshot/''] w"

text \<open>Every failure of the rename is only logged.\<close>

definition markMissing :: "'w filer_ops \<Rightarrow> string \<Rightarrow> string \<Rightarrow> bool \<Rightarrow> 'w \<Rightarrow> 'w" where
  "markMissing ops filerURL filePath dryRun w =
     (if dryRun then w
      else (let u = filerURL @ (filePath @ marker) @ ''?mv.from='' @ QueryEscape filePath in
        if bad_url ops u \<noteq> None then w
        else snd (filer_Do ops \<lparr>Filer_Method = ''POST'', Filer_URL = u, Accept = [], Filer_Body = None\<rparr> w)))"

definition checkAndRecover ::
  "'w filer_ops \<Rightarrow> string \<Rightarrow> string \<Rightarrow> string \<Rightarrow> bool \<Rightarrow> rec_stats \<Rightarrow> 'w \<Rightarrow> rec_stats \<times> 'w" where
  "checkAndRecover ops filerURL filePath bucket dryRun s0 w =
     (let s = s0\<lparr>scanned := scanned s0 + 1\<rparr>; failed = s\<lparr>walk_errors := walk_errors s + 1\<rparr> in
      if bad_url ops (filerURL @ filePath) \<noteq> None then (failed, w)
      else (case filer_Do ops \<lparr>Filer_Method = ''GET'', Filer_URL = filerURL @ filePath, Accept = [], Filer_Body = None\<rparr> w of
          (Inl e, w') \<Rightarrow> (failed, w')
        | (Inr (status, _), w') \<Rightarrow>
            if status = 200 then (s\<lparr>healthy := healthy s + 1\<rparr>, w')
            else if status \<noteq> 500 then (failed, w')
            else (case tryRestore ops filerURL filePath bucket dryRun w' of
                (True, w'') \<Rightarrow> (s\<lparr>restored := restored s + 1\<rparr>, w'')
              | (False, w'') \<Rightarrow> (s\<lparr>missing := missing s + 1\<rparr>, markMissing ops filerURL filePath dryRun w''))))"

section \<open>The walk\<close>

definition add_stats :: "rec_stats \<Rightarrow> rec_stats \<Rightarrow> rec_stats" where
  "add_stats s sub = \<lparr>scanned = scanned s + scanned sub, healthy = healthy s + healthy sub,
     restored = restored s + restored sub, missing = missing s + missing sub,
     walk_errors = walk_errors s + walk_errors sub\<rparr>"

text \<open>The goroutine of one entry; \<open>sub\<close> walks a directory.\<close>

definition visit ::
  "'w filer_ops \<Rightarrow> string \<Rightarrow> string \<Rightarrow> bool \<Rightarrow> (string \<Rightarrow> 'w \<Rightarrow> (rec_stats \<times> 'w) option)
    \<Rightarrow> filerEntry \<Rightarrow> rec_stats \<Rightarrow> 'w \<Rightarrow> (rec_stats \<times> 'w) option" where
  "visit ops filerURL bucket dryRun sub entry s w =
     (if isDirectory entry then (case sub (FullPath entry) w of
          None \<Rightarrow> None | Some (t, w') \<Rightarrow> Some (add_stats s t, w'))
      else if has_suffix (FullPath entry) marker then Some (s, w)
      else Some (checkAndRecover ops filerURL (FullPath entry) bucket dryRun s w))"

fun visit_all ::
  "(filerEntry \<Rightarrow> rec_stats \<Rightarrow> 'w \<Rightarrow> (rec_stats \<times> 'w) option) \<Rightarrow> filerEntry list \<Rightarrow> rec_stats \<Rightarrow> 'w
    \<Rightarrow> (rec_stats \<times> 'w) option" where
  "visit_all go [] s w = Some (s, w)"
| "visit_all go (e # es) s w = (case go e s w of None \<Rightarrow> None | Some (s', w') \<Rightarrow> visit_all go es s' w')"

text \<open>
  The loop over the pages of a directory, with what has been counted so far. A directory tree
  of unbounded depth, or a listing that always promises more, would make it run for ever:
  fuel bounds the number of nested pages, and \<open>None\<close> says that it did not suffice. \<open>order\<close>
  gives the order in which the goroutines of a page run.
\<close>

fun walk ::
  "nat \<Rightarrow> 'w filer_ops \<Rightarrow> (string \<Rightarrow> string \<Rightarrow> filerEntry list \<Rightarrow> filerEntry list) \<Rightarrow> string \<Rightarrow> string \<Rightarrow> bool
    \<Rightarrow> string \<Rightarrow> string \<Rightarrow> rec_stats \<Rightarrow> 'w \<Rightarrow> (rec_stats \<times> 'w) option" where
  "walk 0 ops order filerURL bucket dryRun dirPath lastFileName s w = None"
| "walk (Suc n) ops order filerURL bucket dryRun dirPath lastFileName s w =
     (case listDirectory ops filerURL dirPath lastFileName w of
        (Inl e, w') \<Rightarrow> Some (s\<lparr>walk_errors := walk_errors s + 1\<rparr>, w')
      | (Inr listing, w') \<Rightarrow>
          (case visit_all (visit ops filerURL bucket dryRun
                  (\<lambda>d. walk n ops order filerURL bucket dryRun d [] no_stats))
              (order dirPath lastFileName (Entries listing)) s w' of
             None \<Rightarrow> None
           | Some (s', w'') \<Rightarrow>
               if ShouldDisplayLoadMore listing
               then walk n ops order filerURL bucket dryRun dirPath (LastFileName listing) s' w''
               else Some (s', w'')))"

definition walkAndRecover ::
  "nat \<Rightarrow> 'w filer_ops \<Rightarrow> (string \<Rightarrow> string \<Rightarrow> filerEntry list \<Rightarrow> filerEntry list) \<Rightarrow> string \<Rightarrow> string \<Rightarrow> string \<Rightarrow> bool
    \<Rightarrow> 'w \<Rightarrow> (rec_stats \<times> 'w) option" where
  "walkAndRecover n ops order filerURL dirPath bucket dryRun w =
     walk n ops order filerURL bucket dryRun dirPath [] no_stats w"

record recovery_flags =
  base_path :: string
  filer_url :: string
  dry_run :: bool
  b2_bucket :: string

definition default_flags :: recovery_flags where
  "default_flags = \<lparr>base_path = ''/buckets/documents'', filer_url = ''https://seaweed-filer-http.tfk.nd'',
     dry_run = False, b2_bucket = ''seaweedfs-bu''\<rparr>"

definition recovery_main ::
  "nat \<Rightarrow> 'w filer_ops \<Rightarrow> (string \<Rightarrow> string \<Rightarrow> filerEntry list \<Rightarrow> filerEntry list) \<Rightarrow> recovery_flags \<Rightarrow> env \<Rightarrow> 'w
    \<Rightarrow> string + (rec_stats \<times> 'w) option" where
  "recovery_main n ops order f e w =
     (if getenv e ''B2_KEY_ID'' = [] \<or> getenv e ''B2_SECRET_KEY'' = []
      then Inl ''B2_KEY_ID and B2_SECRET_KEY environment variables are required''
      else Inr (walkAndRecover n ops order (filer_url f) (base_path f) (b2_bucket f) (dry_run f) w))"

section \<open>What a run may do\<close>

definition rename_url :: "string \<Rightarrow> string \<Rightarrow> string" where
  "rename_url filerURL p = filerURL @ (p @ marker) @ ''?mv.from='' @ QueryEscape p"

text \<open>The requests a run is expected to make: reads, and writes to files that carry no mark.\<close>

definition permitted :: "bool \<Rightarrow> string \<Rightarrow> filer_request \<Rightarrow> bool" where
  "permitted dryRun filerURL req \<longleftrightarrow> Filer_Method req = ''GET''
     \<or> (\<not> dryRun \<and> (\<exists>p. \<not> has_suffix p marker \<and>
          (Filer_Method req = ''PUT'' \<and> Filer_URL req = filerURL @ p
           \<or> Filer_Method req = ''POST'' \<and> Filer_URL req = rename_url filerURL p)))"

definition keeps :: "bool \<Rightarrow> string \<Rightarrow> 'w filer_ops \<Rightarrow> ('w \<Rightarrow> bool) \<Rightarrow> bool" where
  "keeps dryRun filerURL ops I \<longleftrightarrow>
     (\<forall>req w. permitted dryRun filerURL req \<longrightarrow> I w \<longrightarrow> I (snd (filer_Do ops req w)))
     \<and> (\<forall>b k w. I w \<longrightarrow> I (snd (backup ops b k w)))"

definition balanced :: "rec_stats \<Rightarrow> bool" where
  "balanced s \<longleftrightarrow> scanned s \<le> healthy s + restored s + missing s + walk_errors s"

lemma keeps_Do: "keeps dry u ops I \<Longrightarrow> permitted dry u req \<Longrightarrow> I w \<Longrightarrow> filer_Do ops req w = (r, w') \<Longrightarrow> I w'"
  by (metis keeps_def snd_conv)

lemma keeps_backup: "keeps dry u ops I \<Longrightarrow> I w \<Longrightarrow> backup ops b k w = (r, w') \<Longrightarrow> I w'"
  by (metis keeps_def snd_conv)

lemma permitted_get [simp]: "permitted dry u \<lparr>Filer_Method = ''GET'', Filer_URL = x, Accept = a, Filer_Body = b\<rparr>"
  by (simp add: permitted_def)

lemma permitted_put [simp]:
  "\<not> has_suffix p marker \<Longrightarrow>
     permitted False u \<lparr>Filer_Method = ''PUT'', Filer_URL = u @ p, Accept = a, Filer_Body = b\<rparr>"
  by (auto simp: permitted_def)

lemma permitted_post [simp]:
  "\<not> has_suffix p marker \<Longrightarrow>
     permitted False u \<lparr>Filer_Method = ''POST'', Filer_URL = rename_url u p, Accept = a, Filer_Body = b\<rparr>"
  by (auto simp: permitted_def)

lemma listDirectory_keeps:
  "keeps dry u ops I \<Longrightarrow> I w \<Longrightarrow> listDirectory ops u d l w = (r, w') \<Longrightarrow> I w'"
  by (auto simp: listDirectory_def Let_def split: option.splits prod.splits sum.splits if_splits
      dest!: keeps_Do [OF _ permitted_get])

lemma upload_keeps:
  "keeps False u ops I \<Longrightarrow> \<not> has_suffix p marker \<Longrightarrow> I w \<Longrightarrow> uploadToFiler ops u p body w = (r, w') \<Longrightarrow> I w'"
  by (auto simp: uploadToFiler_def split: option.splits prod.splits sum.splits
      dest!: keeps_Do [OF _ permitted_put])

lemma markMissing_keeps:
  assumes "keeps dry u ops I" "\<not> has_suffix p marker" "I w"
  shows "I (markMissing ops u p dry w)"
proof (cases dry)
  case False
  with assms show ?thesis
    unfolding markMissing_def rename_url_def [symmetric] Let_def
    by (auto simp: keeps_def)
qed (use assms in \<open>simp add: markMissing_def\<close>)

lemma restore_from_keeps:
  assumes "keeps dry u ops I" "\<not> has_suffix p marker"
  shows "I w \<Longrightarrow> restore_from ops u p b dry pres w = (r, w') \<Longrightarrow> I w'"
proof (induction pres arbitrary: w)
  case (Cons pre pres)
  obtain x w1 where x: "backup ops b (pre @ trim_prefix p ''/'') w = (x, w1)" by fastforce
  with assms(1) Cons.prems(1) have w1: "I w1" by (rule keeps_backup)
  show ?case
  proof (cases x)
    case (Inl e)
    with x Cons w1 show ?thesis by simp
  next
    case (Inr body)
    show ?thesis
    proof (cases dry)
      case True
      with Inr x Cons.prems w1 show ?thesis by simp
    next
      case False
      obtain e w2 where e: "uploadToFiler ops u p body w1 = (e, w2)" by fastforce
      have "keeps False u ops I" using assms(1) False by simp
      from upload_keeps [OF this assms(2) w1 e] have "I w2" .
      with Inr x Cons False e show ?thesis by (cases e) auto
    qed
  qed
qed simp

lemma checkAndRecover_keeps:
  assumes k: "keeps dry u ops I" and p: "\<not> has_suffix p marker" and i: "I w"
    and c: "checkAndRecover ops u p b dry s w = (s', w')"
  shows "I w'"
proof -
  obtain r w1 where r: "filer_Do ops \<lparr>Filer_Method = ''GET'', Filer_URL = u @ p, Accept = [], Filer_Body = None\<rparr> w = (r, w1)"
    by fastforce
  with k i have w1: "I w1" by (metis keeps_Do permitted_get)
  obtain ok w2 where t: "tryRestore ops u p b dry w1 = (ok, w2)" by fastforce
  with k p w1 have w2: "I w2" by (metis tryRestore_def restore_from_keeps)
  with k p have "I (markMissing ops u p dry w2)" by (rule markMissing_keeps)
  with c r t w1 w2 i show ?thesis
    by (auto simp: checkAndRecover_def Let_def split: if_splits sum.splits prod.splits bool.splits)
qed

lemma checkAndRecover_balanced:
  "balanced s \<Longrightarrow> checkAndRecover ops u p b dry s w = (s', w') \<Longrightarrow> balanced s'"
  by (auto simp: checkAndRecover_def Let_def balanced_def split: if_splits sum.splits prod.splits bool.splits)

lemma add_stats_balanced: "balanced s \<Longrightarrow> balanced t \<Longrightarrow> balanced (add_stats s t)"
  by (simp add: balanced_def add_stats_def)

lemma visit_all_invariant:
  assumes "\<And>e s w s' w'. e \<in> set es \<Longrightarrow> P s w \<Longrightarrow> go e s w = Some (s', w') \<Longrightarrow> P s' w'"
  shows "P s w \<Longrightarrow> visit_all go es s w = Some (s', w') \<Longrightarrow> P s' w'"
  using assms
proof (induction es arbitrary: s w)
  case (Cons e es)
  then obtain s1 w1 where g: "go e s w = Some (s1, w1)" "visit_all go es s1 w1 = Some (s', w')"
    by (auto split: option.splits)
  with Cons.prems have "P s1 w1" by (meson list.set_intros(1))
  with Cons g show ?case by (meson list.set_intros(2))
qed simp

lemma visit_invariant:
  assumes "keeps dry u ops I" "balanced s \<and> I w" "visit ops u b dry sub e s w = Some (s', w')"
    and "\<And>d w t w1. I w \<Longrightarrow> sub d w = Some (t, w1) \<Longrightarrow> balanced t \<and> I w1"
  shows "balanced s' \<and> I w'"
proof -
  have "balanced (fst (checkAndRecover ops u (FullPath e) b dry s w))"
    using assms(2) checkAndRecover_balanced by (metis prod.collapse)
  moreover have "I (snd (checkAndRecover ops u (FullPath e) b dry s w))" if "\<not> has_suffix (FullPath e) marker"
    using assms(1,2) checkAndRecover_keeps that by (metis prod.collapse)
  ultimately show ?thesis
    using assms(2,3) assms(4) [of w "FullPath e"] add_stats_balanced
    by (auto simp: visit_def split: if_splits option.splits)
qed

lemma walk_invariant:
  assumes k: "keeps dry u ops I"
  shows "balanced s \<and> I w \<Longrightarrow> walk n ops order u b dry d l s w = Some (s', w') \<Longrightarrow> balanced s' \<and> I w'"
proof (induction n arbitrary: d l s w s' w')
  case (Suc n)
  obtain r w1 where r: "listDirectory ops u d l w = (r, w1)" by fastforce
  with k Suc.prems have w1: "I w1" by (metis listDirectory_keeps)
  show ?case
  proof (cases r)
    case (Inl e)
    with r Suc.prems w1 show ?thesis by (auto simp: balanced_def)
  next
    case (Inr listing)
    define sub where "sub = (\<lambda>x. walk n ops order u b dry x [] no_stats)"
    have sub: "balanced t \<and> I w3" if "I w2" "sub x w2 = Some (t, w3)" for x w2 t w3
      using Suc.IH [of no_stats w2 x "[]" t w3] that by (simp add: sub_def balanced_def no_stats_def)
    from Inr r Suc.prems obtain s2 w2
      where v: "visit_all (visit ops u b dry sub) (order d l (Entries listing)) s w1 = Some (s2, w2)"
        and rest: "if ShouldDisplayLoadMore listing then walk n ops order u b dry d (LastFileName listing) s2 w2 = Some (s', w')
                   else (s2, w2) = (s', w')"
      by (auto simp: sub_def split: option.splits if_splits)
    have step: "balanced s4 \<and> I w4"
      if "balanced s3 \<and> I w3" "visit ops u b dry sub e s3 w3 = Some (s4, w4)" for e s3 w3 s4 w4
      using visit_invariant [OF k that sub] .
    have "balanced s2 \<and> I w2"
    proof (rule visit_all_invariant [OF _ _ v, of "\<lambda>s w. balanced s \<and> I w"])
      show "balanced s \<and> I w1" using Suc.prems(1) w1 by simp
    qed (rule step)
    with rest show ?thesis using Suc.IH [of s2 w2 d "LastFileName listing" s' w']
      by (simp split: if_splits)
  qed
qed simp

section \<open>Ending\<close>

definition extends :: "('a \<Rightarrow> 'b \<Rightarrow> 'c option) \<Rightarrow> ('a \<Rightarrow> 'b \<Rightarrow> 'c option) \<Rightarrow> bool" where
  "extends f g \<longleftrightarrow> (\<forall>x w y. f x w = Some y \<longrightarrow> g x w = Some y)"

lemma visit_extends: "extends f g \<Longrightarrow> visit ops u b dry f e s w = Some y \<Longrightarrow> visit ops u b dry g e s w = Some y"
  by (auto simp: visit_def extends_def split: option.splits if_splits)

lemma visit_all_extends:
  "extends f g \<Longrightarrow> visit_all (visit ops u b dry f) es s w = Some y \<Longrightarrow> visit_all (visit ops u b dry g) es s w = Some y"
proof (induction es arbitrary: s w)
  case (Cons e es)
  then show ?case using visit_extends [OF Cons.prems(1), of ops u b dry e s w]
    by (auto split: option.splits)
qed simp

lemma walk_more_fuel:
  "walk n ops order u b dry d l s w = Some y \<Longrightarrow> walk (Suc n) ops order u b dry d l s w = Some y"
proof (induction n arbitrary: d l s w y)
  case (Suc n)
  have ext: "extends (\<lambda>x. walk n ops order u b dry x [] no_stats) (\<lambda>x. walk (Suc n) ops order u b dry x [] no_stats)"
    using Suc.IH by (simp add: extends_def del: walk.simps)
  obtain r w1 where r: "listDirectory ops u d l w = (r, w1)" by fastforce
  show ?case
  proof (cases r)
    case (Inl e)
    with r Suc.prems show ?thesis by simp
  next
    case (Inr listing)
    with r Suc.prems obtain s2 w2
      where v: "visit_all (visit ops u b dry (\<lambda>x. walk n ops order u b dry x [] no_stats))
          (order d l (Entries listing)) s w1 = Some (s2, w2)"
        and rest: "if ShouldDisplayLoadMore listing then walk n ops order u b dry d (LastFileName listing) s2 w2 = Some y
                   else y = (s2, w2)"
      by (auto split: option.splits if_splits)
    have "if ShouldDisplayLoadMore listing then walk (Suc n) ops order u b dry d (LastFileName listing) s2 w2 = Some y
          else y = (s2, w2)"
      using rest Suc.IH by (simp del: walk.simps)
    with r Inr visit_all_extends [OF ext v] show ?thesis
      by (subst walk.simps(2)) (auto simp del: walk.simps)
  qed
qed simp

lemma walk_fuel_mono: "walk n ops order u b dry d l s w = Some y \<Longrightarrow> n \<le> m \<Longrightarrow> walk m ops order u b dry d l s w = Some y"
  by (induction m) (auto simp: le_Suc_eq dest: walk_more_fuel simp del: walk.simps)

lemma visit_all_ends:
  assumes "\<And>e s w. e \<in> set es \<Longrightarrow> go e s w \<noteq> None"
  shows "visit_all go es s w \<noteq> None"
  using assms
proof (induction es arbitrary: s w)
  case (Cons e es)
  then obtain s1 w1 where "go e s w = Some (s1, w1)" by fastforce
  with Cons show ?case by simp
qed simp

text \<open>A tree that is finite, in pages that advance: \<open>rank\<close> bounds what is left of it.\<close>

definition finite_tree :: "'w filer_ops \<Rightarrow> string \<Rightarrow> (string \<Rightarrow> string \<Rightarrow> nat) \<Rightarrow> bool" where
  "finite_tree ops u rank \<longleftrightarrow> (\<forall>d l w listing w'. listDirectory ops u d l w = (Inr listing, w') \<longrightarrow>
     (\<forall>e \<in> set (Entries listing). isDirectory e \<longrightarrow> rank (FullPath e) [] < rank d l)
     \<and> (ShouldDisplayLoadMore listing \<longrightarrow> rank d (LastFileName listing) < rank d l))"

lemma walk_ends:
  assumes t: "finite_tree ops u rank" and o: "\<forall>d l es. set (order d l es) \<subseteq> set es"
  shows "rank d l < n \<Longrightarrow> walk n ops order u b dry d l s w \<noteq> None"
proof (induction n arbitrary: d l s w)
  case (Suc n)
  obtain r w1 where r: "listDirectory ops u d l w = (r, w1)" by fastforce
  show ?case
  proof (cases r)
    case (Inr listing)
    have "(\<forall>e \<in> set (Entries listing). isDirectory e \<longrightarrow> rank (FullPath e) [] < rank d l)
        \<and> (ShouldDisplayLoadMore listing \<longrightarrow> rank d (LastFileName listing) < rank d l)"
      using t r Inr unfolding finite_tree_def by blast
    with Suc.prems have lower: "\<forall>e \<in> set (Entries listing). isDirectory e \<longrightarrow> rank (FullPath e) [] < n"
      and page: "ShouldDisplayLoadMore listing \<longrightarrow> rank d (LastFileName listing) < n"
      by fastforce+
    define go where "go = visit ops u b dry (\<lambda>x. walk n ops order u b dry x [] no_stats)"
    have "go e s w \<noteq> None" if e: "e \<in> set (order d l (Entries listing))" for e s w
    proof -
      from e o have "e \<in> set (Entries listing)" by blast
      with lower have "isDirectory e \<longrightarrow> rank (FullPath e) [] < n" by blast
      with Suc.IH [of "FullPath e" "[]" no_stats w] show ?thesis
        by (auto simp: go_def visit_def split: option.splits)
    qed
    then have "visit_all go (order d l (Entries listing)) s w1 \<noteq> None" by (rule visit_all_ends)
    with Inr r page Suc.IH show ?thesis by (auto simp: go_def)
  qed (use r in simp)
qed simp

section \<open>Properties\<close>

text \<open>
  A filer that logs its requests and lists one file, without data, in every directory; the
  backup bucket has every file.
\<close>

definition demo_filer :: "filer_request list filer_ops" where
  "demo_filer = \<lparr>bad_url = (\<lambda>_. None),
     filer_Do = (\<lambda>req w. (Inr (if Accept req \<noteq> []
         then (200, Some (JObj [(''Entries'', JArr [JObj [(''FullPath'', JStr ''/b/a'')]])]))
         else (if Filer_Method req = ''GET'' then 500 else 201, Some JNull)), w @ [req])),
     backup = (\<lambda>b k w. (Inr ''data'', w))\<rparr>"

abbreviation in_order :: "string \<Rightarrow> string \<Rightarrow> filerEntry list \<Rightarrow> filerEntry list" where
  "in_order \<equiv> \<lambda>_ _ es. es"

lemma demo_listing:
  "listDirectory demo_filer u d l w =
     (Inr \<lparr>Listing_Path = [], Entries = [\<lparr>FullPath = ''/b/a'', Chunks = [], Mode = 0\<rparr>], LastFileName = [],
        ShouldDisplayLoadMore = False\<rparr>,
      w @ [\<lparr>Filer_Method = ''GET'', Filer_URL = listing_url u d l, Accept = ''application/json'', Filer_Body = None\<rparr>])"
  by (simp add: listDirectory_def demo_filer_def Let_def dec_listing_def dec_entry_def
      zero_entry_def to_lower_def lower_char_def dec_simps)

lemma demo_finite: "finite_tree demo_filer u (\<lambda>_ _. 0)"
  by (simp add: finite_tree_def demo_listing isDirectory_def)

lemma demo_restores:
  "walkAndRecover (Suc 0) demo_filer in_order ''http://f'' ''/b'' ''bk'' False [] =
     Some (\<lparr>scanned = 1, healthy = 0, restored = 1, missing = 0, walk_errors = 0\<rparr>,
       [\<lparr>Filer_Method = ''GET'', Filer_URL = ''http://f/b/'', Accept = ''application/json'', Filer_Body = None\<rparr>,
        \<lparr>Filer_Method = ''GET'', Filer_URL = ''http://f/b/a'', Accept = [], Filer_Body = None\<rparr>,
        \<lparr>Filer_Method = ''PUT'', Filer_URL = ''http://f/b/a'', Accept = [], Filer_Body = Some ''data''\<rparr>])"
  by (simp add: walkAndRecover_def demo_listing visit_def isDirectory_def marker_def has_suffix_def listing_url_def)
    (simp add: checkAndRecover_def tryRestore_def uploadToFiler_def demo_filer_def no_stats_def Let_def)

text \<open>
  A recovery run only makes permitted requests: a dry run reads and never writes, and a
  live run writes only to files that do not already carry the \<^verbatim>\<open>.missing_7jun26\<close> mark, a
  restored file under its own path and a lost one by renaming it. Stated for every property
  \<open>I\<close> of the world that the permitted requests and reads of the backup keep, every order in
  which the goroutines of a page run and every tree. The report accounts for every scanned
  file: each is counted as healthy, restored, missing or an error.
\<close>

theorem recovery_confined:
  assumes "keeps dryRun filerURL ops I" and "I w"
    and "walkAndRecover n ops order filerURL dirPath bucket dryRun w = Some (s, w')"
  shows "I w' \<and> scanned s \<le> healthy s + restored s + missing s + walk_errors s"
proof -
  have "balanced no_stats" by (simp add: balanced_def no_stats_def)
  with assms(2,3) walk_invariant [OF assms(1), of no_stats w n order bucket dirPath "[]" s w']
  show ?thesis by (simp add: walkAndRecover_def balanced_def)
qed

theorem recovery_confined_witness:
  "\<exists>s w'. walkAndRecover (Suc 0) demo_filer in_order ''http://f'' ''/b'' ''bk'' False [] = Some (s, w')
     \<and> list_all (permitted False ''http://f'') w' \<and> scanned s = 1"
proof -
  have "keeps False ''http://f'' demo_filer (list_all (permitted False ''http://f''))"
    by (simp add: keeps_def demo_filer_def)
  from recovery_confined [OF this _ demo_restores] show ?thesis
    by (simp add: demo_restores)
qed

text \<open>
  A recovery run ends: when the directory tree is finite and the pages of a listing advance
  (the rank of what is left decreases from a listing to its subdirectories and to its next
  page), the walk returns a report, the same one for every sufficient amount of fuel.
\<close>

theorem recovery_terminates:
  assumes "finite_tree ops filerURL rank" and "\<forall>d l es. set (order d l es) \<subseteq> set es"
  shows "\<exists>s w'. \<forall>n > rank dirPath []. walkAndRecover n ops order filerURL dirPath bucket dryRun w = Some (s, w')"
proof -
  obtain y where y: "walk (Suc (rank dirPath [])) ops order filerURL bucket dryRun dirPath [] no_stats w = Some y"
    using walk_ends [OF assms, of dirPath "[]" "Suc (rank dirPath [])"] by blast
  obtain s w' where "y = (s, w')" by fastforce
  with y show ?thesis unfolding walkAndRecover_def
    by (intro exI [of _ s] exI [of _ w']) (meson Suc_leI walk_fuel_mono)
qed

theorem recovery_terminates_witness:
  "\<exists>s w'. \<forall>n > 0. walkAndRecover n demo_filer in_order ''http://f'' ''/b'' ''bk'' True [] = Some (s, w')"
  using recovery_terminates [OF demo_finite, of in_order "''http://f''" "''/b''" "''bk''" True "[]"] by simp

end
