(* ===== verification/Recovery_Outcome.thy ===== *)
theory Recovery_Outcome
  imports Recovery "HOL-Library.Char_ord" "HOL-Library.List_Lexorder"
begin

text \<open>
  What a recovery run of \<^verbatim>\<open>cmd/recovery/main.go\<close> leaves behind on a filer that works: the
  specification \<open>healed\<close> of the files, in one step, and the proof that the walk with its
  pages, goroutines, restores and renames implements it. The documented behaviour of the
  filer and of the backup bucket is stated as laws about the functions through which the
  program reaches them.
\<close>

section \<open>The filer and the backup\<close>

datatype filer_file = Directory | Intact string | DataLost

type_synonym files = "string \<rightharpoonup> filer_file"

definition child :: "string \<Rightarrow> string \<Rightarrow> string" where
  "child d n = d @ ''/'' @ n"

definition file_name :: "string \<Rightarrow> bool" where
  "file_name n \<longleftrightarrow> n \<noteq> [] \<and> CHR ''/'' \<notin> set n"

text \<open>
  A path that the program can append to the address of the filer as it is: it is not
  escaped, so a question mark, a hash or a percent sign would not be part of the path that
  the filer is asked for.
\<close>

definition url_path :: "string \<Rightarrow> bool" where
  "url_path p \<longleftrightarrow> has_prefix p ''/'' \<and> list_all (\<lambda>c. c \<notin> set ''?#%'' \<and> 32 \<le> (of_char c :: nat) \<and> of_char c \<noteq> (127 :: nat)) p"

definition file_status :: "filer_file option \<Rightarrow> int" where
  "file_status x = (case x of None \<Rightarrow> 404 | Some DataLost \<Rightarrow> 500 | Some _ \<Rightarrow> 200)"

text \<open>
  A page of the directory \<open>d\<close>: names after \<open>l\<close>, in the order of their bytes, all of them up
  to the last name of the page.
\<close>

definition is_page :: "files \<Rightarrow> string \<Rightarrow> string \<Rightarrow> filerListing \<Rightarrow> bool" where
  "is_page fs d l L \<longleftrightarrow>
     (\<forall>e \<in> set (Entries L). \<exists>n x. file_name n \<and> l < n \<and> FullPath e = child d n \<and> fs (child d n) = Some x
        \<and> (isDirectory e \<longleftrightarrow> x = Directory))
     \<and> (\<forall>n. file_name n \<and> l < n \<and> (ShouldDisplayLoadMore L \<longrightarrow> n \<le> LastFileName L) \<and> fs (child d n) \<noteq> None
        \<longrightarrow> child d n \<in> FullPath ` set (Entries L))
     \<and> (ShouldDisplayLoadMore L \<longrightarrow> l < LastFileName L)"

definition empty_listing :: filerListing where
  "empty_listing = \<lparr>Listing_Path = [], Entries = [], LastFileName = [], ShouldDisplayLoadMore = False\<rparr>"

definition get_request :: "string \<Rightarrow> string \<Rightarrow> filer_request" where
  "get_request u accept = \<lparr>Filer_Method = ''GET'', Filer_URL = u, Accept = accept, Filer_Body = None\<rparr>"

definition put_request :: "string \<Rightarrow> string \<Rightarrow> filer_request" where
  "put_request u c = \<lparr>Filer_Method = ''PUT'', Filer_URL = u, Accept = [], Filer_Body = Some c\<rparr>"

definition post_request :: "string \<Rightarrow> filer_request" where
  "post_request u = \<lparr>Filer_Method = ''POST'', Filer_URL = u, Accept = [], Filer_Body = None\<rparr>"

text \<open>
  The filer reads, lists, stores and moves files; \<open>files w\<close> is what it holds in the world
  \<open>w\<close>, and the bucket holds \<open>archive\<close>.
\<close>

definition reads_files :: "'w filer_ops \<Rightarrow> string \<Rightarrow> ('w \<Rightarrow> files) \<Rightarrow> bool" where
  "reads_files ops u files \<longleftrightarrow> (\<forall>x. bad_url ops x = None)
     \<and> (\<forall>req w. Filer_Method req = ''GET'' \<longrightarrow> files (snd (filer_Do ops req w)) = files w)
     \<and> (\<forall>p w. url_path p \<longrightarrow> (\<exists>b. fst (filer_Do ops (get_request (u @ p) []) w) = Inr (file_status (files w p), b)))"

definition lists_files :: "'w filer_ops \<Rightarrow> string \<Rightarrow> ('w \<Rightarrow> files) \<Rightarrow> bool" where
  "lists_files ops u files \<longleftrightarrow> (\<forall>d l w. url_path d \<and> files w d = Some Directory \<longrightarrow>
     (\<exists>b L. fst (filer_Do ops (get_request (listing_url u d l) ''application/json'') w) = Inr (200, b)
        \<and> unmarshal dec_listing b empty_listing = (L, None) \<and> is_page (files w) d l L))"

definition stores_files :: "'w filer_ops \<Rightarrow> string \<Rightarrow> ('w \<Rightarrow> files) \<Rightarrow> bool" where
  "stores_files ops u files \<longleftrightarrow> (\<forall>p c w. url_path p \<and> files w p \<notin> {None, Some Directory} \<longrightarrow>
     files (snd (filer_Do ops (put_request (u @ p) c) w)) = (files w)(p \<mapsto> Intact c)
     \<and> (\<exists>b. fst (filer_Do ops (put_request (u @ p) c) w) = Inr (201, b)))"

definition moves_files :: "'w filer_ops \<Rightarrow> string \<Rightarrow> ('w \<Rightarrow> files) \<Rightarrow> bool" where
  "moves_files ops u files \<longleftrightarrow>
     (\<forall>p x w. url_path p \<and> files w p = Some x \<and> x \<noteq> Directory \<and> files w (p @ marker) = None \<longrightarrow>
        files (snd (filer_Do ops (post_request (rename_url u p)) w)) = (files w)(p := None, p @ marker \<mapsto> x))
     \<and> (\<forall>p w. url_path p \<and> files w p = None \<longrightarrow>
        files (snd (filer_Do ops (post_request (rename_url u p)) w)) = files w)"

definition holds_backups ::
  "'w filer_ops \<Rightarrow> string \<Rightarrow> (string \<rightharpoonup> string) \<Rightarrow> ('w \<Rightarrow> files) \<Rightarrow> bool" where
  "holds_backups ops bucket archive files \<longleftrightarrow> (\<forall>b k w. files (snd (backup ops b k w)) = files w)
     \<and> (\<forall>k w. (case archive k of None \<Rightarrow> \<exists>e. fst (backup ops bucket k w) = Inl e | Some c \<Rightarrow> fst (backup ops bucket k w) = Inr c))"

definition filer_laws ::
  "'w filer_ops \<Rightarrow> string \<Rightarrow> string \<Rightarrow> (string \<rightharpoonup> string) \<Rightarrow> ('w \<Rightarrow> files) \<Rightarrow> bool" where
  "filer_laws ops u bucket archive files \<longleftrightarrow> reads_files ops u files \<and> lists_files ops u files
     \<and> stores_files ops u files \<and> moves_files ops u files \<and> holds_backups ops bucket archive files"

section \<open>The specification\<close>

text \<open>The newer snapshot is preferred.\<close>

definition backup_of :: "(string \<rightharpoonup> string) \<Rightarrow> string \<Rightarrow> string option" where
  "backup_of archive p = (case archive (''snapshot2/'' @ trim_prefix p ''/'') of
      Some c \<Rightarrow> Some c | None \<Rightarrow> archive (''snapshot/'' @ trim_prefix p ''/''))"

definition beyond_repair :: "(string \<rightharpoonup> string) \<Rightarrow> files \<Rightarrow> string \<Rightarrow> bool" where
  "beyond_repair archive fs p \<longleftrightarrow> fs p = Some DataLost \<and> backup_of archive p = None"

text \<open>The files \<open>fs\<close> after the lost ones among \<open>V\<close> were restored or else renamed.\<close>

definition healed :: "(string \<rightharpoonup> string) \<Rightarrow> string set \<Rightarrow> files \<Rightarrow> files" where
  "healed archive V fs p =
     (if p \<in> V \<and> fs p = Some DataLost then map_option Intact (backup_of archive p)
      else if \<exists>q \<in> V. p = q @ marker \<and> beyond_repair archive fs q then Some DataLost
      else fs p)"

text \<open>The files below a directory, from the name \<open>l\<close> on.\<close>

inductive below :: "files \<Rightarrow> string \<Rightarrow> string \<Rightarrow> string \<Rightarrow> bool" for fs where
  below_file: "file_name n \<Longrightarrow> l < n \<Longrightarrow> fs (child d n) = Some x \<Longrightarrow> x \<noteq> Directory \<Longrightarrow> below fs d l (child d n)"
| below_dir: "file_name n \<Longrightarrow> l < n \<Longrightarrow> fs (child d n) = Some Directory \<Longrightarrow> below fs (child d n) [] q \<Longrightarrow> below fs d l q"

definition to_check :: "files \<Rightarrow> string \<Rightarrow> string \<Rightarrow> string set" where
  "to_check fs d l = {q. below fs d l q \<and> \<not> has_suffix q marker}"

text \<open>No name needs escaping, and the names for lost files are free.\<close>

definition recoverable :: "(string \<rightharpoonup> string) \<Rightarrow> files \<Rightarrow> bool" where
  "recoverable archive fs \<longleftrightarrow> (\<forall>p. fs p \<noteq> None \<longrightarrow> url_path p)
     \<and> (\<forall>p. beyond_repair archive fs p \<and> \<not> has_suffix p marker \<longrightarrow> fs (p @ marker) = None)"

section \<open>One file\<close>

lemma marked_other: "p @ marker \<noteq> p"
  by (simp add: marker_def)

lemma healed_unmarked:
  "\<not> has_suffix p marker \<Longrightarrow> healed archive V fs p =
     (if p \<in> V \<and> fs p = Some DataLost then map_option Intact (backup_of archive p) else fs p)"
  by (auto simp: healed_def)

lemma healed_directory:
  assumes "recoverable archive fs" "\<forall>q \<in> V. \<not> has_suffix q marker"
  shows "healed archive V fs p = Some Directory \<longleftrightarrow> fs p = Some Directory"
  using assms by (auto simp: healed_def recoverable_def)

lemma healed_marked:
  "has_suffix p marker \<Longrightarrow> \<forall>q \<in> V. \<not> has_suffix q marker \<Longrightarrow> healed archive V fs p =
     (if \<exists>q \<in> V. p = q @ marker \<and> beyond_repair archive fs q then Some DataLost else fs p)"
  by (auto simp: healed_def)


text \<open>The laws, one by one.\<close>

lemma no_bad_url: "filer_laws ops u bucket archive files \<Longrightarrow> bad_url ops x = None"
  unfolding filer_laws_def reads_files_def by blast

lemma reads_keep:
  assumes "filer_laws ops u bucket archive files"
  shows "Filer_Method req = ''GET'' \<Longrightarrow> files (snd (filer_Do ops req w)) = files w"
    and "files (snd (backup ops b k w)) = files w"
  using assms unfolding filer_laws_def reads_files_def holds_backups_def by blast+

lemma get_keeps: "filer_laws ops u bucket archive files \<Longrightarrow> files (snd (filer_Do ops (get_request x a) w)) = files w"
  by (rule reads_keep) (simp_all add: get_request_def)

lemma get_status:
  assumes "filer_laws ops u bucket archive files" "url_path p"
  obtains b w1 where "filer_Do ops \<lparr>Filer_Method = ''GET'', Filer_URL = u @ p, Accept = [], Filer_Body = None\<rparr> w
      = (Inr (file_status (files w p), b), w1)" "files w1 = files w"
proof -
  from assms obtain b where "fst (filer_Do ops (get_request (u @ p) []) w) = Inr (file_status (files w p), b)"
    unfolding filer_laws_def reads_files_def by blast
  with get_keeps [OF assms(1), of "u @ p" "[]" w] that show thesis
    by (metis get_request_def prod.collapse)
qed

lemma listDirectory_answer:
  assumes "\<And>x. bad_url ops x = None" "unmarshal dec_listing b empty_listing = (L, None)"
    and "filer_Do ops (get_request (listing_url u d l) ''application/json'') w = (Inr (200, b), w1)"
  shows "listDirectory ops u d l w = (Inr L, w1)"
  using assms by (simp add: listDirectory_def get_request_def empty_listing_def)

lemma list_page:
  assumes "filer_laws ops u bucket archive files" "url_path d" "files w d = Some Directory"
  obtains L w1 where "listDirectory ops u d l w = (Inr L, w1)" "is_page (files w) d l L" "files w1 = files w"
proof -
  let ?r = "get_request (listing_url u d l) ''application/json''"
  from assms obtain b L where b: "fst (filer_Do ops ?r w) = Inr (200, b)"
      and L: "unmarshal dec_listing b empty_listing = (L, None)" "is_page (files w) d l L"
    unfolding filer_laws_def lists_files_def by blast
  from b obtain w1 where w1: "filer_Do ops ?r w = (Inr (200, b), w1)" by (metis prod.collapse)
  from listDirectory_answer [OF no_bad_url [OF assms(1)] L(1) w1] have "listDirectory ops u d l w = (Inr L, w1)" .
  with L w1 get_keeps [OF assms(1), of _ _ w] that show thesis by (metis snd_conv)
qed

lemma put_stores:
  assumes "filer_laws ops u bucket archive files" "url_path p" "files w p \<notin> {None, Some Directory}"
  obtains w1 where "uploadToFiler ops u p c w = (None, w1)" "files w1 = (files w)(p \<mapsto> Intact c)"
proof -
  let ?r = "put_request (u @ p) c"
  from assms have f: "files (snd (filer_Do ops ?r w)) = (files w)(p \<mapsto> Intact c)"
    and "\<exists>b. fst (filer_Do ops ?r w) = Inr (201, b)"
    unfolding filer_laws_def stores_files_def by blast+
  then obtain b w1 where w1: "filer_Do ops ?r w = (Inr (201, b), w1)" by (metis prod.collapse)
  with no_bad_url [OF assms(1)] have "uploadToFiler ops u p c w = (None, w1)"
    by (simp add: uploadToFiler_def put_request_def)
  with f w1 that show thesis by (metis snd_conv)
qed

lemma rename_moves:
  assumes "filer_laws ops u bucket archive files" "url_path p" "files w p = Some x" "x \<noteq> Directory"
    "files w (p @ marker) = None"
  shows "files (markMissing ops u p False w) = (files w)(p := None, p @ marker \<mapsto> x)"
  using assms no_bad_url [OF assms(1)]
  unfolding filer_laws_def moves_files_def markMissing_def rename_url_def post_request_def Let_def by simp

lemma rename_missing:
  assumes "filer_laws ops u bucket archive files" "url_path p" "files w p = None"
  shows "files (markMissing ops u p False w) = files w"
  using assms no_bad_url [OF assms(1)]
  unfolding filer_laws_def moves_files_def markMissing_def rename_url_def post_request_def Let_def by simp

lemma backup_reads:
  assumes "filer_laws ops u bucket archive files"
  obtains r w1 where "backup ops bucket k w = (r, w1)" "files w1 = files w"
    "case archive k of None \<Rightarrow> \<exists>e. r = Inl e | Some c \<Rightarrow> r = Inr c"
proof -
  from assms have "files (snd (backup ops bucket k w)) = files w"
    and "case archive k of None \<Rightarrow> \<exists>e. fst (backup ops bucket k w) = Inl e | Some c \<Rightarrow> fst (backup ops bucket k w) = Inr c"
    unfolding filer_laws_def holds_backups_def by blast+
  with that [of "fst (backup ops bucket k w)" "snd (backup ops bucket k w)"] show thesis
    by (simp split: option.splits)
qed

lemma tryRestore_outcome:
  assumes l: "filer_laws ops u bucket archive files" and p: "url_path p" "files w p = Some DataLost"
  obtains w1 where "tryRestore ops u p bucket False w = (backup_of archive p \<noteq> None, w1)"
    "files w1 = (case backup_of archive p of None \<Rightarrow> files w | Some c \<Rightarrow> (files w)(p \<mapsto> Intact c))"
proof -
  let ?k = "\<lambda>pre. pre @ trim_prefix p ''/''"
  obtain r1 w1 where b1: "backup ops bucket (?k ''snapshot2/'') w = (r1, w1)" "files w1 = files w"
      "case archive (?k ''snapshot2/'') of None \<Rightarrow> \<exists>e. r1 = Inl e | Some c \<Rightarrow> r1 = Inr c"
    by (rule backup_reads [OF l, where k = "?k ''snapshot2/''" and w = w])
  obtain r2 w2 where b2: "backup ops bucket (?k ''snapshot/'') w1 = (r2, w2)" "files w2 = files w1"
      "case archive (?k ''snapshot/'') of None \<Rightarrow> \<exists>e. r2 = Inl e | Some c \<Rightarrow> r2 = Inr c"
    by (rule backup_reads [OF l, where k = "?k ''snapshot/''" and w = w1])
  have up: "\<exists>w4. uploadToFiler ops u p c w3 = (None, w4) \<and> files w4 = (files w)(p \<mapsto> Intact c)"
    if "files w3 = files w" for c w3
    using put_stores [OF l p(1), of w3 c] that p(2) by auto
  consider (new) c where "archive (?k ''snapshot2/'') = Some c"
    | (old) c where "archive (?k ''snapshot2/'') = None" "archive (?k ''snapshot/'') = Some c"
    | (none) "archive (?k ''snapshot2/'') = None" "archive (?k ''snapshot/'') = None" by blast
  then show thesis
  proof cases
    case new
    with b1 up [OF b1(2), of c] that show thesis by (auto simp: tryRestore_def backup_of_def)
  next
    case old
    with b1 b2 up [of w2 c] that show thesis by (fastforce simp: tryRestore_def backup_of_def)
  next
    case none
    with b1 b2 that show thesis by (fastforce simp: tryRestore_def backup_of_def)
  qed
qed

text \<open>Checking one file adds it to the healed ones, also when it was already among them.\<close>

lemma healed_insert_other: "fs p \<noteq> Some DataLost \<Longrightarrow> healed archive (insert p V) fs = healed archive V fs"
  by (rule ext) (auto simp: healed_def beyond_repair_def)

lemma healed_insert_restored:
  "\<not> has_suffix p marker \<Longrightarrow> fs p = Some DataLost \<Longrightarrow> backup_of archive p = Some c
    \<Longrightarrow> healed archive (insert p V) fs = (healed archive V fs)(p \<mapsto> Intact c)"
  by (rule ext) (auto simp: healed_def beyond_repair_def)

lemma healed_insert_renamed:
  assumes "beyond_repair archive fs p" "fs (p @ marker) = None"
  shows "healed archive (insert p V) fs = (healed archive V fs)(p := None, p @ marker \<mapsto> DataLost)"
  using assms marked_other [of p] by (intro ext) (auto simp: healed_def beyond_repair_def)

lemma checkAndRecover_heals:
  assumes l: "filer_laws ops u bucket archive files" and r: "recoverable archive fs"
    and p: "\<not> has_suffix p marker" "fs p = Some x" "x \<noteq> Directory" and w: "files w = healed archive V fs"
    and V: "\<forall>q \<in> V. \<not> has_suffix q marker"
  shows "files (snd (checkAndRecover ops u p bucket False s w)) = healed archive (insert p V) fs"
proof -
  have url: "url_path p" using r p(2) by (simp add: recoverable_def)
  obtain b w1 where g: "filer_Do ops \<lparr>Filer_Method = ''GET'', Filer_URL = u @ p, Accept = [], Filer_Body = None\<rparr> w
      = (Inr (file_status (files w p), b), w1)" and w1: "files w1 = files w"
    by (rule get_status [OF l url, where w = w])
  note run = checkAndRecover_def no_bad_url [OF l] g Let_def file_status_def
  have now: "files w p = (if p \<in> V \<and> fs p = Some DataLost then map_option Intact (backup_of archive p) else fs p)"
    by (simp only: w healed_unmarked [OF p(1)])
  consider (fine) c where "x = Intact c" | (seen) "x = DataLost" "p \<in> V" | (lost) "x = DataLost" "p \<notin> V"
    using p(3) by (cases x) auto
  then show ?thesis
  proof cases
    case fine
    with p(2) now w w1 show ?thesis by (simp add: run healed_insert_other)
  next
    case seen
    with p(2) now w w1 show ?thesis
      by (cases "backup_of archive p") (simp_all add: run insert_absorb)
  next
    case lost
    with now p(2) w1 have here: "files w1 p = Some DataLost" "files w p = Some DataLost" by simp_all
    obtain w2 where t: "tryRestore ops u p bucket False w1 = (backup_of archive p \<noteq> None, w2)"
        "files w2 = (case backup_of archive p of None \<Rightarrow> files w1 | Some c \<Rightarrow> (files w1)(p \<mapsto> Intact c))"
      by (rule tryRestore_outcome [OF l url here(1)])
    show ?thesis
    proof (cases "backup_of archive p")
      case None
      with lost p(2) have beyond: "beyond_repair archive fs p" by (simp add: beyond_repair_def)
      with r p(1) have free: "fs (p @ marker) = None" by (simp add: recoverable_def)
      have "files w2 (p @ marker) = None" using t(2) None w1 w free lost(2)
        by (auto simp: healed_def)
      moreover have "files w2 p = Some DataLost" using t(2) None here by simp
      ultimately have "files (markMissing ops u p False w2) = (files w2)(p := None, p @ marker \<mapsto> DataLost)"
        using rename_moves [OF l url] by simp
      with None t w1 w here healed_insert_renamed [OF beyond free, of V] show ?thesis by (simp add: run)
    next
      case (Some c)
      with t w1 w here healed_insert_restored [OF p(1) _ Some, of fs V] lost p(2) show ?thesis by (simp add: run)
    qed
  qed
qed

section \<open>The walk\<close>

abbreviation unmarked :: "string set \<Rightarrow> bool" where
  "unmarked V \<equiv> \<forall>q \<in> V. \<not> has_suffix q marker"

text \<open>The files that the goroutine of one entry checks.\<close>

definition covers :: "files \<Rightarrow> filerEntry \<Rightarrow> string set" where
  "covers fs e = (if fs (FullPath e) = Some Directory then to_check fs (FullPath e) []
     else if has_suffix (FullPath e) marker then {} else {FullPath e})"

definition true_entry :: "files \<Rightarrow> filerEntry \<Rightarrow> bool" where
  "true_entry fs e \<longleftrightarrow> (isDirectory e \<longleftrightarrow> fs (FullPath e) = Some Directory)
     \<and> (has_suffix (FullPath e) marker \<or> fs (FullPath e) \<noteq> None)"

lemma covers_unmarked: "unmarked (covers fs e)"
  by (auto simp: covers_def to_check_def)

lemma visit_heals:
  assumes l: "filer_laws ops u bucket archive files" and r: "recoverable archive fs"
    and w: "files w = healed archive V fs" and V: "unmarked V" and e: "true_entry fs e"
    and v: "visit ops u bucket False sub e s w = Some (s', w')"
    and sub: "\<And>d V w t w'. fs d = Some Directory \<Longrightarrow> unmarked V \<Longrightarrow> files w = healed archive V fs
      \<Longrightarrow> sub d w = Some (t, w') \<Longrightarrow> files w' = healed archive (V \<union> to_check fs d []) fs"
  shows "files w' = healed archive (V \<union> covers fs e) fs"
proof -
  consider (dir) "isDirectory e" | (marked) "\<not> isDirectory e" "has_suffix (FullPath e) marker"
    | (plain) "\<not> isDirectory e" "\<not> has_suffix (FullPath e) marker" by blast
  then show ?thesis
  proof cases
    case dir
    with v obtain t where "sub (FullPath e) w = Some (t, w')" by (auto simp: visit_def split: option.splits)
    with dir e sub [OF _ V w] show ?thesis by (simp add: true_entry_def covers_def)
  next
    case marked
    with v e w show ?thesis by (simp add: visit_def true_entry_def covers_def)
  next
    case plain
    with e obtain x where x: "fs (FullPath e) = Some x" "x \<noteq> Directory" by (auto simp: true_entry_def)
    from plain v have "w' = snd (checkAndRecover ops u (FullPath e) bucket False s w)" by (simp add: visit_def)
    with plain x checkAndRecover_heals [OF l r plain(2) x w V] show ?thesis by (simp add: covers_def)
  qed
qed

lemma visit_all_heals:
  assumes step: "\<And>e s w s' w' V. e \<in> set es \<Longrightarrow> unmarked V \<Longrightarrow> files w = healed archive V fs
      \<Longrightarrow> go e s w = Some (s', w') \<Longrightarrow> files w' = healed archive (V \<union> covers fs e) fs"
  shows "unmarked V \<Longrightarrow> files w = healed archive V fs \<Longrightarrow> visit_all go es s w = Some (s', w')
    \<Longrightarrow> files w' = healed archive (V \<union> (\<Union>e \<in> set es. covers fs e)) fs"
  using step
proof (induction es arbitrary: V s w)
  case (Cons e es)
  from Cons.prems(3) obtain s1 w1 where g: "go e s w = Some (s1, w1)" "visit_all go es s1 w1 = Some (s', w')"
    by (auto split: option.splits)
  have w1: "files w1 = healed archive (V \<union> covers fs e) fs"
    by (rule Cons.prems(4) [OF _ Cons.prems(1,2) g(1)]) simp
  have "unmarked (V \<union> covers fs e)" using Cons.prems(1) covers_unmarked by blast
  then have "files w' = healed archive (V \<union> covers fs e \<union> (\<Union>e \<in> set es. covers fs e)) fs"
    by (rule Cons.IH [OF _ w1 g(2)]) (use Cons.prems(4) in auto)
  then show ?case by (simp add: Un_assoc)
qed simp

lemma page_entries_true:
  assumes "recoverable archive fs" "unmarked V" "is_page (healed archive V fs) d l L" "e \<in> set (Entries L)"
  shows "true_entry fs e"
proof -
  from assms(3,4) obtain x where x: "healed archive V fs (FullPath e) = Some x" "isDirectory e \<longleftrightarrow> x = Directory"
    unfolding is_page_def by metis
  have "isDirectory e \<longleftrightarrow> fs (FullPath e) = Some Directory"
    using x healed_directory [OF assms(1,2), of "FullPath e"] by auto
  moreover have "fs (FullPath e) \<noteq> None" if "\<not> has_suffix (FullPath e) marker"
    using x(1) healed_unmarked [OF that, of archive V fs] by (auto split: if_splits)
  ultimately show ?thesis by (auto simp: true_entry_def)
qed

text \<open>The entries of a page and the pages after it cover the rest of the directory.\<close>

lemma below_later: "below fs d m q \<Longrightarrow> l < m \<Longrightarrow> below fs d l q"
  by (induction arbitrary: l rule: below.induct) (auto intro: below.intros dest: order.strict_trans)

lemma page_covers:
  assumes r: "recoverable archive fs" and V: "unmarked V" and P: "is_page (healed archive V fs) d l L"
  shows "V \<union> (\<Union>e \<in> set (Entries L). covers fs e)
      \<union> (if ShouldDisplayLoadMore L then to_check fs d (LastFileName L) else {}) = V \<union> to_check fs d l" (is "?lhs = ?rhs")
proof (rule antisym; rule subsetI)
  fix q assume q: "q \<in> ?lhs"
  have "q \<in> to_check fs d l" if e: "e \<in> set (Entries L)" and c: "q \<in> covers fs e" for e
  proof -
    have t: "true_entry fs e" by (rule page_entries_true [OF r V P e])
    from P e obtain n where n: "file_name n" "l < n" "FullPath e = child d n" unfolding is_page_def by metis
    show ?thesis
    proof (cases "fs (child d n) = Some Directory")
      case True
      with c n show ?thesis by (auto simp: covers_def to_check_def intro: below_dir)
    next
      case False
      with c n have m: "\<not> has_suffix (FullPath e) marker" "q = child d n" by (auto simp: covers_def split: if_splits)
      with t False n obtain x where "fs (child d n) = Some x" "x \<noteq> Directory" by (auto simp: true_entry_def)
      with m n below_file [of n l fs d x] show ?thesis by (auto simp: to_check_def)
    qed
  qed
  moreover have "q \<in> to_check fs d l" if "ShouldDisplayLoadMore L" "q \<in> to_check fs d (LastFileName L)"
    using P that below_later [of fs d "LastFileName L" q l] by (auto simp: is_page_def to_check_def)
  ultimately show "q \<in> ?rhs" using q by (auto split: if_splits)
next
  fix q assume q: "q \<in> ?rhs"
  have listed: "n > LastFileName L \<and> ShouldDisplayLoadMore L \<or> (\<exists>e \<in> set (Entries L). FullPath e = child d n)"
    if "file_name n" "l < n" "healed archive V fs (child d n) \<noteq> None" for n
    using P that unfolding is_page_def by (metis imageE not_le)
  have "q \<in> ?lhs" if "below fs d l q" "\<not> has_suffix q marker"
    using that(1)
  proof cases
    case (below_file n x)
    show ?thesis
    proof (cases "healed archive V fs (child d n) = None")
      case True
      with that below_file healed_unmarked [of q archive V fs] show ?thesis by (auto split: if_splits)
    next
      case False
      from listed [OF below_file(2,3) False] show ?thesis
      proof (elim disjE bexE conjE)
        fix e assume "e \<in> set (Entries L)" "FullPath e = child d n"
        with that below_file show ?thesis by (auto simp: covers_def intro!: bexI [of _ e])
      qed (use that below_file in \<open>auto simp: to_check_def intro: below.below_file\<close>)
    qed
  next
    case (below_dir n)
    then have "healed archive V fs (child d n) \<noteq> None" using healed_directory [OF r V, of "child d n"] by auto
    from listed [OF below_dir(1,2) this] show ?thesis
    proof (elim disjE bexE conjE)
      fix e assume "e \<in> set (Entries L)" "FullPath e = child d n"
      with that below_dir show ?thesis by (auto simp: covers_def to_check_def intro!: bexI [of _ e])
    qed (use that below_dir in \<open>auto simp: to_check_def intro: below.below_dir\<close>)
  qed
  with q show "q \<in> ?lhs" by (auto simp: to_check_def)
qed

lemma walk_heals:
  assumes l: "filer_laws ops u bucket archive files" and r: "recoverable archive fs"
    and o: "\<forall>d l es. set (order d l es) = set es"
  shows "fs d = Some Directory \<Longrightarrow> unmarked V \<Longrightarrow> files w = healed archive V fs
    \<Longrightarrow> walk n ops order u bucket False d la s w = Some (s', w')
    \<Longrightarrow> files w' = healed archive (V \<union> to_check fs d la) fs"
proof (induction n arbitrary: d la V s w s' w')
  case (Suc n)
  note V = Suc.prems(2)
  have "files w d = Some Directory" using healed_directory [OF r V, of d] Suc.prems(1,3) by simp
  moreover have "url_path d" using r Suc.prems(1) by (simp add: recoverable_def)
  ultimately obtain L w1 where L: "listDirectory ops u d la w = (Inr L, w1)" "is_page (files w) d la L"
      and w1: "files w1 = files w"
    using list_page [OF l] by metis
  let ?go = "visit ops u bucket False (\<lambda>x. walk n ops order u bucket False x [] no_stats)"
  let ?P = "V \<union> (\<Union>e \<in> set (Entries L). covers fs e)"
  from L Suc.prems(4) obtain s2 w2 where v: "visit_all ?go (order d la (Entries L)) s w1 = Some (s2, w2)"
      and rest: "if ShouldDisplayLoadMore L then walk n ops order u bucket False d (LastFileName L) s2 w2 = Some (s', w')
        else (s2, w2) = (s', w')"
    by (auto split: option.splits if_splits)
  have page: "is_page (healed archive V fs) d la L" using L(2) Suc.prems(3) by simp
  have "files w2 = healed archive (V \<union> (\<Union>e \<in> set (order d la (Entries L)). covers fs e)) fs"
  proof (rule visit_all_heals [OF _ V _ v])
    fix e s w s' w' V
    assume e: "e \<in> set (order d la (Entries L))" and V': "unmarked V" "files w = healed archive V fs"
      and g: "?go e s w = Some (s', w')"
    from e o have "true_entry fs e" using page_entries_true [OF r V page] by simp
    from visit_heals [OF l r V'(2,1) this g] Suc.IH
    show "files w' = healed archive (V \<union> covers fs e) fs" by blast
  qed (use w1 Suc.prems(3) in simp)
  with o have w2: "files w2 = healed archive ?P fs" by simp
  have P: "unmarked ?P" using V covers_unmarked by blast
  note all = page_covers [OF r V page]
  show ?case
  proof (cases "ShouldDisplayLoadMore L")
    case True
    with rest have "walk n ops order u bucket False d (LastFileName L) s2 w2 = Some (s', w')" by simp
    from Suc.IH [OF Suc.prems(1) P w2 this] all True show ?thesis by simp
  next
    case False
    with rest w2 all show ?thesis by simp
  qed
qed simp

lemma nothing_healed: "healed archive {} fs = fs"
  by (rule ext) (simp add: healed_def)

section \<open>A working filer\<close>

text \<open>
  A filer at \<^verbatim>\<open>http://f\<close> that keeps its files in a list and answers a listing in one page. It has
  no directories with paths of 20 characters or more or with a question mark.
\<close>

type_synonym disk = "(string \<times> filer_file) list"

definition disk_files :: "disk \<Rightarrow> files" where
  "disk_files w p = (case map_of w p of Some Directory \<Rightarrow>
     if length p < 20 \<and> CHR ''?'' \<notin> set p then Some Directory else None | x \<Rightarrow> x)"

definition listed_name :: "string \<Rightarrow> string \<Rightarrow> string \<Rightarrow> bool" where
  "listed_name d l p = (has_prefix p (d @ ''/'') \<and> file_name (drop (Suc (length d)) p) \<and> l < drop (Suc (length d)) p)"

definition json_entry :: "string \<times> filer_file \<Rightarrow> json" where
  "json_entry e = JObj [(''FullPath'', JStr (fst e)),
     (''Mode'', JNum (if snd e = Directory then ''2147484141'' else ''432''))]"

definition disk_listing :: "disk \<Rightarrow> string \<Rightarrow> string \<Rightarrow> json" where
  "disk_listing w d l = JObj [(''Entries'', JArr (map (\<lambda>p. json_entry (p, the (disk_files w p)))
     (filter (\<lambda>p. listed_name d l p \<and> disk_files w p \<noteq> None) (map fst w))))]"

definition disk_Do :: "filer_request \<Rightarrow> disk \<Rightarrow> (go_error + int \<times> payload) \<times> disk" where
  "disk_Do req w = (let x = drop 8 (Filer_URL req); p = takeWhile (\<lambda>c. c \<noteq> CHR ''?'') x; q = dropWhile (\<lambda>c. c \<noteq> CHR ''?'') x in
     if Filer_Method req = ''GET'' then
       (Inr (if Accept req \<noteq> [] then (200, Some (disk_listing w (butlast p) (query_unescape (drop 14 q))))
             else (file_status (disk_files w p), None)), w)
     else if Filer_Method req = ''PUT'' then (Inr (201, None), (p, Intact (the (Filer_Body req))) # w)
     else (case disk_files w (query_unescape (drop 9 q)) of
         None \<Rightarrow> (Inr (404, None), w)
       | Some x \<Rightarrow> (Inr (204, None), (p, x) # filter (\<lambda>e. fst e \<noteq> query_unescape (drop 9 q)) w)))"

definition disk_filer :: "(string \<times> string) list \<Rightarrow> disk filer_ops" where
  "disk_filer bs = \<lparr>bad_url = (\<lambda>_. None), filer_Do = disk_Do,
     backup = (\<lambda>b k w. (case map_of bs k of None \<Rightarrow> Inl (Plain ''NoSuchKey'') | Some c \<Rightarrow> Inr c, w))\<rparr>"

lemma json_entry_decodes:
  "dec_entry (json_entry (p, x)) zero_entry = (\<lparr>FullPath = p, Chunks = [], Mode = (if x = Directory then 2147484141 else 432)\<rparr>, True)"
proof -
  have "atoi ''2147484141'' = Some 2147484141" "atoi ''432'' = Some 432"
    by (simp_all add: atoi_def read_sign_def char_digit_def in_int64_def)
  then show ?thesis
    by (simp add: dec_entry_def json_entry_def dec_struct_def field_def find_field_def dec_string_def zero_entry_def dec_uint32_def)
qed

lemma entry_mode: "isDirectory \<lparr>FullPath = p, Chunks = [], Mode = (if x = Directory then 2147484141 else 432)\<rparr> \<longleftrightarrow> x = Directory"
proof -
  have "bit (2147484141 :: 32 word) 31" "\<not> bit (432 :: 32 word) 31" by simp_all
  then show ?thesis by (simp add: isDirectory_def)
qed

lemma disk_listing_decodes:
  "unmarshal dec_listing (Some (disk_listing w d l)) empty_listing =
     (empty_listing\<lparr>Entries := map (\<lambda>p. \<lparr>FullPath = p, Chunks = [],
          Mode = (if the (disk_files w p) = Directory then 2147484141 else 432)\<rparr>)
        (filter (\<lambda>p. listed_name d l p \<and> disk_files w p \<noteq> None) (map fst w))\<rparr>, None)"
proof -
  have "dec_slice dec_entry zero_entry (JArr (map (\<lambda>p. json_entry (p, the (disk_files w p))) ps)) old =
      (map (\<lambda>p. \<lparr>FullPath = p, Chunks = [], Mode = (if the (disk_files w p) = Directory then 2147484141 else 432)\<rparr>) ps, True)"
    for ps old
    unfolding dec_slice_def by (simp add: json_entry_decodes list_all_iff)
  then show ?thesis
    by (simp add: dec_listing_def disk_listing_def empty_listing_def dec_struct_def field_def find_field_def unmarshal_def)
qed

lemma path_no_query: "url_path p \<Longrightarrow> CHR ''?'' \<notin> set p"
  by (auto simp: url_path_def list_all_iff)

lemma no_query_takeWhile:
  assumes "CHR ''?'' \<notin> set p"
  shows "takeWhile (\<lambda>c. c \<noteq> CHR ''?'') (p @ q) = p @ takeWhile (\<lambda>c. c \<noteq> CHR ''?'') q"
    and "dropWhile (\<lambda>c. c \<noteq> CHR ''?'') (p @ q) = dropWhile (\<lambda>c. c \<noteq> CHR ''?'') q"
  using assms by (induction p) auto

lemma path_takeWhile: "url_path p \<Longrightarrow> takeWhile (\<lambda>c. c \<noteq> CHR ''?'') p = p"
  using path_no_query by (auto simp: takeWhile_eq_all_conv)

lemma disk_reads: "reads_files (disk_filer bs) ''http://f'' disk_files"
  unfolding reads_files_def
  by (simp add: disk_filer_def disk_Do_def get_request_def Let_def path_takeWhile)

lemma listed_name_child: "listed_name d l p \<longleftrightarrow> (\<exists>n. p = child d n \<and> file_name n \<and> l < n)"
  by (auto simp: listed_name_def child_def has_prefix_iff)

lemma disk_files_mem: "disk_files w p \<noteq> None \<Longrightarrow> p \<in> set (map fst w)"
  using map_of_eq_None_iff [of w p] by (auto simp: disk_files_def)

lemma disk_page:
  "is_page (disk_files w) d l (fst (unmarshal dec_listing (Some (disk_listing w d l)) empty_listing))"
proof -
  let ?ps = "filter (\<lambda>p. listed_name d l p \<and> disk_files w p \<noteq> None) (map fst w)"
  have "\<exists>n x. file_name n \<and> l < n \<and> p = child d n \<and> disk_files w (child d n) = Some x
      \<and> (the (disk_files w p) = Directory) = (x = Directory)" if "p \<in> set ?ps" for p
    using that by (auto simp: listed_name_child)
  moreover have "child d n \<in> set ?ps" if "file_name n" "l < n" "disk_files w (child d n) \<noteq> None" for n
    using that disk_files_mem [OF that(3)] by (auto simp: listed_name_child)
  ultimately show ?thesis
    unfolding is_page_def disk_listing_decodes
    by (simp only: fst_conv empty_listing_def filerListing.simps set_map ball_simps image_image entry_mode filerEntry.simps
        simp_thms image_ident) blast
qed

lemma disk_lists: "lists_files (disk_filer bs) ''http://f'' disk_files"
proof -
  have "query_unescape (drop 14 (dropWhile (\<lambda>c. c \<noteq> CHR ''?'') (if l \<noteq> [] then ''?lastFileName='' @ QueryEscape l else []))) = l"
    and "takeWhile (\<lambda>c. c \<noteq> CHR ''?'') (if l \<noteq> [] then ''?lastFileName='' @ QueryEscape l else []) = []" for l
    by (simp_all add: query_roundtrip)
  then have "fst (filer_Do (disk_filer bs) (get_request (listing_url ''http://f'' d l) ''application/json'') w)
      = Inr (200, Some (disk_listing w d l))" if "url_path d" for d l w
    using no_query_takeWhile [of "d @ ''/''"] path_no_query [OF that]
    by (simp add: disk_filer_def disk_Do_def get_request_def Let_def listing_url_def)
  moreover have "snd (unmarshal dec_listing (Some (disk_listing w d l)) empty_listing) = None" for w d l
    by (simp add: disk_listing_decodes)
  ultimately show ?thesis
    using disk_page unfolding lists_files_def by (metis prod.collapse)
qed

lemma map_of_without: "map_of (filter (\<lambda>e. fst e \<noteq> p) w) = (map_of w)(p := None)"
  by (induction w) auto

lemma disk_stores: "stores_files (disk_filer bs) ''http://f'' disk_files"
proof -
  have "disk_files ((p, Intact c) # w) = (disk_files w)(p \<mapsto> Intact c)" for p c w
    by (rule ext) (simp add: disk_files_def)
  then show ?thesis
    unfolding stores_files_def
    by (simp add: disk_filer_def disk_Do_def put_request_def Let_def path_takeWhile)
qed

lemma disk_post:
  assumes "url_path p"
  shows "snd (filer_Do (disk_filer bs) (post_request (rename_url ''http://f'' p)) w) =
    (case disk_files w p of None \<Rightarrow> w | Some x \<Rightarrow> (p @ marker, x) # filter (\<lambda>e. fst e \<noteq> p) w)"
proof -
  have "CHR ''?'' \<notin> set (p @ marker)" using path_no_query [OF assms] by (simp add: marker_def)
  then show ?thesis
    using no_query_takeWhile [of "p @ marker" "''?mv.from='' @ QueryEscape p"]
    by (simp add: disk_filer_def disk_Do_def Let_def rename_url_def post_request_def query_roundtrip split: option.splits)
qed

lemma disk_moves: "moves_files (disk_filer bs) ''http://f'' disk_files"
proof -
  have "disk_files ((p @ marker, x) # filter (\<lambda>e. fst e \<noteq> p) w) = (disk_files w)(p := None, p @ marker \<mapsto> x)"
    if "x \<noteq> Directory" for p x w
    using that by (intro ext) (simp add: disk_files_def map_of_without split: filer_file.splits)
  then show ?thesis unfolding moves_files_def by (simp add: disk_post)
qed

lemma disk_laws: "filer_laws (disk_filer bs) ''http://f'' bucket (map_of bs) disk_files"
proof -
  have "holds_backups (disk_filer bs) bucket (map_of bs) disk_files"
    by (simp add: holds_backups_def disk_filer_def split: option.splits)
  with disk_reads disk_lists disk_stores disk_moves show ?thesis by (simp add: filer_laws_def)
qed

text \<open>Its directories are not nested without end.\<close>

definition asked_dir :: "string \<Rightarrow> string" where
  "asked_dir d = butlast (takeWhile (\<lambda>c. c \<noteq> CHR ''?'') (d @ ''/''))"

definition disk_rank :: "string \<Rightarrow> string \<Rightarrow> nat" where
  "disk_rank d l = 20 - length (asked_dir d)"

lemma asked_dir_plain: "CHR ''?'' \<notin> set d \<Longrightarrow> asked_dir d = d"
  using no_query_takeWhile(1) [of d "''/''"] by (simp add: asked_dir_def)

lemma takeWhile_query: "takeWhile (\<lambda>c. c \<noteq> CHR ''?'') (d @ ''/'' @ (if l \<noteq> [] then ''?'' @ x else []))
    = takeWhile (\<lambda>c. c \<noteq> CHR ''?'') (d @ ''/'')"
  by (induction d) auto

lemma disk_finite: "finite_tree (disk_filer bs) ''http://f'' disk_rank"
proof -
  have lists: "\<exists>l'. listDirectory (disk_filer bs) ''http://f'' d l w
      = (Inr (fst (unmarshal dec_listing (Some (disk_listing w (asked_dir d) l')) empty_listing)), w)" for d l w
  proof -
    let ?x = "d @ ''/'' @ (if l \<noteq> [] then ''?lastFileName='' @ QueryEscape l else [])"
    let ?l = "query_unescape (drop 14 (dropWhile (\<lambda>c. c \<noteq> CHR ''?'') ?x))"
    have "butlast (takeWhile (\<lambda>c. c \<noteq> CHR ''?'') ?x) = asked_dir d"
      using takeWhile_query [of d l "''lastFileName='' @ QueryEscape l"] by (cases "l = []") (simp_all add: asked_dir_def)
    then have "filer_Do (disk_filer bs) (get_request (listing_url ''http://f'' d l) ''application/json'') w
        = (Inr (200, Some (disk_listing w (asked_dir d) ?l)), w)"
      by (simp add: disk_filer_def disk_Do_def get_request_def listing_url_def del: takeWhile.simps)
    then obtain l' where "filer_Do (disk_filer bs) (get_request (listing_url ''http://f'' d l) ''application/json'') w
        = (Inr (200, Some (disk_listing w (asked_dir d) l')), w)" by blast
    then have "listDirectory (disk_filer bs) ''http://f'' d l w
        = (Inr (fst (unmarshal dec_listing (Some (disk_listing w (asked_dir d) l')) empty_listing)), w)"
      by (rule listDirectory_answer [rotated 2]) (simp_all add: disk_filer_def disk_listing_decodes)
    then show ?thesis by blast
  qed
  have "disk_rank (FullPath e) [] < disk_rank d l"
    if "e \<in> set (Entries (fst (unmarshal dec_listing (Some (disk_listing w (asked_dir d) l')) empty_listing)))"
      "isDirectory e" for d l w l' e
  proof -
    from disk_page [of w "asked_dir d" l'] that obtain n where n: "FullPath e = child (asked_dir d) n"
        "disk_files w (child (asked_dir d) n) = Some Directory"
      unfolding is_page_def by blast
    then have "length (child (asked_dir d) n) < 20" "asked_dir (child (asked_dir d) n) = child (asked_dir d) n"
      by (auto simp: disk_files_def asked_dir_plain split: option.splits filer_file.splits if_splits)
    with n show ?thesis by (simp add: disk_rank_def child_def)
  qed
  moreover have "\<not> ShouldDisplayLoadMore (fst (unmarshal dec_listing (Some (disk_listing w d l)) empty_listing))" for w d l
    by (subst disk_listing_decodes) (simp add: empty_listing_def)
  ultimately show ?thesis
    using lists unfolding finite_tree_def by (metis Inr_inject prod.inject)
qed

section \<open>The property\<close>

text \<open>
  On a filer that works a recovery run of the tree below a directory returns, and what it
  leaves behind is the specification in one step: every unmarked file below the directory
  whose data was lost has the content of the newer snapshot, or else of the older one, or is
  moved to its name with \<^verbatim>\<open>.missing_7jun26\<close> when neither has it, and nothing else changes; a dry
  run changes nothing. This holds for every division of the listings into pages, although
  the renamed files show up in later pages, and for every order in which the goroutines of a
  page run. The names must need no escaping and the names for lost files must be free.
\<close>

theorem recovery_heals:
  assumes l: "filer_laws ops filerURL bucket archive files" and r: "recoverable archive (files w)"
    and d: "files w dirPath = Some Directory"
    and t: "finite_tree ops filerURL rank" "\<forall>d l es. set (order d l es) = set es" "rank dirPath [] < n"
  shows "\<exists>s w'. walkAndRecover n ops order filerURL dirPath bucket dryRun w = Some (s, w')
    \<and> files w' = (if dryRun then files w else healed archive (to_check (files w) dirPath []) (files w))"
proof -
  obtain s w' where run: "walk n ops order filerURL bucket dryRun dirPath [] no_stats w = Some (s, w')"
    using walk_ends [OF t(1) _ t(3), of order bucket dryRun no_stats w] t(2) by auto
  have "files w' = files w" if dryRun
  proof -
    have "keeps True filerURL ops (\<lambda>x. files x = files w)"
      using reads_keep [OF l] by (simp add: keeps_def permitted_def)
    from walk_invariant [OF this, of no_stats w n order bucket dirPath "[]" s w'] run that
    show ?thesis by (simp add: balanced_def no_stats_def)
  qed
  moreover have "files w' = healed archive (to_check (files w) dirPath []) (files w)" if "\<not> dryRun"
    using walk_heals [OF l r t(2) d, of "{}" w n "[]" no_stats s w'] run that by (simp add: nothing_healed)
  ultimately show ?thesis using run by (auto simp: walkAndRecover_def)
qed

definition demo_disk :: disk where
  "demo_disk = [(''/b'', Directory), (''/b/k'', Directory), (''/b/k/a'', DataLost), (''/b/k/z'', DataLost),
     (''/b/c'', DataLost), (''/b/o'', Intact ''o''), (''/x'', DataLost)]"

definition demo_archive :: "(string \<times> string) list" where
  "demo_archive = [(''snapshot2/b/k/a'', ''new''), (''snapshot/b/k/a'', ''old''), (''snapshot/b/c'', ''c''), (''snapshot/x'', ''x'')]"

lemma below_inside: "below fs d l q \<Longrightarrow> \<exists>r. q = child d r"
  by (induction rule: below.induct) (auto simp: child_def)

lemma demo_recoverable: "recoverable (map_of demo_archive) (disk_files demo_disk)"
proof -
  have p: "p \<in> set (map fst demo_disk)" if "disk_files demo_disk p \<noteq> None" for p
    using that by (rule disk_files_mem)
  have "list_all url_path (map fst demo_disk)" by (simp add: demo_disk_def url_path_def)
  moreover have "list_all (\<lambda>p. disk_files demo_disk (p @ marker) = None) (map fst demo_disk)"
    by (simp add: demo_disk_def disk_files_def marker_def)
  ultimately show ?thesis
    using p unfolding recoverable_def beyond_repair_def list_all_iff by (metis option.discI)
qed

lemma demo_below: "below (disk_files demo_disk) ''/b'' [] ''/b/c''" "below (disk_files demo_disk) ''/b'' [] ''/b/k/a''"
    "below (disk_files demo_disk) ''/b'' [] ''/b/k/z''"
proof -
  let ?fs = "disk_files demo_disk"
  note simps = child_def file_name_def demo_disk_def disk_files_def
  show "below ?fs ''/b'' [] ''/b/c''"
    using below_file [of "''c''" "[]" ?fs "''/b''" DataLost] by (simp add: simps)
  have "below ?fs ''/b/k'' [] ''/b/k/a''" "below ?fs ''/b/k'' [] ''/b/k/z''"
    using below_file [of "''a''" "[]" ?fs "''/b/k''" DataLost] below_file [of "''z''" "[]" ?fs "''/b/k''" DataLost]
    by (simp_all add: simps)
  then show "below ?fs ''/b'' [] ''/b/k/a''" "below ?fs ''/b'' [] ''/b/k/z''"
    using below_dir [of "''k''" "[]" ?fs "''/b''"] by (simp_all add: simps)
qed

lemma demo_healed:
  "healed (map_of demo_archive) (to_check (disk_files demo_disk) ''/b'' []) (disk_files demo_disk) ''/b/k/a'' = Some (Intact ''new'')"
  "healed (map_of demo_archive) (to_check (disk_files demo_disk) ''/b'' []) (disk_files demo_disk) ''/b/c'' = Some (Intact ''c'')"
  "healed (map_of demo_archive) (to_check (disk_files demo_disk) ''/b'' []) (disk_files demo_disk) ''/b/k/z'' = None"
  "healed (map_of demo_archive) (to_check (disk_files demo_disk) ''/b'' []) (disk_files demo_disk) ''/x'' = Some DataLost"
proof -
  let ?V = "to_check (disk_files demo_disk) ''/b'' []"
  have V: "''/b/k/a'' \<in> ?V" "''/b/c'' \<in> ?V" "''/b/k/z'' \<in> ?V" "''/x'' \<notin> ?V"
    using demo_below below_inside [of "disk_files demo_disk" "''/b''" "[]" "''/x''"]
    by (auto simp: to_check_def has_suffix_def marker_def child_def)
  have u: "\<not> has_suffix ''/b/k/a'' marker" "\<not> has_suffix ''/b/c'' marker" "\<not> has_suffix ''/b/k/z'' marker"
      "\<not> has_suffix ''/x'' marker"
    by (simp_all add: has_suffix_def marker_def)
  note simps = demo_disk_def disk_files_def demo_archive_def backup_of_def trim_prefix_def
  show "healed (map_of demo_archive) ?V (disk_files demo_disk) ''/b/k/a'' = Some (Intact ''new'')"
    unfolding healed_unmarked [OF u(1)] using V by (simp add: simps)
  show "healed (map_of demo_archive) ?V (disk_files demo_disk) ''/b/c'' = Some (Intact ''c'')"
    unfolding healed_unmarked [OF u(2)] using V by (simp add: simps)
  show "healed (map_of demo_archive) ?V (disk_files demo_disk) ''/b/k/z'' = None"
    unfolding healed_unmarked [OF u(3)] using V by (simp add: simps)
  show "healed (map_of demo_archive) ?V (disk_files demo_disk) ''/x'' = Some DataLost"
    unfolding healed_unmarked [OF u(4)] using V by (simp add: simps)
qed

text \<open>
  The witness restores a file from the newer snapshot and one from the older, moves a third
  and leaves the tree outside alone.
\<close>

theorem recovery_heals_witness:
  "\<exists>s w'. walkAndRecover 20 (disk_filer demo_archive) in_order ''http://f'' ''/b'' ''bk'' False demo_disk = Some (s, w')
     \<and> disk_files w' ''/b/k/a'' = Some (Intact ''new'') \<and> disk_files w' ''/b/c'' = Some (Intact ''c'')
     \<and> disk_files w' ''/b/k/z'' = None \<and> disk_files w' ''/x'' = Some DataLost"
proof -
  have "disk_files demo_disk ''/b'' = Some Directory" by (simp add: disk_files_def demo_disk_def)
  moreover have "disk_rank ''/b'' [] < 20" by (simp add: disk_rank_def asked_dir_plain)
  ultimately show ?thesis
    using recovery_heals [OF disk_laws demo_recoverable _ disk_finite, where dirPath = "''/b''" and order = in_order
        and n = 20 and bucket = "''bk''" and dryRun = False]
    by (auto simp: demo_healed)
qed

end
