(* ===== verification/Recovery_Concurrent.thy ===== *)
theory Recovery_Concurrent
  imports Recovery_Outcome "HOL-Library.Multiset"
begin

text \<open>
  The goroutines of \<^verbatim>\<open>cmd/recovery/main.go\<close> as they run: one per entry of a page, at most ten of
  a page past their semaphore, interleaved request by request, a subdirectory with goroutines
  of its own, and a page that waits for all of its goroutines before the next is listed.
  The counters of a walk are added up in one place, one update at a time: the increments
  that race with each other in the code are not split into a read and a write.
\<close>

section \<open>One goroutine of a file\<close>

text \<open>
  Where the goroutine of a file stands: before the check, about to read the first of some
  backups, or about to upload one. The last step of \<^verbatim>\<open>checkAndRecover\<close> ends it.
\<close>

datatype file_pc = Check | Trying "string list" | Uploading string "string list"

definition file_step ::
  "'w filer_ops \<Rightarrow> string \<Rightarrow> string \<Rightarrow> bool \<Rightarrow> string \<Rightarrow> file_pc \<Rightarrow> rec_stats \<Rightarrow> 'w
    \<Rightarrow> file_pc option \<times> rec_stats \<times> 'w" where
  "file_step ops filerURL bucket dryRun filePath pc s w = (case pc of
      Check \<Rightarrow>
        (let s' = s\<lparr>scanned := scanned s + 1\<rparr>; failed = s'\<lparr>walk_errors := walk_errors s' + 1\<rparr> in
         if bad_url ops (filerURL @ filePath) \<noteq> None then (None, failed, w)
         else (case filer_Do ops \<lparr>Filer_Method = ''GET'', Filer_URL = filerURL @ filePath, Accept = [], Filer_Body = None\<rparr> w of
             (Inl e, w') \<Rightarrow> (None, failed, w')
           | (Inr (status, _), w') \<Rightarrow>
               if status = 200 then (None, s'\<lparr>healthy := healthy s' + 1\<rparr>, w')
               else if status \<noteq> 500 then (None, failed, w')
               else (Some (Trying [''snapshot2/'', ''snapshot/'']), s', w')))
    | Trying [] \<Rightarrow> (None, s\<lparr>missing := missing s + 1\<rparr>, markMissing ops filerURL filePath dryRun w)
    | Trying (pre # pres) \<Rightarrow> (case backup ops bucket (pre @ trim_prefix filePath ''/'') w of
        (Inl e, w') \<Rightarrow> (Some (Trying pres), s, w')
      | (Inr body, w') \<Rightarrow>
          if dryRun then (None, s\<lparr>restored := restored s + 1\<rparr>, w') else (Some (Uploading body pres), s, w'))
    | Uploading body pres \<Rightarrow> (case uploadToFiler ops filerURL filePath body w of
        (Some e, w') \<Rightarrow> (Some (Trying pres), s, w')
      | (None, w') \<Rightarrow> (None, s\<lparr>restored := restored s + 1\<rparr>, w')))"

text \<open>Alone, the goroutine does what \<open>checkAndRecover\<close> does.\<close>

inductive file_run ::
  "'w filer_ops \<Rightarrow> string \<Rightarrow> string \<Rightarrow> bool \<Rightarrow> string \<Rightarrow> file_pc \<Rightarrow> rec_stats \<Rightarrow> 'w \<Rightarrow> rec_stats \<Rightarrow> 'w \<Rightarrow> bool"
  for ops filerURL bucket dryRun filePath where
  ends: "file_step ops filerURL bucket dryRun filePath pc s w = (None, s', w')
    \<Longrightarrow> file_run ops filerURL bucket dryRun filePath pc s w s' w'"
| goes_on: "file_step ops filerURL bucket dryRun filePath pc s w = (Some pc', s1, w1)
    \<Longrightarrow> file_run ops filerURL bucket dryRun filePath pc' s1 w1 s' w'
    \<Longrightarrow> file_run ops filerURL bucket dryRun filePath pc s w s' w'"

lemma trying_alone:
  "restore_from ops u p b dry pres w = (ok, w1) \<Longrightarrow>
     file_run ops u b dry p (Trying pres) s w
       (if ok then s\<lparr>restored := restored s + 1\<rparr> else s\<lparr>missing := missing s + 1\<rparr>)
       (if ok then w1 else markMissing ops u p dry w1)"
proof (induction pres arbitrary: w)
  case Nil
  then show ?case by (auto simp: file_step_def intro: ends)
next
  case (Cons pre pres)
  obtain r w2 where r: "backup ops b (pre @ trim_prefix p ''/'') w = (r, w2)" by fastforce
  show ?case
  proof (cases r)
    case (Inl e)
    with r have "file_step ops u b dry p (Trying (pre # pres)) s w = (Some (Trying pres), s, w2)"
      by (simp add: file_step_def)
    moreover have "restore_from ops u p b dry pres w2 = (ok, w1)" using Cons.prems r Inl by simp
    ultimately show ?thesis using Cons.IH by (blast intro: goes_on)
  next
    case (Inr body)
    show ?thesis
    proof (cases dry)
      case True
      with r Inr Cons.prems show ?thesis by (auto simp: file_step_def intro: ends)
    next
      case False
      with r Inr have first: "file_step ops u b dry p (Trying (pre # pres)) s w = (Some (Uploading body pres), s, w2)"
        by (simp add: file_step_def)
      obtain e w3 where e: "uploadToFiler ops u p body w2 = (e, w3)" by fastforce
      show ?thesis
      proof (cases e)
        case None
        with e r Inr False Cons.prems have "file_step ops u b dry p (Uploading body pres) s w2 = (None, s\<lparr>restored := restored s + 1\<rparr>, w1)"
          and ok by (simp_all add: file_step_def)
        with first show ?thesis by (auto intro: goes_on ends)
      next
        case (Some x)
        with e have "file_step ops u b dry p (Uploading body pres) s w2 = (Some (Trying pres), s, w3)"
          by (simp add: file_step_def)
        moreover have "restore_from ops u p b dry pres w3 = (ok, w1)" using Cons.prems r Inr False e Some by simp
        ultimately show ?thesis using first Cons.IH by (blast intro: goes_on)
      qed
    qed
  qed
qed

lemma goroutine_alone:
  assumes "checkAndRecover ops u p b dry s w = (s', w')"
  shows "file_run ops u b dry p Check s w s' w'"
proof -
  let ?s = "s\<lparr>scanned := scanned s + 1\<rparr>"
  consider (ended) "file_step ops u b dry p Check s w = (None, s', w')"
    | (lost) w1 ok w2 where "file_step ops u b dry p Check s w = (Some (Trying [''snapshot2/'', ''snapshot/'']), ?s, w1)"
        "tryRestore ops u p b dry w1 = (ok, w2)"
        "s' = (if ok then ?s\<lparr>restored := restored ?s + 1\<rparr> else ?s\<lparr>missing := missing ?s + 1\<rparr>)"
        "w' = (if ok then w2 else markMissing ops u p dry w2)"
    using assms unfolding checkAndRecover_def file_step_def Let_def
    by (auto split: if_splits sum.splits prod.splits bool.splits)
  then show ?thesis
  proof cases
    case ended
    then show ?thesis by (rule ends)
  next
    case lost
    from trying_alone [OF lost(2) [unfolded tryRestore_def], of ?s] lost(1,3,4) show ?thesis
      by (auto intro: goes_on)
  qed
qed

section \<open>All goroutines\<close>

text \<open>
  A call of \<^verbatim>\<open>walkAndRecover\<close> about to list a directory after a name, or in the middle of a page, with
  the name after which to list the next page and the goroutines of this one; a goroutine
  waiting for the semaphore, one that checks a file, and one that has ended. A goroutine of a
  directory continues as the call for it.
\<close>

datatype task =
    Listing string string
  | Page string "string option" "task list"
  | Queued filerEntry
  | File string file_pc
  | Done

definition running :: "task \<Rightarrow> bool" where
  "running t = (case t of Queued _ \<Rightarrow> False | Done \<Rightarrow> False | _ \<Rightarrow> True)"

definition sema_size :: nat where
  "sema_size = 10"

definition acquired :: "filerEntry \<Rightarrow> task" where
  "acquired e = (if isDirectory e then Listing (FullPath e) []
     else if has_suffix (FullPath e) marker then Done else File (FullPath e) Check)"

inductive walk_step ::
  "'w filer_ops \<Rightarrow> string \<Rightarrow> string \<Rightarrow> bool \<Rightarrow> task \<times> rec_stats \<times> 'w \<Rightarrow> task \<times> rec_stats \<times> 'w \<Rightarrow> bool"
  for ops filerURL bucket dryRun where
  list_fails: "listDirectory ops filerURL d l w = (Inl e, w')
    \<Longrightarrow> walk_step ops filerURL bucket dryRun (Listing d l, s, w) (Done, s\<lparr>walk_errors := walk_errors s + 1\<rparr>, w')"
| listed: "listDirectory ops filerURL d l w = (Inr listing, w')
    \<Longrightarrow> walk_step ops filerURL bucket dryRun (Listing d l, s, w)
          (Page d (if ShouldDisplayLoadMore listing then Some (LastFileName listing) else None)
             (map Queued (Entries listing)), s, w')"
| acquire: "i < length ts \<Longrightarrow> ts ! i = Queued e \<Longrightarrow> length (filter running ts) < sema_size
    \<Longrightarrow> walk_step ops filerURL bucket dryRun (Page d m ts, s, w) (Page d m (ts[i := acquired e]), s, w)"
| goroutine: "i < length ts \<Longrightarrow> walk_step ops filerURL bucket dryRun (ts ! i, s, w) (t, s', w')
    \<Longrightarrow> walk_step ops filerURL bucket dryRun (Page d m ts, s, w) (Page d m (ts[i := t]), s', w')"
| wait: "set ts \<subseteq> {Done}
    \<Longrightarrow> walk_step ops filerURL bucket dryRun (Page d m ts, s, w)
          (case m of None \<Rightarrow> Done | Some l \<Rightarrow> Listing d l, s, w)"
| check: "file_step ops filerURL bucket dryRun p pc s w = (r, s', w')
    \<Longrightarrow> walk_step ops filerURL bucket dryRun (File p pc, s, w)
          (case r of None \<Rightarrow> Done | Some pc' \<Rightarrow> File p pc', s', w')"

inductive_cases listingE: "walk_step ops u b dry (Listing d l, s, w) c"
inductive_cases pageE: "walk_step ops u b dry (Page d m ts, s, w) c"
inductive_cases queuedE: "walk_step ops u b dry (Queued e, s, w) c"
inductive_cases fileE: "walk_step ops u b dry (File p pc, s, w) c"
inductive_cases doneE: "walk_step ops u b dry (Done, s, w) c"

definition start :: "string \<Rightarrow> 'w \<Rightarrow> task \<times> rec_stats \<times> 'w" where
  "start dirPath w = (Listing dirPath [], no_stats, w)"

abbreviation walk_run ::
  "'w filer_ops \<Rightarrow> string \<Rightarrow> string \<Rightarrow> bool \<Rightarrow> task \<times> rec_stats \<times> 'w \<Rightarrow> task \<times> rec_stats \<times> 'w \<Rightarrow> bool" where
  "walk_run ops u b dry \<equiv> (walk_step ops u b dry)\<^sup>*\<^sup>*"

section \<open>The semaphore\<close>

fun within_sema :: "task \<Rightarrow> bool" where
  "within_sema (Page d m ts) = (length (filter running ts) \<le> sema_size \<and> (\<forall>t \<in> set ts. within_sema t))"
| "within_sema _ = True"

lemma running_simps [simp]:
  "running (Listing d l)" "running (Page d m ts)" "running (File p pc)" "\<not> running (Queued e)" "\<not> running Done"
  by (simp_all add: running_def)

lemma stepping_runs: "walk_step ops u b dry (t, s, w) c \<Longrightarrow> running t"
  by (auto elim: walk_step.cases)

lemma filter_update:
  assumes "i < length ts"
  shows "length (filter P (ts[i := t])) + (if P (ts ! i) then 1 else 0) = length (filter P ts) + (if P t then 1 else 0)"
  using assms
proof (induction ts arbitrary: i)
  case (Cons x ts)
  show ?case
  proof (cases i)
    case (Suc j)
    with Cons.prems have "j < length ts" by simp
    from Cons.IH [OF this] Suc show ?thesis by auto
  qed auto
qed simp

lemma acquired_within [simp]: "within_sema (acquired e)"
  by (simp add: acquired_def)

lemma walk_step_within:
  "walk_step ops u b dry c c' \<Longrightarrow> within_sema (fst c) \<Longrightarrow> within_sema (fst c')"
proof (induction rule: walk_step.induct)
  case (acquire i ts e d m s w)
  then show ?case using filter_update [OF acquire(1), of running "acquired e"] set_update_subset_insert [of ts i "acquired e"]
    by (auto split: if_splits)
next
  case (goroutine i ts s w t s' w' d m)
  have "running (ts ! i)" using stepping_runs [OF goroutine(2)] .
  moreover have "within_sema (ts ! i)" using goroutine by simp
  ultimately show ?case using goroutine filter_update [OF goroutine(1), of running t] set_update_subset_insert [of ts i t]
    by (auto split: if_splits)
qed (auto split: option.splits)

text \<open>Only a finished walk has no step: nobody waits for the semaphore for ever.\<close>

lemma walk_progress: "running t \<Longrightarrow> \<exists>c. walk_step ops u b dry (t, s, w) c"
proof (induction t arbitrary: s w)
  case (Listing d l)
  obtain r w' where "listDirectory ops u d l w = (r, w')" by fastforce
  then show ?case by (cases r) (auto intro: list_fails listed)
next
  case (Page d m ts)
  show ?case
  proof (cases "\<exists>t \<in> set ts. running t")
    case True
    then obtain i where i: "i < length ts" "running (ts ! i)" by (auto simp: in_set_conv_nth)
    with Page.IH [of "ts ! i" s w] obtain c where "walk_step ops u b dry (ts ! i, s, w) c" by auto
    with i show ?thesis by (cases c) (auto intro: goroutine)
  next
    case idle: False
    show ?thesis
    proof (cases "set ts \<subseteq> {Done}")
      case True
      then show ?thesis by (blast intro: wait)
    next
      case False
      then obtain t where "t \<in> set ts" "t \<noteq> Done" by blast
      then obtain i where i: "i < length ts" "ts ! i \<noteq> Done" by (metis in_set_conv_nth)
      with idle have "\<not> running (ts ! i)" by simp
      with i obtain e where "ts ! i = Queued e" by (cases "ts ! i") auto
      moreover have "filter running ts = []" using idle by (simp add: filter_empty_conv)
      ultimately show ?thesis using i by (fastforce simp: sema_size_def intro: acquire)
    qed
  qed
next
  case (File p pc)
  obtain r s' w' where "file_step ops u b dry p pc s w = (r, s', w')" by (metis prod_cases3)
  then show ?case by (blast intro: check)
qed simp_all

section \<open>Ending\<close>

text \<open>What is left to do, as numbers that a step replaces by smaller ones.\<close>

fun weight :: "(string \<Rightarrow> string \<Rightarrow> nat) \<Rightarrow> task \<Rightarrow> nat multiset" where
  "weight rank (Listing d l) = {#8 * rank d l + 7#}"
| "weight rank (Page d m ts) = (case m of None \<Rightarrow> {#0#} | Some l \<Rightarrow> {#8 * rank d l + 8#}) + sum_list (map (weight rank) ts)"
| "weight rank (Queued e) = {#if isDirectory e then 8 * rank (FullPath e) [] + 8 else 6#}"
| "weight rank (File p Check) = {#5#}"
| "weight rank (File p (Trying pres)) = {#2 * length pres#}"
| "weight rank (File p (Uploading c pres)) = {#2 * length pres + 1#}"
| "weight rank Done = {#}"

lemma sum_list_update_mset:
  "i < length xs \<Longrightarrow> \<exists>I. sum_list (xs :: 'a multiset list) = I + xs ! i \<and> (\<forall>y. sum_list (xs[i := y]) = I + y)"
proof (induction xs arbitrary: i)
  case (Cons x xs)
  show ?case
  proof (cases i)
    case 0
    then show ?thesis by (intro exI [of _ "sum_list xs"]) simp
  next
    case (Suc j)
    with Cons obtain I where "sum_list xs = I + xs ! j" "\<forall>y. sum_list (xs[j := y]) = I + y" by auto
    with Suc show ?thesis by (intro exI [of _ "x + I"]) (simp add: ac_simps)
  qed
qed simp

abbreviation lighter :: "(nat multiset \<times> nat multiset) set" where
  "lighter \<equiv> mult less_than"

lemma lighter_one: "\<forall>k \<in># K. k < j \<Longrightarrow> (K, {#j#}) \<in> lighter"
  using one_step_implies_mult [of "{#j#}" K less_than "{#}"] by simp

lemma lighter_update:
  assumes "i < length ts" "(weight rank t, weight rank (ts ! i)) \<in> lighter"
  shows "(weight rank (Page d m (ts[i := t])), weight rank (Page d m ts)) \<in> lighter"
proof -
  obtain I where I: "sum_list (map (weight rank) ts) = I + weight rank (ts ! i)"
      "sum_list ((map (weight rank) ts)[i := weight rank t]) = I + weight rank t"
    using sum_list_update_mset [of i "map (weight rank) ts"] assms(1) by auto
  let ?m = "(case m of None \<Rightarrow> {#0#} | Some l \<Rightarrow> {#8 * rank d l + 8#}) + I"
  have "(?m + weight rank t, ?m + weight rank (ts ! i)) \<in> lighter"
    using assms(2) mult_cancel [of less_than ?m "weight rank t" "weight rank (ts ! i)"]
    by (simp add: irrefl_on_def add.commute)
  then show ?thesis using I by (simp add: map_update add.assoc)
qed

lemma sum_list_elem: "k \<in># sum_list (xs :: nat multiset list) \<longleftrightarrow> (\<exists>x \<in> set xs. k \<in># x)"
  by (induction xs) auto

lemma file_step_lighter:
  assumes "file_step ops u b dry p pc s w = (r, s', w')"
  shows "(weight rank (case r of None \<Rightarrow> Done | Some pc' \<Rightarrow> File p pc'), weight rank (File p pc)) \<in> lighter"
proof -
  obtain j where j: "weight rank (File p pc) = {#j#}" "r = Some pc' \<Longrightarrow> \<exists>k < j. weight rank (File p pc') = {#k#}" for pc'
    using assms by (cases pc; cases "case pc of Trying pres \<Rightarrow> pres | _ \<Rightarrow> []")
      (auto simp: file_step_def Let_def split: if_splits sum.splits prod.splits option.splits)
  then show ?thesis by (cases r) (auto intro!: lighter_one)
qed

lemma walk_step_lighter:
  assumes t: "finite_tree ops u rank"
  shows "walk_step ops u b dry c c' \<Longrightarrow> (weight rank (fst c'), weight rank (fst c)) \<in> lighter"
proof (induction rule: walk_step.induct)
  case (listed d l w listing w' s)
  have e: "rank (FullPath e) [] < rank d l" if "e \<in> set (Entries listing)" "isDirectory e" for e
    using t listed that unfolding finite_tree_def by blast
  have m: "rank d (LastFileName listing) < rank d l" if "ShouldDisplayLoadMore listing"
    using t listed that unfolding finite_tree_def by blast
  have q: "k < 8 * rank d l + 7" if "k \<in># weight rank (Queued x)" "x \<in> set (Entries listing)" for k x
    using that e by (fastforce split: if_splits)
  have "k < 8 * rank d l + 7" if "k \<in># sum_list (map (weight rank) (map Queued (Entries listing)))" for k
    using that q by (auto simp only: sum_list_elem set_map image_iff)
  with m have "k < 8 * rank d l + 7"
    if "k \<in># weight rank (Page d (if ShouldDisplayLoadMore listing then Some (LastFileName listing) else None)
        (map Queued (Entries listing)))" for k
    using that by (fastforce split: if_splits)
  then show ?case by (simp only: fst_conv weight.simps(1)) (rule lighter_one, blast)
next
  case (acquire i ts e d m s w)
  then show ?case by (simp only: fst_conv) (rule lighter_update, auto simp: acquired_def intro!: lighter_one)
next
  case (goroutine i ts s w t s' w' d m)
  then show ?case by (simp only: fst_conv) (rule lighter_update)
next
  case (wait ts d m s w)
  then have "sum_list (map (weight rank) ts) = {#}" by (induction ts) auto
  then show ?case by (auto intro!: lighter_one split: option.splits)
next
  case (check p pc s w r s' w')
  then show ?case by (simp only: fst_conv) (rule file_step_lighter)
qed (auto intro!: lighter_one)

lemma walk_step_wf: "finite_tree ops u rank \<Longrightarrow> wf {(c', c). walk_step ops u b dry c c'}"
  by (rule wf_subset [OF wf_inv_image [OF wf_mult [OF wf_less_than]], of _ "\<lambda>c. weight rank (fst c)"])
    (auto simp: inv_image_def dest: walk_step_lighter)

section \<open>Properties\<close>

lemma walk_top: "walk_step ops u b dry (t, s, w) (t', s', w') \<Longrightarrow> running t' \<or> t' = Done"
  by (cases rule: walk_step.cases) (auto split: option.splits)

lemma walk_completes:
  assumes "finite_tree ops u rank"
  shows "running (fst c) \<Longrightarrow> \<exists>s' w'. walk_run ops u b dry c (Done, s', w')"
  using walk_step_wf [OF assms, of b dry]
proof (induction c rule: wf_induct_rule)
  case (less c)
  obtain t s w where c: "c = (t, s, w)" by (cases c)
  with less.prems obtain t' s' w' where st: "walk_step ops u b dry c (t', s', w')"
    using walk_progress [of t ops u b dry s w] by (metis fst_conv prod_cases3)
  from walk_top [OF st [unfolded c]] show ?case
  proof
    assume "running t'"
    with less.IH [of "(t', s', w')"] st obtain s2 w2 where "walk_run ops u b dry (t', s', w') (Done, s2, w2)" by auto
    with st show ?thesis by (meson converse_rtranclp_into_rtranclp)
  next
    assume "t' = Done"
    with st show ?thesis by blast
  qed
qed

lemma run_top: "walk_run ops u b dry c c' \<Longrightarrow> running (fst c) \<Longrightarrow> running (fst c') \<or> fst c' = Done"
proof (induction rule: rtranclp_induct)
  case (step y z)
  then show ?case using walk_top [of ops u b dry "fst y" "fst (snd y)" "snd (snd y)" "fst z" "fst (snd z)" "snd (snd z)"] by simp
qed simp

text \<open>
  C16: However the goroutines of a recovery run interleave, the run ends and is never stuck: at
  every moment at most ten goroutines of a page are past its semaphore, and unless the walk is
  finished one of them can take a step, so no goroutine waits for the semaphore, and no page
  for its goroutines, for ever, although the goroutine of a directory keeps its place while
  the goroutines below it run. This needs no more of the filer than a finite tree
  whose pages advance.
\<close>

theorem recovery_never_stuck:
  assumes "finite_tree ops filerURL rank"
  shows "(\<forall>c. walk_run ops filerURL bucket dryRun (start dirPath w) c \<longrightarrow>
        within_sema (fst c) \<and> (fst c = Done \<or> (\<exists>c'. walk_step ops filerURL bucket dryRun c c')))
    \<and> \<not> (\<exists>f. f 0 = start dirPath w \<and> (\<forall>i. walk_step ops filerURL bucket dryRun (f i) (f (Suc i))))"
proof -
  have "within_sema (fst c) \<and> (fst c = Done \<or> (\<exists>c'. walk_step ops filerURL bucket dryRun c c'))"
    if run: "walk_run ops filerURL bucket dryRun (start dirPath w) c" for c
  proof -
    from run have "within_sema (fst c)"
      by (induction rule: rtranclp_induct) (auto simp: start_def intro: walk_step_within)
    moreover have "running (fst c) \<or> fst c = Done" using run_top [OF run] by (simp add: start_def)
    ultimately show ?thesis using walk_progress [of "fst c"] by (metis prod.collapse)
  qed
  moreover have "\<not> (\<exists>f. \<forall>i. walk_step ops filerURL bucket dryRun (f i) (f (Suc i)))"
    using walk_step_wf [OF assms, of bucket dryRun] unfolding wf_iff_no_infinite_down_chain by simp
  ultimately show ?thesis by blast
qed

theorem recovery_never_stuck_witness:
  "\<not> (\<exists>f. f 0 = start ''/b'' [] \<and> (\<forall>i. walk_step demo_filer ''http://f'' ''bk'' False (f i) (f (Suc i))))
   \<and> (\<exists>c. walk_step demo_filer ''http://f'' ''bk'' False (start ''/b'' []) c)"
proof -
  note ends = recovery_never_stuck [OF demo_finite, of "''http://f''" "''bk''" False "''/b''" "[]"]
  have "walk_run demo_filer ''http://f'' ''bk'' False (start ''/b'' []) (start ''/b'' [])" by simp
  then have "fst (start ''/b'' []) = Done \<or> (\<exists>c'. walk_step demo_filer ''http://f'' ''bk'' False (start ''/b'' []) c')"
    using ends [THEN conjunct1, THEN spec, of "start ''/b'' []"] by (auto simp: start_def)
  then have "\<exists>c. walk_step demo_filer ''http://f'' ''bk'' False (start ''/b'' []) c" by (auto simp: start_def)
  with ends [THEN conjunct2] show ?thesis by simp
qed

end
