(* ===== verification/Recovery_Interleavings.thy ===== *)
theory Recovery_Interleavings
  imports Recovery_Concurrent
begin

text \<open>
  What the interleavings of \<^verbatim>\<open>Recovery_Concurrent\<close> do to the files: on a filer that works all of them
  leave the specification \<open>healed\<close> behind; at every moment they have only made permitted
  requests; and the walk of \<^verbatim>\<open>Recovery\<close>, one goroutine after the other, is one of them.
\<close>

section \<open>What an interleaving leaves behind\<close>

text \<open>Only the files whose data was lost matter for \<open>healed\<close>.\<close>

definition lost_among :: "files \<Rightarrow> string set \<Rightarrow> string set" where
  "lost_among fs V = {p \<in> V. fs p = Some DataLost}"

lemma lost_among_Un [simp]: "lost_among fs (V \<union> W) = lost_among fs V \<union> lost_among fs W"
  by (auto simp: lost_among_def)

lemma lost_among_empty [simp]: "lost_among fs {} = {}"
  by (simp add: lost_among_def)

lemma healed_lost_among: "healed archive (lost_among fs V) fs = healed archive V fs"
  by (rule ext) (auto simp: healed_def lost_among_def beyond_repair_def)

lemma same_lost_healed: "lost_among fs V = lost_among fs W \<Longrightarrow> healed archive V fs = healed archive W fs"
  by (metis healed_lost_among)

fun first_backup :: "(string \<rightharpoonup> string) \<Rightarrow> string \<Rightarrow> string list \<Rightarrow> string option" where
  "first_backup archive p [] = None"
| "first_backup archive p (pre # pres) = (case archive (pre @ trim_prefix p ''/'') of
     Some c \<Rightarrow> Some c | None \<Rightarrow> first_backup archive p pres)"

text \<open>The files a goroutine will still check, and what it knows of the files it checks.\<close>

fun owes :: "files \<Rightarrow> task \<Rightarrow> string set" where
  "owes fs (Listing d l) = to_check fs d l"
| "owes fs (Page d m ts) = (\<Union>t \<in> set ts. owes fs t) \<union> (case m of None \<Rightarrow> {} | Some l \<Rightarrow> to_check fs d l)"
| "owes fs (Queued e) = covers fs e"
| "owes fs (File p pc) = {p}"
| "owes fs Done = {}"

definition knows :: "(string \<rightharpoonup> string) \<Rightarrow> files \<Rightarrow> string \<Rightarrow> file_pc \<Rightarrow> bool" where
  "knows archive fs p pc \<longleftrightarrow> \<not> has_suffix p marker \<and> fs p \<notin> {None, Some Directory} \<and> (case pc of
     Check \<Rightarrow> True
   | Trying pres \<Rightarrow> fs p = Some DataLost \<and> first_backup archive p pres = backup_of archive p
   | Uploading c pres \<Rightarrow> fs p = Some DataLost \<and> backup_of archive p = Some c)"

fun sound :: "(string \<rightharpoonup> string) \<Rightarrow> files \<Rightarrow> task \<Rightarrow> bool" where
  "sound archive fs (Listing d l) = (fs d = Some Directory)"
| "sound archive fs (Page d m ts) = (fs d = Some Directory \<and> (\<forall>t \<in> set ts. sound archive fs t))"
| "sound archive fs (Queued e) = true_entry fs e"
| "sound archive fs (File p pc) = knows archive fs p pc"
| "sound archive fs Done = True"

lemma backup_of_first: "first_backup archive p [''snapshot2/'', ''snapshot/''] = backup_of archive p"
  by (simp add: backup_of_def split: option.splits)

lemma file_step_heals:
  assumes l: "filer_laws ops u bucket archive files" and r: "recoverable archive fs"
    and V: "unmarked V" "files w = healed archive V fs" and k: "knows archive fs p pc"
    and st: "file_step ops u bucket False p pc s w = (res, s', w')"
  shows "\<exists>V'. unmarked V' \<and> files w' = healed archive V' fs
    \<and> (case res of None \<Rightarrow> lost_among fs V' = lost_among fs (insert p V)
       | Some pc' \<Rightarrow> knows archive fs p pc' \<and> V' = V)"
proof -
  have p: "\<not> has_suffix p marker" "fs p \<noteq> None" and url: "url_path p"
    using k r by (auto simp: knows_def recoverable_def)
  have now: "files w p = (if p \<in> V \<and> fs p = Some DataLost then map_option Intact (backup_of archive p) else fs p)"
    by (simp only: V healed_unmarked [OF p(1)])
  have V': "unmarked (insert p V)" using V(1) p(1) by simp
  show ?thesis
  proof (cases pc)
    case Check
    obtain b w1 where g: "filer_Do ops \<lparr>Filer_Method = ''GET'', Filer_URL = u @ p, Accept = [], Filer_Body = None\<rparr> w
        = (Inr (file_status (files w p), b), w1)" and w1: "files w1 = files w"
      by (rule get_status [OF l url, where w = w])
    have w': "w' = w1" and res: "res = (if file_status (files w p) = 500
        then Some (Trying [''snapshot2/'', ''snapshot/'']) else None)"
      using st g Check by (auto simp: file_step_def no_bad_url [OF l] Let_def split: if_splits)
    show ?thesis
    proof (cases "p \<notin> V \<and> fs p = Some DataLost")
      case True
      then have "knows archive fs p (Trying [''snapshot2/'', ''snapshot/''])"
        using k by (simp add: knows_def backup_of_first del: first_backup.simps)
      with True V w' w1 res now show ?thesis by (intro exI [of _ V]) (simp add: file_status_def)
    next
      case False
      have "file_status (files w p) \<noteq> 500"
        using False now k by (auto simp: file_status_def knows_def split: option.splits filer_file.splits)
      moreover have "lost_among fs V = lost_among fs (insert p V)" using False by (auto simp: lost_among_def)
      ultimately show ?thesis using V w' w1 res by (intro exI [of _ V]) simp
    qed
  next
    case (Trying pres)
    with k have lost: "fs p = Some DataLost" by (simp add: knows_def)
    show ?thesis
    proof (cases pres)
      case Nil
      with Trying k have none: "backup_of archive p = None" by (simp add: knows_def)
      then have beyond: "beyond_repair archive fs p" using lost by (simp add: beyond_repair_def)
      with r p(1) have free: "fs (p @ marker) = None" by (simp add: recoverable_def)
      have res: "res = None" "w' = markMissing ops u p False w" using st Trying Nil by (simp_all add: file_step_def)
      have "files w' = healed archive (insert p V) fs"
      proof (cases "p \<in> V")
        case True
        with now lost none have "files w p = None" by simp
        from rename_missing [OF l url this] res True V(2) show ?thesis by (simp add: insert_absorb)
      next
        case False
        with now lost have "files w p = Some DataLost" by simp
        moreover have "files w (p @ marker) = None" using V(2) False free by (auto simp: healed_def)
        ultimately show ?thesis
          using rename_moves [OF l url] res V(2) healed_insert_renamed [OF beyond free, of V] by simp
      qed
      with res V' show ?thesis by (intro exI [of _ "insert p V"]) simp
    next
      case (Cons pre pres')
      obtain x w1 where b: "backup ops bucket (pre @ trim_prefix p ''/'') w = (x, w1)" "files w1 = files w"
          "case archive (pre @ trim_prefix p ''/'') of None \<Rightarrow> \<exists>e. x = Inl e | Some c \<Rightarrow> x = Inr c"
        by (rule backup_reads [OF l, where k = "pre @ trim_prefix p ''/''" and w = w])
      have "w' = w1 \<and> (\<exists>pc'. res = Some pc' \<and> knows archive fs p pc')"
      proof (cases "archive (pre @ trim_prefix p ''/'')")
        case None
        with b(3) obtain e where "x = Inl e" by auto
        with st Trying Cons k b(1) None show ?thesis by (auto simp: file_step_def knows_def)
      next
        case (Some c)
        with b(3) have "x = Inr c" by simp
        with st Trying Cons k b(1) Some show ?thesis by (auto simp: file_step_def knows_def)
      qed
      with V b show ?thesis by (intro exI [of _ V]) auto
    qed
  next
    case (Uploading c pres)
    with k have lost: "fs p = Some DataLost" "backup_of archive p = Some c" by (simp_all add: knows_def)
    with now have "files w p \<notin> {None, Some Directory}" by auto
    from put_stores [OF l url this, of c] obtain w1
      where "uploadToFiler ops u p c w = (None, w1)" "files w1 = (files w)(p \<mapsto> Intact c)" by blast
    with st Uploading V(2) V' healed_insert_restored [where archive = archive and fs = fs and c = c and V = V, OF p(1) lost] show ?thesis
      by (intro exI [of _ "insert p V"]) (simp add: file_step_def)
  qed
qed

lemma acquired_owes:
  assumes "true_entry fs e"
  shows "owes fs (acquired e) = covers fs e" "sound archive fs (acquired e)"
  using assms by (auto simp: acquired_def covers_def true_entry_def knows_def)

lemma Union_update:
  assumes "i < length ts"
  shows "\<exists>R. (\<Union>t \<in> set ts. f t) = f (ts ! i) \<union> R \<and> (\<forall>t. (\<Union>x \<in> set (ts[i := t]). f x) = f t \<union> R)"
proof -
  let ?R = "\<Union>t \<in> set (take i ts) \<union> set (drop (Suc i) ts). f t"
  have "set ts = insert (ts ! i) (set (take i ts) \<union> set (drop (Suc i) ts))"
    using assms by (metis Un_insert_right id_take_nth_drop list.simps(15) set_append)
  moreover have "set (ts[i := t]) = insert t (set (take i ts) \<union> set (drop (Suc i) ts))" for t
    using assms by (simp add: upd_conv_take_nth_drop)
  ultimately show ?thesis by (intro exI [of _ ?R]) auto
qed

definition heals :: "(string \<rightharpoonup> string) \<Rightarrow> ('w \<Rightarrow> files) \<Rightarrow> files \<Rightarrow> string set \<Rightarrow> task \<times> rec_stats \<times> 'w \<Rightarrow> bool" where
  "heals archive files fs G c \<longleftrightarrow> sound archive fs (fst c) \<and> (\<exists>V. unmarked V
     \<and> files (snd (snd c)) = healed archive V fs \<and> lost_among fs (V \<union> owes fs (fst c)) = lost_among fs G)"

lemma walk_step_heals:
  assumes l: "filer_laws ops u bucket archive files" and r: "recoverable archive fs"
  shows "walk_step ops u bucket False c c' \<Longrightarrow> heals archive files fs G c \<Longrightarrow> heals archive files fs G c'"
proof (induction arbitrary: G rule: walk_step.induct)
  case (list_fails d la w e w' s)
  then obtain V where V: "unmarked V" "files w = healed archive V fs" "fs d = Some Directory"
    by (auto simp: heals_def)
  then have "files w d = Some Directory" "url_path d"
    using healed_directory [OF r V(1), of d] r by (simp_all add: recoverable_def)
  from list_page [OF l this(2,1), of la] list_fails(1) show ?case by (metis Inl_Inr_False prod.inject)
next
  case (listed d la w L w' s)
  then obtain V where V: "unmarked V" "files w = healed archive V fs" "fs d = Some Directory"
      "lost_among fs (V \<union> to_check fs d la) = lost_among fs G"
    by (auto simp: heals_def)
  then have "files w d = Some Directory" "url_path d"
    using healed_directory [OF r V(1), of d] r by (simp_all add: recoverable_def)
  from list_page [OF l this(2,1), of la] listed(1)
  have L: "is_page (files w) d la L" and w': "files w' = files w" by (metis Inr_inject prod.inject)+
  note P = L [unfolded V(2)]
  have "V \<union> owes fs (Page d (if ShouldDisplayLoadMore L then Some (LastFileName L) else None) (map Queued (Entries L)))
      = V \<union> to_check fs d la"
    using page_covers [OF r V(1) P] by (auto simp: Un_assoc split: if_splits)
  with V w' page_entries_true [OF r V(1) P] show ?case
    unfolding heals_def by (auto intro!: exI [of _ V] simp del: lost_among_Un)
next
  case (acquire i ts e d m s w)
  then obtain V where V: "unmarked V" "files w = healed archive V fs" "fs d = Some Directory"
      "lost_among fs (V \<union> owes fs (Page d m ts)) = lost_among fs G" "\<forall>t \<in> set ts. sound archive fs t"
    by (auto simp: heals_def)
  have e: "true_entry fs e" using V(5) acquire(1,2) by (metis nth_mem sound.simps(3))
  obtain R where "(\<Union>t \<in> set ts. owes fs t) = owes fs (ts ! i) \<union> R"
      "\<forall>t. (\<Union>x \<in> set (ts[i := t]). owes fs x) = owes fs t \<union> R"
    using Union_update [OF acquire(1), of "owes fs"] by auto
  then have "owes fs (Page d m (ts[i := acquired e])) = owes fs (Page d m ts)"
    using acquired_owes(1) [OF e] acquire(2) by simp
  moreover have "\<forall>t \<in> set (ts[i := acquired e]). sound archive fs t"
    using V(5) acquired_owes(2) [OF e, of archive] set_update_subset_insert [of ts i "acquired e"] by blast
  ultimately show ?case using V unfolding heals_def by (auto intro!: exI [of _ V] simp del: lost_among_Un owes.simps)
next
  case (goroutine i ts s w t s' w' d m)
  then obtain V where V: "unmarked V" "files w = healed archive V fs" "fs d = Some Directory"
      "lost_among fs (V \<union> owes fs (Page d m ts)) = lost_among fs G" "\<forall>t \<in> set ts. sound archive fs t"
    by (auto simp: heals_def)
  have "heals archive files fs (V \<union> owes fs (ts ! i)) (ts ! i, s, w)"
    using V goroutine(1) unfolding heals_def by (auto intro!: exI [of _ V])
  from goroutine.IH [OF this] obtain V' where V': "unmarked V'" "files w' = healed archive V' fs" "sound archive fs t"
      "lost_among fs (V' \<union> owes fs t) = lost_among fs (V \<union> owes fs (ts ! i))"
    by (auto simp: heals_def)
  obtain R where "(\<Union>t \<in> set ts. owes fs t) = owes fs (ts ! i) \<union> R"
      "\<forall>t. (\<Union>x \<in> set (ts[i := t]). owes fs x) = owes fs t \<union> R"
    using Union_update [OF goroutine(1), of "owes fs"] by auto
  then have "lost_among fs (V' \<union> owes fs (Page d m (ts[i := t]))) = lost_among fs G"
    using V(4) V'(4) by (simp add: Un_assoc [symmetric])
  moreover have "\<forall>t \<in> set (ts[i := t]). sound archive fs t"
    using V(5) V'(3) set_update_subset_insert [of ts i t] by blast
  ultimately show ?case using V(3) V' unfolding heals_def by (auto intro!: exI [of _ V'] simp del: lost_among_Un owes.simps)
next
  case (wait ts d m s w)
  then have "(\<Union>t \<in> set ts. owes fs t) = {}" by auto
  with wait show ?case by (auto simp: heals_def split: option.splits)
next
  case (check p pc s w res s' w')
  then obtain V where V: "unmarked V" "files w = healed archive V fs" "knows archive fs p pc"
      "lost_among fs (V \<union> {p}) = lost_among fs G"
    by (auto simp: heals_def)
  from file_step_heals [OF l r V(1-3) check(1)] V(4) show ?case
    unfolding heals_def by (cases res) (auto simp: lost_among_def)
qed

text \<open>A dry run never uploads, renames or changes a file.\<close>

fun no_upload :: "task \<Rightarrow> bool" where
  "no_upload (Page d m ts) = (\<forall>t \<in> set ts. no_upload t)"
| "no_upload (File p (Uploading c pres)) = False"
| "no_upload _ = True"

lemma file_step_dry:
  assumes l: "filer_laws ops u bucket archive files" and st: "file_step ops u b True p pc s w = (r, s', w')"
    and pc: "no_upload (File p pc)"
  shows "files w' = files w \<and> no_upload (case r of None \<Rightarrow> Done | Some pc' \<Rightarrow> File p pc')"
proof -
  have get: "files w1 = files w"
    if "filer_Do ops \<lparr>Filer_Method = ''GET'', Filer_URL = x, Accept = a, Filer_Body = None\<rparr> w = (y, w1)" for x a y w1
    using get_keeps [OF l, of x a w] that by (simp add: get_request_def)
  have read: "files w1 = files w" if "backup ops b k w = (y, w1)" for k y w1
    using reads_keep(2) [OF l, of b k w] that by simp
  show ?thesis
  proof (cases pc)
    case Check
    with st show ?thesis
      by (auto simp: file_step_def Let_def split: if_splits sum.splits prod.splits dest!: get)
  next
    case (Trying pres)
    with st show ?thesis
      by (cases pres) (auto simp: file_step_def markMissing_def split: if_splits sum.splits prod.splits dest!: read)
  qed (use pc in simp)
qed

lemma acquired_no_upload [simp]: "no_upload (acquired e)"
  by (simp add: acquired_def)

lemma listDirectory_keeps_files:
  assumes "filer_laws ops u bucket archive files" "listDirectory ops u d l w = (r, w')"
  shows "files w' = files w"
proof -
  have "keeps True u ops (\<lambda>x. files x = files w)"
    using reads_keep [OF assms(1)] by (simp add: keeps_def permitted_def)
  from listDirectory_keeps [OF this _ assms(2)] show ?thesis by simp
qed

lemma walk_step_dry:
  assumes l: "filer_laws ops u bucket archive files"
  shows "walk_step ops u b True c c' \<Longrightarrow> no_upload (fst c)
    \<Longrightarrow> no_upload (fst c') \<and> files (snd (snd c')) = files (snd (snd c))"
proof (induction rule: walk_step.induct)
  case (acquire i ts e d m s w)
  then show ?case using set_update_subset_insert [of ts i "acquired e"] by auto
next
  case (goroutine i ts s w t s' w' d m)
  then show ?case using set_update_subset_insert [of ts i t] by auto
next
  case (check p pc s w r s' w')
  then show ?case using file_step_dry [OF l check(1)] by simp
qed (auto dest: listDirectory_keeps_files [OF l] split: option.splits)

section \<open>What every moment of a run keeps\<close>

text \<open>
  Only files without a mark are checked, an upload is never part of a dry run, and every scanned
  file that is not counted yet belongs to a goroutine past its check.
\<close>

fun well_placed :: "bool \<Rightarrow> task \<Rightarrow> bool" where
  "well_placed dry (Page d m ts) = (\<forall>t \<in> set ts. well_placed dry t)"
| "well_placed dry (File p pc) = (\<not> has_suffix p marker \<and> (dry \<longrightarrow> (\<forall>c pres. pc \<noteq> Uploading c pres)))"
| "well_placed dry _ = True"

fun in_flight :: "task \<Rightarrow> nat" where
  "in_flight (Page d m ts) = sum_list (map in_flight ts)"
| "in_flight (File p pc) = (if pc = Check then 0 else 1)"
| "in_flight _ = 0"

definition counted :: "rec_stats \<Rightarrow> nat" where
  "counted s = healthy s + restored s + missing s + walk_errors s"

lemma acquired_placed [simp]: "well_placed dry (acquired e)" "in_flight (acquired e) = 0"
  by (simp_all add: acquired_def)

lemma file_step_confined:
  assumes k: "keeps dry u ops I" and p: "well_placed dry (File p pc)" and i: "I w"
    and st: "file_step ops u b dry p pc s w = (r, s', w')"
  shows "I w' \<and> well_placed dry (case r of None \<Rightarrow> Done | Some pc' \<Rightarrow> File p pc')
    \<and> scanned s' + counted s + in_flight (File p pc)
        \<le> scanned s + counted s' + in_flight (case r of None \<Rightarrow> Done | Some pc' \<Rightarrow> File p pc')"
proof (cases pc)
  case Check
  with st i p show ?thesis
    by (auto simp: file_step_def Let_def counted_def split: if_splits sum.splits prod.splits
        dest: keeps_Do [OF k permitted_get i])
next
  case (Trying pres)
  with st i p markMissing_keeps [OF k _ i, of p] show ?thesis
    by (cases pres) (auto simp: file_step_def counted_def split: if_splits sum.splits prod.splits dest: keeps_backup [OF k i])
next
  case (Uploading c pres)
  with p k have up: "keeps False u ops I" "\<not> has_suffix p marker" by auto
  from st Uploading p show ?thesis
    by (auto simp: file_step_def counted_def split: prod.splits option.splits dest: upload_keeps [OF up i])
qed

definition confined :: "bool \<Rightarrow> ('w \<Rightarrow> bool) \<Rightarrow> nat \<Rightarrow> task \<times> rec_stats \<times> 'w \<Rightarrow> bool" where
  "confined dry I k c = (case c of (t, s, w) \<Rightarrow> I w \<and> well_placed dry t \<and> scanned s \<le> counted s + in_flight t + k)"

lemma sum_list_update_nat:
  "i < length xs \<Longrightarrow> sum_list (xs[i := y]) + xs ! i = sum_list xs + (y :: nat)"
proof (induction xs arbitrary: i)
  case (Cons x xs)
  then show ?case by (cases i) auto
qed simp

lemma walk_step_confined:
  assumes k: "keeps dry u ops I"
  shows "walk_step ops u b dry c c' \<Longrightarrow> confined dry I n c \<Longrightarrow> confined dry I n c'"
proof (induction arbitrary: n rule: walk_step.induct)
  case (list_fails d l w e w' s)
  with listDirectory_keeps [OF k] show ?case by (auto simp: confined_def counted_def)
next
  case (listed d l w L w' s)
  have "sum_list (map in_flight (map Queued es)) = 0" for es by (induction es) auto
  with listed listDirectory_keeps [OF k] show ?case by (auto simp: confined_def counted_def)
next
  case (acquire i ts e d m s w)
  have "sum_list (map in_flight (ts[i := acquired e])) = sum_list (map in_flight ts)"
    using sum_list_update_nat [of i "map in_flight ts" 0] acquire by (simp add: map_update)
  moreover have "\<forall>t \<in> set (ts[i := acquired e]). well_placed dry t"
    using acquire(4) set_update_subset_insert [of ts i "acquired e"] by (auto simp: confined_def)
  ultimately show ?case using acquire(4) by (simp add: confined_def)
next
  case (goroutine i ts s w t s' w' d m)
  let ?f = "map in_flight ts"
  have sum: "sum_list (map in_flight (ts[i := t])) + in_flight (ts ! i) = sum_list ?f + in_flight t"
    using sum_list_update_nat [of i ?f "in_flight t"] goroutine(1) by (simp add: map_update)
  have ge: "in_flight (ts ! i) \<le> sum_list ?f" using goroutine(1) by (metis elem_le_sum_list length_map nth_map)
  with goroutine(1,4) have "confined dry I (sum_list ?f - in_flight (ts ! i) + n) (ts ! i, s, w)"
    by (simp add: confined_def)
  from goroutine.IH [OF this] goroutine(4) sum ge set_update_subset_insert [of ts i t] show ?case
    by (auto simp: confined_def)
next
  case (wait ts d m s w)
  then have "sum_list (map in_flight ts) = 0" by (induction ts) auto
  with wait show ?case by (auto simp: confined_def split: option.splits)
next
  case (check p pc s w r s' w')
  then show ?case using file_step_confined [OF k _ _ check(1)] by (force simp: confined_def)
qed

section \<open>One goroutine after the other\<close>

text \<open>
  The walk of \<^verbatim>\<open>Recovery\<close>, which runs the goroutines of a page one after the other in some order,
  is one of the interleavings, counters included.
\<close>

lemma file_step_frame:
  "file_step ops u b dry p pc s w = (r, s', w') \<Longrightarrow> file_step ops u b dry p pc (add_stats k s) w = (r, add_stats k s', w')"
  by (cases pc; cases "case pc of Trying pres \<Rightarrow> pres | _ \<Rightarrow> []")
    (auto simp: file_step_def add_stats_def Let_def split: if_splits sum.splits prod.splits option.splits)

lemma walk_step_frame:
  "walk_step ops u b dry c c' \<Longrightarrow> walk_step ops u b dry (fst c, add_stats k (fst (snd c)), snd (snd c))
     (fst c', add_stats k (fst (snd c')), snd (snd c'))"
proof (induction rule: walk_step.induct)
  case (list_fails d l w e w' s)
  have "add_stats k (s\<lparr>walk_errors := walk_errors s + 1\<rparr>) = (add_stats k s)\<lparr>walk_errors := walk_errors (add_stats k s) + 1\<rparr>"
    by (simp add: add_stats_def)
  with list_fails walk_step.list_fails show ?case by (metis fst_conv snd_conv)
next
  case (listed d l w L w' s)
  from walk_step.listed [OF this] show ?case by simp
qed (auto intro: walk_step.intros file_step_frame)

lemma walk_run_frame:
  "walk_run ops u b dry c c' \<Longrightarrow> walk_run ops u b dry (fst c, add_stats k (fst (snd c)), snd (snd c))
     (fst c', add_stats k (fst (snd c')), snd (snd c'))"
  by (induction rule: rtranclp_induct) (auto dest: walk_step_frame [where k = k])

lemma goroutine_run:
  "walk_run ops u b dry c c' \<Longrightarrow> i < length ts
    \<Longrightarrow> walk_run ops u b dry (Page d m (ts[i := fst c]), snd c) (Page d m (ts[i := fst c']), snd c')"
proof (induction rule: rtranclp_induct)
  case (step y z)
  have "walk_step ops u b dry (Page d m (ts[i := fst y]), snd y) (Page d m (ts[i := fst z]), snd z)"
    using goroutine [of i "ts[i := fst y]" ops u b dry "fst (snd y)" "snd (snd y)" "fst z" "fst (snd z)" "snd (snd z)"]
      step by simp
  with step show ?case by simp
qed simp

lemma file_run_walk:
  "file_run ops u b dry p pc s w s' w' \<Longrightarrow> walk_run ops u b dry (File p pc, s, w) (Done, s', w')"
proof (induction rule: file_run.induct)
  case (ends pc s w s' w')
  from check [OF ends] show ?case by simp
next
  case (goes_on pc s w pc' s1 w1 s' w')
  from check [OF goes_on(1)] goes_on(3) show ?case by (simp add: converse_rtranclp_into_rtranclp)
qed

fun pending :: "task list \<Rightarrow> filerEntry multiset" where
  "pending [] = {#}"
| "pending (Queued e # ts) = add_mset e (pending ts)"
| "pending (t # ts) = pending ts"

lemma pending_take:
  "e \<in># pending ts \<Longrightarrow> \<exists>i < length ts. ts ! i = Queued e \<and> pending ts = add_mset e (pending (ts[i := Done]))"
proof (induction ts)
  case (Cons t ts)
  show ?case
  proof (cases "t = Queued e")
    case True
    then show ?thesis by (intro exI [of _ 0]) simp
  next
    case False
    with Cons.prems have "e \<in># pending ts" by (cases t) auto
    with Cons.IH obtain i where "i < length ts" "ts ! i = Queued e" "pending ts = add_mset e (pending (ts[i := Done]))"
      by auto
    then show ?thesis by (intro exI [of _ "Suc i"]) (cases t; simp)
  qed
qed simp

lemma pending_Queued: "pending (map Queued es) = mset es"
  by (induction es) simp_all

lemma page_sequential:
  assumes one: "\<And>e s w s' w'. e \<in># E \<Longrightarrow> go e s w = Some (s', w') \<Longrightarrow> walk_run ops u b dry (acquired e, s, w) (Done, s', w')"
  shows "pending ts = mset es \<Longrightarrow> mset es \<subseteq># E \<Longrightarrow> \<forall>t \<in> set ts. \<not> running t \<Longrightarrow> visit_all go es s w = Some (s', w')
    \<Longrightarrow> \<exists>ts'. set ts' \<subseteq> {Done} \<and> walk_run ops u b dry (Page d m ts, s, w) (Page d m ts', s', w')"
proof (induction es arbitrary: ts s w)
  case Nil
  have "t = Done" if "t \<in> set ts" for t
  proof -
    from that Nil(3) have "\<not> running t" by blast
    moreover have "t \<noteq> Queued e" for e using that Nil(1) by (induction ts rule: pending.induct) auto
    ultimately show ?thesis by (cases t) auto
  qed
  with Nil(4) show ?case by (intro exI [of _ ts]) auto
next
  case (Cons e es)
  obtain s1 w1 where g: "go e s w = Some (s1, w1)" "visit_all go es s1 w1 = Some (s', w')"
    using Cons.prems(4) by (auto split: option.splits)
  have "e \<in># pending ts" using Cons.prems(1) by simp
  then obtain i where i: "i < length ts" "ts ! i = Queued e" "pending ts = add_mset e (pending (ts[i := Done]))"
    using pending_take by blast
  have "filter running ts = []" using Cons.prems(3) by (simp add: filter_empty_conv)
  then have "walk_step ops u b dry (Page d m ts, s, w) (Page d m (ts[i := acquired e]), s, w)"
    using i by (intro acquire) (simp_all add: sema_size_def)
  also have "e \<in># E" using Cons.prems(2) by (simp add: insert_subset_eq_iff)
  from goroutine_run [OF one [OF this g(1)] i(1), of d m]
  have "walk_run ops u b dry (Page d m (ts[i := acquired e]), s, w) (Page d m (ts[i := Done]), s1, w1)" by simp
  finally have step: "walk_run ops u b dry (Page d m ts, s, w) (Page d m (ts[i := Done]), s1, w1)" .
  have "\<forall>t \<in> set (ts[i := Done]). \<not> running t" using Cons.prems(3) set_update_subset_insert [of ts i Done] by auto
  moreover have "pending (ts[i := Done]) = mset es" using i(3) Cons.prems(1) by simp
  moreover have "mset es \<subseteq># E" 
    using Cons.prems(2) diff_subset_eq_self [of E "{#e#}"] subset_mset.order_trans by (fastforce simp: insert_subset_eq_iff)
  ultimately obtain ts' where "set ts' \<subseteq> {Done}" "walk_run ops u b dry (Page d m (ts[i := Done]), s1, w1) (Page d m ts', s', w')"
    using Cons.IH g(2) by blast
  with step show ?case by (blast intro: rtranclp_trans)
qed

lemma visit_walk:
  assumes v: "visit ops u b dry sub e s w = Some (s', w')"
    and sub: "\<And>d w t w'. sub d w = Some (t, w') \<Longrightarrow> walk_run ops u b dry (Listing d [], no_stats, w) (Done, t, w')"
  shows "walk_run ops u b dry (acquired e, s, w) (Done, s', w')"
proof -
  have zero: "add_stats s no_stats = s" by (simp add: add_stats_def no_stats_def)
  consider (dir) t where "isDirectory e" "sub (FullPath e) w = Some (t, w')" "s' = add_stats s t"
    | (marked) "\<not> isDirectory e" "has_suffix (FullPath e) marker" "(s', w') = (s, w)"
    | (plain) "\<not> isDirectory e" "\<not> has_suffix (FullPath e) marker"
        "checkAndRecover ops u (FullPath e) b dry s w = (s', w')"
    using v by (auto simp: visit_def split: if_splits option.splits)
  then show ?thesis
  proof cases
    case dir
    from walk_run_frame [OF sub [OF dir(2)], of s] dir show ?thesis by (simp add: acquired_def zero)
  next
    case marked
    then show ?thesis by (simp add: acquired_def)
  next
    case plain
    from file_run_walk [OF goroutine_alone [OF plain(3)]] plain(1,2) show ?thesis by (simp add: acquired_def)
  qed
qed

text \<open>A walk with its goroutines in any order is a run.\<close>

theorem walk_is_interleaving:
  assumes o: "\<forall>d l es. mset (order d l es) = mset es"
  shows "walk n ops order u b dry d l s w = Some (s', w') \<Longrightarrow> walk_run ops u b dry (Listing d l, s, w) (Done, s', w')"
proof (induction n arbitrary: d l s w s' w')
  case (Suc n)
  obtain r w1 where r: "listDirectory ops u d l w = (r, w1)" by fastforce
  show ?case
  proof (cases r)
    case (Inl e)
    with r Suc.prems list_fails [of ops u d l w e w1 b dry s] show ?thesis by auto
  next
    case (Inr L)
    let ?m = "if ShouldDisplayLoadMore L then Some (LastFileName L) else None"
    let ?go = "visit ops u b dry (\<lambda>x. walk n ops order u b dry x [] no_stats)"
    from r Inr Suc.prems obtain s2 w2 where v: "visit_all ?go (order d l (Entries L)) s w1 = Some (s2, w2)"
        and rest: "if ShouldDisplayLoadMore L then walk n ops order u b dry d (LastFileName L) s2 w2 = Some (s', w')
          else (s2, w2) = (s', w')"
      by (auto split: option.splits if_splits)
    have one: "walk_run ops u b dry (acquired e, s, w) (Done, s', w')" if "?go e s w = Some (s', w')" for e s w s' w'
      using visit_walk [OF that] Suc.IH by blast
    have "\<exists>ts'. set ts' \<subseteq> {Done} \<and> walk_run ops u b dry (Page d ?m (map Queued (Entries L)), s, w1) (Page d ?m ts', s2, w2)"
      by (rule page_sequential [where go = ?go and E = "mset (Entries L)", OF one _ _ _ v]) (auto simp: o pending_Queued)
    then obtain ts' where ts': "set ts' \<subseteq> {Done}"
        "walk_run ops u b dry (Page d ?m (map Queued (Entries L)), s, w1) (Page d ?m ts', s2, w2)" by blast
    have "walk_step ops u b dry (Listing d l, s, w) (Page d ?m (map Queued (Entries L)), s, w1)"
      using listed [of ops u d l w L w1 b dry s] r Inr by simp
    moreover have "walk_step ops u b dry (Page d ?m ts', s2, w2) (case ?m of None \<Rightarrow> Done | Some l \<Rightarrow> Listing d l, s2, w2)"
      by (rule wait [OF ts'(1)])
    ultimately have "walk_run ops u b dry (Listing d l, s, w) (case ?m of None \<Rightarrow> Done | Some l \<Rightarrow> Listing d l, s2, w2)"
      using ts'(2) by (meson converse_rtranclp_into_rtranclp rtranclp.rtrancl_into_rtrancl)
    moreover have "walk_run ops u b dry (case ?m of None \<Rightarrow> Done | Some l \<Rightarrow> Listing d l, s2, w2) (Done, s', w')"
      using rest Suc.IH by (auto split: if_splits)
    ultimately show ?thesis by (rule rtranclp_trans)
  qed
qed simp

section \<open>Properties\<close>

text \<open>
  C15: Every interleaving of the requests of a recovery run leaves the same files behind: on a
  filer that works each run that ends has restored, renamed and left alone exactly what the
  specification says, whatever the order in which goroutines of different files and
  directories make their requests, even when a file is listed twice and checked by two of
  them; and some run does end. A dry run changes nothing.
\<close>

theorem recovery_interleavings_agree:
  assumes l: "filer_laws ops filerURL bucket archive files" and r: "recoverable archive (files w)"
    and d: "files w dirPath = Some Directory" and t: "finite_tree ops filerURL rank"
  shows "(\<exists>s w'. walk_run ops filerURL bucket dryRun (start dirPath w) (Done, s, w'))
    \<and> (\<forall>s w'. walk_run ops filerURL bucket dryRun (start dirPath w) (Done, s, w') \<longrightarrow>
         files w' = (if dryRun then files w else healed archive (to_check (files w) dirPath []) (files w)))"
proof -
  let ?fs = "files w" and ?G = "to_check (files w) dirPath []"
  have live: "heals archive files ?fs ?G c" if "walk_run ops filerURL bucket False (start dirPath w) c" for c
    using that
  proof (induction rule: rtranclp_induct)
    case base
    show ?case using d unfolding heals_def start_def by (auto simp: nothing_healed intro!: exI [of _ "{}"])
  qed (rule walk_step_heals [OF l r])
  have dry: "no_upload (fst c) \<and> files (snd (snd c)) = files w"
    if "walk_run ops filerURL bucket True (start dirPath w) c" for c
    using that by (induction rule: rtranclp_induct) (auto simp: start_def dest: walk_step_dry [OF l])
  have "files w' = (if dryRun then files w else healed archive ?G (files w))"
    if "walk_run ops filerURL bucket dryRun (start dirPath w) (Done, s, w')" for s w'
  proof (cases dryRun)
    case True
    with dry that show ?thesis by force
  next
    case False
    with live that have "heals archive files ?fs ?G (Done, s, w')" by simp
    with False show ?thesis by (auto simp: heals_def dest: same_lost_healed)
  qed
  moreover have "\<exists>s w'. walk_run ops filerURL bucket dryRun (start dirPath w) (Done, s, w')"
    using walk_completes [OF t, of "start dirPath w"] by (simp add: start_def)
  ultimately show ?thesis by blast
qed

theorem recovery_interleavings_agree_witness:
  "\<exists>s w'. walk_run (disk_filer demo_archive) ''http://f'' ''bk'' False (start ''/b'' demo_disk) (Done, s, w')
     \<and> disk_files w' ''/b/k/a'' = Some (Intact ''new'') \<and> disk_files w' ''/b/c'' = Some (Intact ''c'')
     \<and> disk_files w' ''/b/k/z'' = None \<and> disk_files w' ''/x'' = Some DataLost"
proof -
  have "disk_files demo_disk ''/b'' = Some Directory" by (simp add: disk_files_def demo_disk_def)
  from recovery_interleavings_agree [OF disk_laws demo_recoverable this disk_finite, where bucket = "''bk''" and dryRun = False]
  show ?thesis by (metis (no_types, lifting) demo_healed)
qed



end
