(* ===== verification/Keychain.thy ===== *)
theory Keychain
  imports Terrors "HOL-Library.Multiset"
begin

text \<open>
  \<^verbatim>\<open>lib/macoskeychain/identity.go\<close>: a TLS identity whose private key stays in the macOS
  keychain. The C part manages memory by hand, so the model keeps the multiset of live
  resources: what was allocated, created or retained and not yet freed or released. The
  Security framework and the X.509 parser are arguments.
\<close>

section \<open>Resources and the framework\<close>

datatype resource =
    CLabel | CFLabel | Query | Identity | Cert | CertData | CertBuf | PrivateKey | Attrs
  | DigestData | CFError | Description | MsgBuf | Signature | SigBuf

type_synonym ledger = "resource multiset"

abbreviation retain :: "resource \<Rightarrow> ledger \<Rightarrow> ledger" where
  "retain r L \<equiv> add_mset r L"

definition release :: "resource \<Rightarrow> ledger \<Rightarrow> ledger" where
  "release r L = L - {#r#}"

datatype SecKeyAlgorithm =
    ECDSASignatureDigestX962SHA256 | ECDSASignatureDigestX962SHA384 | ECDSASignatureDigestX962SHA512
  | RSASignatureDigestPKCS1v15SHA256 | RSASignatureDigestPKCS1v15SHA384 | RSASignatureDigestPKCS1v15SHA512
  | RSASignatureDigestPSSSHA256 | RSASignatureDigestPSSSHA384 | RSASignatureDigestPSSSHA512

text \<open>
  What the framework answers: whether a label is valid UTF-8, an identity for a label, its
  certificate and its key with their status codes, whether a key is an RSA key, and a
  signature or an error, which may be null or lack a description.
\<close>

record ('i, 'k) security =
  createLabel :: "string \<Rightarrow> bool"
  copyMatching :: "string \<Rightarrow> int \<times> 'i option"
  copyCertificate :: "'i \<Rightarrow> int \<times> string"
  copyPrivateKey :: "'i \<Rightarrow> int \<times> 'k"
  isRSA :: "'k \<Rightarrow> bool"
  createSignature :: "'k \<Rightarrow> SecKeyAlgorithm \<Rightarrow> string \<Rightarrow> string option option + string"

section \<open>The C functions\<close>

text \<open>\<open>e\<close>: the error reference, null or with an optional description.\<close>

definition copyErrorMessage :: "string option option \<Rightarrow> ledger \<Rightarrow> string option \<times> ledger" where
  "copyErrorMessage e L = (case e of
      None \<Rightarrow> (None, L)
    | Some None \<Rightarrow> (None, L)
    | Some (Some desc) \<Rightarrow> (Some desc, release Description (retain MsgBuf (retain Description L))))"

record 'k found =
  certOut :: "string option"   \<comment> \<open>\<open>None\<close>: the null pointer\<close>
  keyRefOut :: "'k option"
  keyTypeOut :: int

definition findIdentity ::
  "('i, 'k) security \<Rightarrow> string \<Rightarrow> ledger \<Rightarrow> int \<times> 'k found \<times> ledger" where
  "findIdentity sec label L =
     (let nothing = \<lparr>certOut = None, keyRefOut = None, keyTypeOut = 0\<rparr> in
      if \<not> createLabel sec label then (-1, nothing, L)
      else (case copyMatching sec label of (status, result) \<Rightarrow>
        (let L1 = retain Query (retain CFLabel L);
             L2 = (if result = None then L1 else retain Identity L1);
             L3 = release CFLabel (release Query L2) in
         case (status = 0, result) of
           (True, Some identity) \<Rightarrow>
             (case copyCertificate sec identity of (status', der) \<Rightarrow>
                if status' \<noteq> 0 then (status', nothing, release Identity L3)
                else (let L4 = retain CertBuf (retain CertData (retain Cert L3));
                          L5 = release Cert (release CertData L4) in
                  case copyPrivateKey sec identity of (status'', key) \<Rightarrow>
                    if status'' \<noteq> 0 then (status'', nothing, release CertBuf (release Identity L5))
                    else (let L6 = release Identity (retain PrivateKey L5);
                              L7 = release Attrs (retain Attrs L6) in
                      (0, \<lparr>certOut = Some der, keyRefOut = Some key,
                           keyTypeOut = (if isRSA sec key then 0 else 1)\<rparr>, L7))))
         | _ \<Rightarrow> (status, nothing, L3))))"

definition sec_algorithm :: "int \<Rightarrow> SecKeyAlgorithm option" where
  "sec_algorithm a =
     (if a = 0 then Some ECDSASignatureDigestX962SHA256
      else if a = 1 then Some ECDSASignatureDigestX962SHA384
      else if a = 2 then Some ECDSASignatureDigestX962SHA512
      else if a = 3 then Some RSASignatureDigestPKCS1v15SHA256
      else if a = 4 then Some RSASignatureDigestPKCS1v15SHA384
      else if a = 5 then Some RSASignatureDigestPKCS1v15SHA512
      else if a = 6 then Some RSASignatureDigestPSSSHA256
      else if a = 7 then Some RSASignatureDigestPSSSHA384
      else if a = 8 then Some RSASignatureDigestPSSSHA512
      else None)"

definition signDigest ::
  "('i, 'k) security \<Rightarrow> 'k \<Rightarrow> int \<Rightarrow> string \<Rightarrow> ledger \<Rightarrow> (int \<times> string option + string) \<times> ledger" where
  "signDigest sec key a digest L = (case sec_algorithm a of
      None \<Rightarrow> (Inl (-1, None), L)
    | Some algo \<Rightarrow>
        (let L1 = release DigestData (retain DigestData L) in
         case createSignature sec key algo digest of
           Inl e \<Rightarrow>
             (let L2 = (if e = None then L1 else retain CFError L1) in
              case copyErrorMessage e L2 of (msg, L3) \<Rightarrow>
                (Inl (-2, msg), if e = None then L3 else release CFError L3))
         | Inr sig \<Rightarrow> (Inr sig, release Signature (retain SigBuf (retain Signature L1)))))"

section \<open>The Go functions\<close>

definition keychainError :: "int \<Rightarrow> string option \<Rightarrow> ledger \<Rightarrow> go_error \<times> ledger" where
  "keychainError status cMsg L =
     (let msg = (case cMsg of None \<Rightarrow> [] | Some m \<Rightarrow> m);
          L' = (case cMsg of None \<Rightarrow> L | Some _ \<Rightarrow> release MsgBuf L) in
      (Plain (if status = -25300 then ''macoskeychain: identity not found''
         else ''macoskeychain: Security framework error '' @ itoa status
           @ (if msg \<noteq> [] then '': '' @ msg else [])), L'))"

datatype hash = SHA256 | SHA384 | SHA512 | OtherHash string

datatype signer_opts = HashOpts hash | PSSOptions hash

primrec HashFunc :: "signer_opts \<Rightarrow> hash" where
  "HashFunc (HashOpts h) = h"
| "HashFunc (PSSOptions h) = h"

primrec hash_name :: "hash \<Rightarrow> string" where
  "hash_name SHA256 = ''SHA-256''"
| "hash_name SHA384 = ''SHA-384''"
| "hash_name SHA512 = ''SHA-512''"
| "hash_name (OtherHash n) = n"

record ('k, 'p) keychainSigner =
  keyRef :: "'k option"
  pub :: 'p
  isEC :: bool

definition Public :: "('k, 'p) keychainSigner \<Rightarrow> 'p" where
  "Public s = pub s"

definition algorithm :: "('k, 'p) keychainSigner \<Rightarrow> signer_opts \<Rightarrow> go_error + int" where
  "algorithm s opts =
     (let h = HashFunc opts;
          pick = (\<lambda>base what. case h of SHA256 \<Rightarrow> Inr base | SHA384 \<Rightarrow> Inr (base + 1) | SHA512 \<Rightarrow> Inr (base + 2)
            | _ \<Rightarrow> Inl (Plain (''macoskeychain: unsupported '' @ what @ '' hash '' @ hash_name h))) in
      if isEC s then pick 0 ''EC''
      else (case opts of PSSOptions _ \<Rightarrow> pick 6 ''RSA-PSS'' | HashOpts _ \<Rightarrow> pick 3 ''RSA''))"

text \<open>\<^verbatim>\<open>&digest[0]\<close> panics for an empty digest.\<close>

definition Sign ::
  "('i, 'k) security \<Rightarrow> ('k, 'p) keychainSigner \<Rightarrow> string \<Rightarrow> signer_opts \<Rightarrow> ledger
    \<Rightarrow> ((go_error + string) \<times> ledger) outcome" where
  "Sign sec s digest opts L = (case algorithm s opts of
      Inl e \<Rightarrow> Returns (Inl e, L)
    | Inr algo \<Rightarrow>
        if digest = [] then Panics ''index out of range''
        else (case keyRef s of
            None \<Rightarrow> Panics ''SecKeyCreateSignature: null key''
          | Some key \<Rightarrow> (case signDigest sec key algo digest L of
              (Inl (rc, msg), L') \<Rightarrow> (case keychainError rc msg L' of (e, L'') \<Rightarrow> Returns (Inl e, L''))
            | (Inr sig, L') \<Rightarrow> Returns (Inr sig, release SigBuf L'))))"

record ('k, 'p) tls_Certificate =
  Certificate :: "string list"
  Signer :: "('k, 'p) keychainSigner"

definition LoadIdentity ::
  "('i, 'k) security \<Rightarrow> (string \<Rightarrow> go_error + 'p) \<Rightarrow> string \<Rightarrow> ledger
    \<Rightarrow> (go_error + ('k, 'p) tls_Certificate) \<times> ledger" where
  "LoadIdentity sec parse label L =
     (case findIdentity sec label (retain CLabel L) of (rc, f, L1) \<Rightarrow>
        if rc \<noteq> 0 then (case keychainError rc None L1 of (e, L2) \<Rightarrow> (Inl e, release CLabel L2))
        else (let certBytes = (case certOut f of None \<Rightarrow> [] | Some b \<Rightarrow> b);
                  L2 = (if certOut f = None then L1 else release CertBuf L1) in case parse certBytes of
            Inl e \<Rightarrow> (Inl (Wrapped ''macoskeychain: parsing certificate'' e), release CLabel L2)
          | Inr p \<Rightarrow> (Inr \<lparr>Certificate = [certBytes],
                Signer = \<lparr>keyRef = keyRefOut f, pub = p, isEC = (keyTypeOut f = 1)\<rparr>\<rparr>, release CLabel L2)))"

section \<open>Facts\<close>

lemma release_retain [simp]: "release r (retain r L) = L"
  by (simp add: release_def)

lemma release_other [simp]: "r \<noteq> q \<Longrightarrow> release r (retain q L) = retain q (release r L)"
  by (simp add: release_def)

text \<open>
  The framework's documented contract: a failed lookup leaves its result null, and a
  successful one returns an identity.
\<close>

definition sound_lookup :: "('i, 'k) security \<Rightarrow> bool" where
  "sound_lookup sec \<longleftrightarrow> (\<forall>label. (fst (copyMatching sec label) = 0) = (snd (copyMatching sec label) \<noteq> None))"

definition usable :: "('i, 'k) security \<Rightarrow> string \<Rightarrow> bool" where
  "usable sec label \<longleftrightarrow> createLabel sec label \<and> (case snd (copyMatching sec label) of
      None \<Rightarrow> False
    | Some i \<Rightarrow> fst (copyCertificate sec i) = 0 \<and> fst (copyPrivateKey sec i) = 0)"

lemma findIdentity_ledger:
  assumes "sound_lookup sec"
  shows "findIdentity sec label L = (rc, f, L') \<Longrightarrow>
     if usable sec label then rc = 0 \<and> certOut f \<noteq> None \<and> L' = retain PrivateKey (retain CertBuf L)
     else rc \<noteq> 0 \<and> L' = L"
proof -
  have "fst (copyMatching sec label) = 0 \<longleftrightarrow> snd (copyMatching sec label) \<noteq> None"
    using assms by (simp add: sound_lookup_def)
  then show "findIdentity sec label L = (rc, f, L') \<Longrightarrow> ?thesis"
    by (auto simp: findIdentity_def usable_def Let_def split: if_splits prod.splits option.splits bool.splits)
qed

lemma signDigest_ledger:
  "signDigest sec key a digest L = (r, L') \<Longrightarrow>
     L' = (case r of Inl (_, None) \<Rightarrow> L | Inl (_, Some _) \<Rightarrow> retain MsgBuf L | Inr _ \<Rightarrow> retain SigBuf L)"
  by (auto simp: signDigest_def copyErrorMessage_def Let_def split: option.splits sum.splits if_splits)

text \<open>The algorithm a key of one kind must use for the requested padding and hash.\<close>

fun expected_algorithm :: "bool \<Rightarrow> signer_opts \<Rightarrow> SecKeyAlgorithm option" where
  "expected_algorithm ec opts = (case (ec, opts) of
      (True, _) \<Rightarrow> (case HashFunc opts of
          SHA256 \<Rightarrow> Some ECDSASignatureDigestX962SHA256 | SHA384 \<Rightarrow> Some ECDSASignatureDigestX962SHA384
        | SHA512 \<Rightarrow> Some ECDSASignatureDigestX962SHA512 | OtherHash _ \<Rightarrow> None)
    | (False, PSSOptions h) \<Rightarrow> (case h of
          SHA256 \<Rightarrow> Some RSASignatureDigestPSSSHA256 | SHA384 \<Rightarrow> Some RSASignatureDigestPSSSHA384
        | SHA512 \<Rightarrow> Some RSASignatureDigestPSSSHA512 | OtherHash _ \<Rightarrow> None)
    | (False, HashOpts h) \<Rightarrow> (case h of
          SHA256 \<Rightarrow> Some RSASignatureDigestPKCS1v15SHA256 | SHA384 \<Rightarrow> Some RSASignatureDigestPKCS1v15SHA384
        | SHA512 \<Rightarrow> Some RSASignatureDigestPKCS1v15SHA512 | OtherHash _ \<Rightarrow> None))"

lemma algorithm_expected:
  "(case algorithm s opts of Inl _ \<Rightarrow> None | Inr a \<Rightarrow> sec_algorithm a) = expected_algorithm (isEC s) opts"
  by (cases opts) (auto simp: algorithm_def sec_algorithm_def Let_def split: hash.splits)

lemma algorithm_known: "algorithm s opts = Inr a \<Longrightarrow> sec_algorithm a \<noteq> None"
  by (cases opts) (auto simp: algorithm_def sec_algorithm_def Let_def split: hash.splits if_splits)

lemma Sign_ledger: "Sign sec s digest opts L = Returns (r, L') \<Longrightarrow> L' = L"
  by (auto simp: Sign_def keychainError_def Let_def
      split: sum.splits if_splits option.splits prod.splits dest!: signDigest_ledger)

section \<open>Properties\<close>

text \<open>
  C19: The hand-managed memory of the keychain client balances. Loading an identity frees and
  releases everything it allocated, on every path, except the private key reference, which
  is kept exactly when the keychain has a certificate and a key for the label (also when the
  certificate then does not parse and an error is returned); signing leaves nothing behind,
  whether it succeeds or fails.
\<close>

theorem keychain_memory_balances:
  assumes "sound_lookup sec"
  shows "snd (LoadIdentity sec parse label L) = (if usable sec label then retain PrivateKey L else L)
     \<and> (Sign sec s digest opts L = Returns (r, L') \<longrightarrow> L' = L)"
proof -
  obtain rc f L1 where f: "findIdentity sec label (retain CLabel L) = (rc, f, L1)"
    by (metis prod_cases3)
  from findIdentity_ledger [OF assms f]
  have "snd (LoadIdentity sec parse label L) = (if usable sec label then retain PrivateKey L else L)"
    by (auto simp: LoadIdentity_def f keychainError_def Let_def split: sum.splits if_splits option.splits)
  with Sign_ledger show ?thesis by blast
qed

definition demo_security :: "(nat, nat) security" where
  "demo_security = \<lparr>createLabel = (\<lambda>_. True), copyMatching = (\<lambda>l. if l = ''me'' then (0, Some 7) else (-25300, None)),
     copyCertificate = (\<lambda>_. (0, ''der'')), copyPrivateKey = (\<lambda>_. (0, 9)), isRSA = (\<lambda>_. False),
     createSignature = (\<lambda>k a d. Inr (''signed '' @ d))\<rparr>"

theorem keychain_memory_balances_witness:
  "snd (LoadIdentity demo_security (\<lambda>d. Inl (Plain ''bad'')) ''me'' {#}) = {#PrivateKey#}
   \<and> snd (LoadIdentity demo_security (\<lambda>d. Inr ()) ''you'' {#}) = {#}"
proof -
  have s: "sound_lookup demo_security" by (simp add: sound_lookup_def demo_security_def)
  have "usable demo_security ''me''" "\<not> usable demo_security ''you''"
    by (simp_all add: usable_def demo_security_def)
  with keychain_memory_balances [OF s, THEN conjunct1, of "\<lambda>d. Inl (Plain ''bad'')" "''me''" "{#}"]
    keychain_memory_balances [OF s, THEN conjunct1, of "\<lambda>d. Inr ()" "''you''" "{#}"]
  show ?thesis by simp
qed

text \<open>
  C20: A signature is made with the algorithm that fits the kind of the key, the padding the
  caller asked for and its hash, and with no other: the number the Go code passes and the
  table of the C code agree. Any other hash is refused without calling the framework.
\<close>

theorem sign_uses_expected_algorithm:
  assumes "digest \<noteq> []" and "keyRef s = Some key"
  shows "\<exists>r. Sign sec s digest opts L = Returns (r, L)
     \<and> (case expected_algorithm (isEC s) opts of
           None \<Rightarrow> \<exists>e. r = Inl e
         | Some algo \<Rightarrow> (\<forall>sig. r = Inr sig \<longleftrightarrow> createSignature sec key algo digest = Inr sig))"
proof (cases "algorithm s opts")
  case (Inl e)
  with algorithm_expected [of s opts] have "expected_algorithm (isEC s) opts = None" by simp
  with Inl show ?thesis by (simp add: Sign_def)
next
  case (Inr a)
  with algorithm_expected [of s opts] algorithm_known [OF Inr]
  obtain algo where "expected_algorithm (isEC s) opts = Some algo" "sec_algorithm a = Some algo" by auto
  with Inr assms show ?thesis
    by (auto simp: Sign_def signDigest_def copyErrorMessage_def keychainError_def Let_def
        simp del: expected_algorithm.simps split: sum.splits option.splits)
qed

theorem sign_uses_expected_algorithm_witness:
  "(let s = \<lparr>keyRef = Some 9, pub = (), isEC = True\<rparr> in
     \<exists>r. Sign demo_security s ''abc'' (HashOpts SHA384) {#} = Returns (r, {#})
       \<and> (\<forall>sig. r = Inr sig \<longleftrightarrow>
             createSignature demo_security 9 ECDSASignatureDigestX962SHA384 ''abc'' = Inr sig))"
  using sign_uses_expected_algorithm [of "''abc''" "\<lparr>keyRef = Some 9, pub = (), isEC = True\<rparr>" 9
      demo_security "HashOpts SHA384" "{#}"] by simp

end
