(* ===== verification/Protocgen.thy ===== *)
theory Protocgen
  imports Terrors
begin

text \<open>
  \<^verbatim>\<open>cmd/protoc-gen-devgo/main.go\<close>: the protoc plugin that generates, for every RPC of a proto
  file, a function calling it over a shared client. A generated file is the list of lines
  printed to it; qualifying an identifier by its import path is the plugin library's, and
  an argument.
\<close>

section \<open>Descriptors\<close>

type_synonym go_ident = "string \<times> string"   \<comment> \<open>import path and name\<close>

record proto_method =
  Method_GoName :: string
  Leading :: string
  Input :: go_ident
  Output :: go_ident
  IsStreamingClient :: bool
  IsStreamingServer :: bool

record proto_service =
  Service_GoName :: string
  Methods :: "proto_method list"

record proto_file =
  GeneratedFilenamePrefix :: string
  GoPackageName :: string
  Services :: "proto_service list"
  Generate :: bool

definition contextPackage :: string where "contextPackage = ''context''"
definition grpcPackage :: string where "grpcPackage = ''google.golang.org/grpc''"
definition syncPackage :: string where "syncPackage = ''sync''"
definition bedrockPackage :: string where
  "bedrockPackage = ''github.com/cottand/selfhosted/dev-go/lib/bedrock''"

type_synonym qualify = "go_ident \<Rightarrow> string"

section \<open>Generation\<close>

definition loadClientFunc :: "qualify \<Rightarrow> proto_service \<Rightarrow> string list" where
  "loadClientFunc q service =
     (let clientName = Service_GoName service @ ''Client'' in
      [''var loadClient = '' @ q (syncPackage, ''OnceValues'') @ ''(func() ('' @ clientName @ '', error) {'',
       ''conn, err := '' @ q (bedrockPackage, ''NewGrpcConn'') @ ''()'',
       ''if err != nil {'',
       ''return nil, err'',
       ''}'',
       ''return New'' @ clientName @ ''(conn), nil'',
       ''})''])"

definition clientStreamInterface :: "qualify \<Rightarrow> proto_method \<Rightarrow> string" where
  "clientStreamInterface q m =
     (let typeParam = q (Input m) @ '', '' @ q (Output m) in
      if IsStreamingClient m \<and> IsStreamingServer m then q (grpcPackage, ''BidiStreamingClient'') @ ''['' @ typeParam @ '']''
      else if IsStreamingClient m then q (grpcPackage, ''ClientStreamingClient'') @ ''['' @ typeParam @ '']''
      else q (grpcPackage, ''ServerStreamingClient'') @ ''['' @ q (Output m) @ '']'')"

definition signature :: "qualify \<Rightarrow> proto_method \<Rightarrow> string" where
  "signature q m = Leading m @ ''func '' @ Method_GoName m @ ''(ctx '' @ q (contextPackage, ''Context'')
     @ (if \<not> IsStreamingClient m then '', in *'' @ q (Input m) else [])
     @ '', opts ...'' @ q (grpcPackage, ''CallOption'') @ '') (''
     @ (if \<not> IsStreamingClient m \<and> \<not> IsStreamingServer m then ''*'' @ q (Output m)
        else clientStreamInterface q m)
     @ '', error) {''"

definition clientCall :: "qualify \<Rightarrow> proto_method \<Rightarrow> err \<times> string list" where
  "clientCall q m =
     (let opening = [signature q m, ''client, err := loadClient()'', ''if err != nil {'', ''return nil, err'', ''}''] in
      if \<not> IsStreamingClient m
      then (None, opening @ [''return client.'' @ Method_GoName m @ ''(ctx, in, opts...)'', ''}'', []])
      else (Some (Plain (''streaming client not implemented yet: '' @ Method_GoName m)), opening))"

fun clientCalls :: "qualify \<Rightarrow> proto_method list \<Rightarrow> err \<times> string list" where
  "clientCalls q [] = (None, [])"
| "clientCalls q (m # ms) = (case clientCall q m of
      (Some e, ls) \<Rightarrow> (Some e, ls)
    | (None, ls) \<Rightarrow> (case clientCalls q ms of (r, ls') \<Rightarrow> (r, ls @ ls')))"

text \<open>\<^verbatim>\<open>file.Services[0]\<close> panics for a file without services.\<close>

definition generateFile :: "qualify \<Rightarrow> proto_file \<Rightarrow> (err \<times> string list) outcome" where
  "generateFile q f =
     (let header = [''// Code generated by protocplugin. DO NOT EDIT.'', [], ''package '' @ GoPackageName f, []] in
      case Services f of
        [] \<Rightarrow> Panics ''index out of range''
      | service # _ \<Rightarrow> (case clientCalls q (concat (map Methods (Services f))) of
          (r, ls) \<Rightarrow> Returns (r, header @ loadClientFunc q service @ ls)))"

text \<open>\<^verbatim>\<open>main\<close> drops the error of \<^verbatim>\<open>generateFile\<close>: what was printed so far is handed to the
  plugin library, which formats it.\<close>

fun protocgen_main :: "qualify \<Rightarrow> proto_file list \<Rightarrow> (string \<times> string list) list outcome" where
  "protocgen_main q [] = Returns []"
| "protocgen_main q (f # fs) =
     (if \<not> Generate f then protocgen_main q fs
      else bind_outcome (generateFile q f) (\<lambda>(_, ls).
        bind_outcome (protocgen_main q fs) (\<lambda>rest.
          Returns ((GeneratedFilenamePrefix f @ ''_devgo.pb.go'', ls) # rest))))"

section \<open>Facts\<close>

text \<open>How many braces a text leaves open.\<close>

definition depth :: "string \<Rightarrow> int" where
  "depth s = int (count_list s (CHR ''{'')) - int (count_list s (CHR ''}''))"

definition depth_lines :: "string list \<Rightarrow> int" where
  "depth_lines ls = sum_list (map depth ls)"

lemma depth_append [simp]: "depth (a @ b) = depth a + depth b"
  by (simp add: depth_def)

lemma depth_Nil [simp]: "depth [] = 0"
  by (simp add: depth_def)

lemma depth_Cons [simp]:
  "depth (c # s) = (if c = CHR ''{'' then 1 else if c = CHR ''}'' then -1 else 0) + depth s"
  by (simp add: depth_def)

lemma depth_lines_simps [simp]:
  "depth_lines [] = 0" "depth_lines (l # ls) = depth l + depth_lines ls"
  "depth_lines (xs @ ys) = depth_lines xs + depth_lines ys"
  by (simp_all add: depth_lines_def)

text \<open>Identifiers and comments that leave no brace open.\<close>

definition plain_method :: "proto_method \<Rightarrow> bool" where
  "plain_method m \<longleftrightarrow> depth (Method_GoName m) = 0 \<and> depth (Leading m) = 0"

definition plain_idents :: "qualify \<Rightarrow> bool" where
  "plain_idents q \<longleftrightarrow> (\<forall>i. depth (q i) = 0)"

definition plain_file :: "qualify \<Rightarrow> proto_file \<Rightarrow> bool" where
  "plain_file q f \<longleftrightarrow> plain_idents q \<and> depth (GoPackageName f) = 0
     \<and> list_all (\<lambda>s. depth (Service_GoName s) = 0 \<and> list_all plain_method (Methods s)) (Services f)"

lemma plain_ident [simp]: "plain_idents q \<Longrightarrow> depth (q i) = 0"
  by (simp only: plain_idents_def)

lemma signature_depth: "plain_method m \<Longrightarrow> plain_idents q \<Longrightarrow> depth (signature q m) = 1"
  by (simp add: signature_def clientStreamInterface_def plain_method_def Let_def)

lemma clientCall_depth:
  "plain_method m \<Longrightarrow> plain_idents q \<Longrightarrow>
     (fst (clientCall q m) = None \<longleftrightarrow> \<not> IsStreamingClient m)
     \<and> depth_lines (snd (clientCall q m)) = (if IsStreamingClient m then 1 else 0)"
  by (simp add: clientCall_def Let_def signature_depth plain_method_def)

lemma clientCalls_depth:
  "list_all plain_method ms \<Longrightarrow> plain_idents q \<Longrightarrow>
     (fst (clientCalls q ms) = None \<longleftrightarrow> list_all (\<lambda>m. \<not> IsStreamingClient m) ms)
     \<and> depth_lines (snd (clientCalls q ms)) = (if list_all (\<lambda>m. \<not> IsStreamingClient m) ms then 0 else 1)"
proof (induction ms)
  case (Cons m ms)
  then show ?case using clientCall_depth [of m q]
    by (auto split: prod.splits option.splits)
qed simp

lemma plain_methods: "plain_file q f \<Longrightarrow> list_all plain_method (concat (map Methods (Services f)))"
  by (auto simp: plain_file_def list_all_iff)

section \<open>Properties\<close>


definition demo_proto :: proto_file where
  "demo_proto = \<lparr>GeneratedFilenamePrefix = ''s'', GoPackageName = ''s'', Services = [\<lparr>Service_GoName = ''Mqtt'',
     Methods = [\<lparr>Method_GoName = ''Watch'', Leading = [], Input = (''p'', ''In''), Output = (''p'', ''Out''),
       IsStreamingClient = False, IsStreamingServer = True\<rparr>]\<rparr>], Generate = True\<rparr>"


end
