(* ===== verification/Spec2Isabelle.thy ===== *)
theory Spec2Isabelle
  imports Services Metrics Recovery_Interleavings Keychain Protocgen
begin

text \<open>
  A verification of the Go programs of \<^verbatim>\<open>cottand/selfhosted\<close> (\<^verbatim>\<open>src/dev-go\<close>): one process that runs
  eleven small services for a home and its web sites, a periodic job and three command-line
  tools.

  \<^bold>\<open>How the program is put together.\<close> \<^verbatim>\<open>services/main.go\<close> registers a hook per service; \<^verbatim>\<open>lib/bedrock\<close>
  starts telemetry and the database, calls the hooks, serves gRPC and metrics, translates
  errors to gRPC codes and shuts the services down. Services call each other over gRPC:
  the home page uses the MQTT and the Prometheus service, the flight map the flight service,
  the autoscaler the Nomad service, the portfolio site its statistics and Prometheus, the
  snapshot job the Vault service. The MQTT service is the largest: it keeps a table of lights,
  calls devices by request and reply over MQTT topics, follows their notifications, elects
  a leader with a Consul lock, reacts to buttons and broadcasts changes to subscribers.

  \<^bold>\<open>Theories and sources.\<close>
  \<^item> \<^verbatim>\<open>Prelude\<close>: Go strings, numbers, panics as outcomes, runs of step functions.
    \<^verbatim>\<open>Terrors\<close>: error values (\<^verbatim>\<open>vendor/github.com/monzo/terrors\<close>, \<^verbatim>\<open>errors\<close>, \<^verbatim>\<open>fmt\<close>). \<^verbatim>\<open>Channels\<close>: buffered Go channels.
    \<^verbatim>\<open>Go_Json\<close>: decoding of JSON values into structs. \<^verbatim>\<open>Go_Float\<close>: floats as text.
  \<^item> \<^verbatim>\<open>Context\<close>: \<^verbatim>\<open>lib/util\<close> and the module name in a context. \<^verbatim>\<open>Bedrock\<close>: base configuration and
    database. \<^verbatim>\<open>Telemetry\<close>: log handlers, tracing, \<^verbatim>\<open>lib/cron\<close> and the loop that refreshes statistics.
    \<^verbatim>\<open>Mono\<close>: the server (\<^verbatim>\<open>lib/bedrock/mono.go\<close>, \<^verbatim>\<open>grpc.go\<close>). \<^verbatim>\<open>Consul\<close>: \<^verbatim>\<open>lib/config\<close>
    and \<^verbatim>\<open>lib/locks\<close>. \<^verbatim>\<open>Secrets\<close>: \<^verbatim>\<open>lib/secretstore\<close>, \<^verbatim>\<open>lib/bigq\<close>, \<^verbatim>\<open>lib/objectstore\<close>.
    \<^verbatim>\<open>Keychain\<close>: \<^verbatim>\<open>lib/macoskeychain\<close>.
  \<^item> \<^verbatim>\<open>services/s-rpc-mqtt\<close>: \<^verbatim>\<open>Broadcaster\<close> (the fan-out of updates), \<^verbatim>\<open>Mqtt_Lights\<close> (table and operations),
    \<^verbatim>\<open>Shelly_Rpc\<close> (request and reply), \<^verbatim>\<open>Mqtt_Watch\<close> (notifications, the broadcasting loop),
    \<^verbatim>\<open>Leader\<close> (the loop of \<^verbatim>\<open>leaderLightWatch\<close> and its replicas), \<^verbatim>\<open>Mqtt_Button\<close> (buttons and thermometer), \<^verbatim>\<open>Mqtt_Handler\<close> (gRPC, start).
  \<^item> \<^verbatim>\<open>Web_Home\<close>, \<^verbatim>\<open>Flights\<close> and \<^verbatim>\<open>Web_Flights\<close>, \<^verbatim>\<open>Portfolio\<close> (\<^verbatim>\<open>s-rpc-portfolio-stats\<close> and \<^verbatim>\<open>s-web-portfolio\<close>),
    \<^verbatim>\<open>Webhook\<close>, \<^verbatim>\<open>Nomad\<close> (\<^verbatim>\<open>s-rpc-nomad-api\<close> and \<^verbatim>\<open>s-rpc-autoscaler\<close>), \<^verbatim>\<open>Prometheus\<close>, \<^verbatim>\<open>Vault_Snapshot\<close>
    (\<^verbatim>\<open>s-rpc-vault\<close> and \<^verbatim>\<open>cron-vault-snapshot\<close>): the other services. \<^verbatim>\<open>Services\<close>: the process.
    \<^verbatim>\<open>Metrics\<close>: the Prometheus metrics of all services and the rules under which they register.
  \<^item> \<^verbatim>\<open>Cloudreve\<close>, \<^verbatim>\<open>Recovery\<close>, \<^verbatim>\<open>Protocgen\<close>: the tools under \<^verbatim>\<open>cmd\<close>. \<^verbatim>\<open>Recovery_Outcome\<close>: what a
    recovery run leaves behind, as a specification in one step. \<^verbatim>\<open>Recovery_Concurrent\<close>: its
    goroutines, interleaved request by request under their semaphores. \<^verbatim>\<open>Recovery_Interleavings\<close>:
    what every interleaving keeps and leaves behind.

  Definitions carry the names of the Go functions, with a prefix where several modules use a
  name. A Go \<^verbatim>\<open>error\<close> is an option, a result with an error a sum, a panic or \<^verbatim>\<open>log.Fatal\<close> the outcome
  \<^const>\<open>Panics\<close>. What is outside the sources (devices, brokers, databases, HTTP and cloud
  clients, clocks, hashes, template rendering) is an argument: a function or a record of
  functions that may thread a state of the world. Goroutines are interleaved as the code
  allows: the broadcaster and the watcher are step functions run over arbitrary sequences of
  steps, the leader loop and the recovery walk step relations; concurrent fetches, uploads
  and cache updates take the order in which they finish as an argument.

  \<^bold>\<open>What is shown.\<close> The broadcaster never panics and loses nothing silently for every
  interleaving; a device call cleans up on every path and takes the first reply on its own
  topic; requests for lights are validated before a device is contacted; a notified change
  reaches the subscribers; the replicas and Consul refine an election with at most one leader
  in force, a replica told that its lock is lost keeps the lock, and one whose client failed
  never leads; buttons are deduplicated and double presses alternate. The server
  isolates services that fail to start, translates errors independently of map order and
  recovers names from method paths; \<^verbatim>\<open>Services\<close> composes the hooks of all services with it.
  A log line carries the attributes of logger, call and context, in order, and its errors are recorded
  in the span; the statistics loops run until they are cancelled; all metrics register.
  Temperatures are queried no more often than the caching period, pages do not depend on the
  order of answers, events read back as rendered and a page is told of a temperature only
  when it changed. Distances are great-circle distances, the gauges are sums over flights. Uploads send an object once, in order, and end; a
  recovery run is confined to what it may write, ends on finite trees and on a filer that works
  leaves exactly the specified files, however its goroutines interleave. Keychain memory
  balances and its two algorithm tables agree. The webhook accepts exactly the authentic
  pushes, and a visit to the portfolio site is stored with exactly the stated fingerprint. This theory follows a light form from the browser to the device and a sample from
  Prometheus to the page. Several theorems state behaviour that is probably not intended.

  The contracts between parts are locales: values created once (\<^verbatim>\<open>Consul\<close>), error wrapping (\<^verbatim>\<open>Terrors\<close>),
  channels, the step invariants, and the device contract of the lights, each interpreted
  on the definitions that provide it.

  \<^bold>\<open>Bounds and fuel.\<close> Machine integers are 32-bit words where the code converts to \<^verbatim>\<open>int32\<close> and
  \<^verbatim>\<open>Atoi\<close> checks 64 bits; counters are natural numbers. The chunk loop of an upload is a partial
  function whose termination is proved for every chunk size; the walk of a recovery run
  takes fuel for nested pages, and any amount above the rank of the tree gives the same
  report. The loop that refreshes statistics is a partial function over the answers of the
  context: it is shown to return when some answer is a cancellation, and not to otherwise.

  \<^bold>\<open>Not modelled.\<close> The rounding of \<^verbatim>\<open>float64\<close>, the lexical syntax of JSON and CSV, stack traces of
  errors, the text of log lines (their attributes are), TLS and server timeouts, the
  unsynchronised counters of the recovery tool as a data race, generated code (protobuf, page
  templates) and the libraries behind the clients.
\<close>

section \<open>Statuses of lights\<close>

text \<open>A status that fits the table of lights: only dimmable lights have a brightness.\<close>

definition wf_status :: "pb_LightStatus \<Rightarrow> bool" where
  "wf_status v \<longleftrightarrow> (\<exists>l \<in> set lights. Status_Id v = light_id l \<and> Status_Dimmable v = dimmable l
     \<and> (Status_Brightness v \<noteq> None \<longleftrightarrow> dimmable l))"

lemma getLight_wf: "getLight rpc i w = (Inr v, w') \<Longrightarrow> wf_status v \<and> Status_Id v = i"
  by (auto simp: getLight_def light_status_def wf_status_def dest!: findLight_Inr
      split: sum.splits prod.splits)

lemma SetLight_wf: "Mqtt_Handler.SetLight rpc req w = (Inr v, w') \<Longrightarrow> wf_status v \<and> Status_Id v = Req_Id req"
  by (auto simp: Mqtt_Handler.SetLight_def split: prod.splits option.splits dest: getLight_wf)

lemma broadcast_wf:
  assumes "watch_inv s" "distinct order" "set order = set (subscribers (lightUpdates s))"
    and "broadcastLightChanges rpc order s w = Some (Returns (s', w'))"
    and "\<forall>v \<in> set (queued (chans (lightUpdates s) i)). wf_status v"
  shows "\<forall>v \<in> set (queued (chans (lightUpdates s') i)). wf_status v"
proof -
  have lb: "lb_inv (lightUpdates s)" using assms(1) by (simp add: watch_inv_def)
  have pub: "publish order v (lightUpdates s) = Returns (deliver (set (subscribers (lightUpdates s))) v (lightUpdates s))" for v
    using lb assms(2,3) by (rule lb_publish_eq)
  from assms(4) consider "lightUpdates s' = lightUpdates s"
    | v where "wf_status v" "lightUpdates s' = deliver (set (subscribers (lightUpdates s))) v (lightUpdates s)"
    by (auto simp: broadcastLightChanges_def Let_def pub split: prod.splits received.splits sum.splits
        dest!: getLight_wf)
  then show ?thesis using assms(5) by cases (auto simp: deliver_def)
qed

text \<open>
  C33: Every light status that leaves the MQTT service is well typed, whatever the devices
  answer: it names a light of the table, has the dimmable flag of that light and a
  brightness exactly when the light is dimmable. This holds for the answers to reading and
  to setting a light, which are about the light asked for, and is kept for the queues of all
  subscribers by every turn of the broadcasting loop.
\<close>

theorem light_statuses_well_typed:
  assumes "watch_inv s" and "distinct order" and "set order = set (subscribers (lightUpdates s))"
    and "broadcastLightChanges rpc order s w = Some (Returns (s', w'))"
    and "\<forall>i. \<forall>v \<in> set (queued (chans (lightUpdates s) i)). wf_status v"
  shows "(\<forall>i. \<forall>v \<in> set (queued (chans (lightUpdates s') i)). wf_status v)
     \<and> (\<forall>x v w1 w2. Mqtt_Handler.GetLight rpc x w1 = (Inr v, w2) \<longrightarrow> wf_status v \<and> Status_Id v = x)
     \<and> (\<forall>req v w1 w2. Mqtt_Handler.SetLight rpc req w1 = (Inr v, w2) \<longrightarrow> wf_status v \<and> Status_Id v = Req_Id req)"
  using broadcast_wf [OF assms(1-4)] assms(5)
  by (auto simp: Mqtt_Handler.GetLight_def dest: getLight_wf SetLight_wf)

theorem light_statuses_well_typed_witness:
  "\<exists>s' w'. broadcastLightChanges sim_rpc [] (newScaffold\<lparr>lightChanged := (lightChanged newScaffold)\<lparr>queued := [''rgb105'']\<rparr>\<rparr>)
       (\<lambda>_. (True, 5)) = Some (Returns (s', w'))
     \<and> (\<forall>i. \<forall>v \<in> set (queued (chans (lightUpdates s') i)). wf_status v)"
proof -
  let ?s = "newScaffold\<lparr>lightChanged := (lightChanged newScaffold)\<lparr>queued := [''rgb105'']\<rparr>\<rparr>"
  have i: "watch_inv ?s" using watch_inv_new by (simp add: watch_inv_def newScaffold_def lightChangedBuffer_def lights_def)
  have e: "subscribers (lightUpdates ?s) = []" "\<forall>i. queued (chans (lightUpdates ?s) i) = []"
    by (simp_all add: newScaffold_def newLightBroadcaster_def make_chan_def)
  obtain s' w' where b: "broadcastLightChanges sim_rpc [] ?s (\<lambda>_. (True, 5)) = Some (Returns (s', w'))"
    by (cases "getLight sim_rpc ''rgb105'' (\<lambda>_. (True, 5))"; cases "fst (getLight sim_rpc ''rgb105'' (\<lambda>_. (True, 5)))")
      (auto simp: broadcastLightChanges_def recv_def Let_def newScaffold_def)
  with light_statuses_well_typed [OF i _ _ b] e show ?thesis by simp
qed

section \<open>From the browser to the device\<close>

lemma to_int32_sint: "to_int32 (sint (to_int32 p)) = to_int32 p"
  by (simp add: to_int32_def)

lemma SetLight_out_of_range:
  assumes "l \<in> set lights" "dimmable l" "sint b < 0 \<or> 100 < sint b"
  shows "\<exists>e. Mqtt_Handler.SetLight rpc \<lparr>Req_Id = light_id l, Req_On = on, Req_Brightness = Some b\<rparr> w = (Inl e, w)"
  using assms by (auto simp: Mqtt_Handler.SetLight_def setLight_def check_brightness_def)

lemma withTemp_same:
  assumes "\<forall>q w. st (snd (queryInstant ops q w)) = st w" and "withTemp ops row s w = (row', s', w')"
  shows "st w' = st w \<and> ID row' = ID row \<and> On row' = On row \<and> Light_Brightness row' = Light_Brightness row"
proof -
  have "st (snd (snd (temperature ops p q c w))) = st w" for p q c
    using assms(1) by (auto simp: temperature_def fetchTemp_def Let_def split: prod.splits sum.splits option.splits) (metis snd_conv)+
  then have "st (snd (snd (aquariumTemp ops s w))) = st w"
    by (simp add: aquariumTemp_def split: prod.splits) (metis snd_conv)
  with assms(2) show ?thesis
    by (auto simp: withTemp_def split: if_splits prod.splits)
qed

lemma form_request_of:
  assumes "form_on f = format_bool on" "form_brightness f \<noteq> []" "atoi (form_brightness f) = Some p"
  shows "form_request f = Some \<lparr>Req_Id = path_id f, Req_On = Some on, Req_Brightness = Some (to_int32 p)\<rparr>"
  using assms by (cases on) (simp_all add: form_request_def format_bool_def Let_def)



section \<open>From the sensor to the page\<close>

text \<open>The calls of the web service to the Prometheus service.\<close>

definition via_prometheus ::
  "('w \<Rightarrow> int) \<Rightarrow> (string \<Rightarrow> (go_error + model_Value) \<times> string list) \<Rightarrow> 'w world_ops" where
  "via_prometheus clk query = \<lparr>clock = clk,
     queryInstant = (\<lambda>q w. (case QueryInstant query q of Inl e \<Rightarrow> Inl e | Inr r \<Rightarrow> Inr (QueryInstantResponse.Result r), w))\<rparr>"

text \<open>
  C18: What a page shows for a thermometer, through the web service, the Prometheus service and
  back: the first sample of the query's vector to one decimal, or the mark for an unknown
  temperature when the query fails, returns no sample or a result that is not a vector. A
  page that reads within the caching period shows the same value without a new query.
\<close>

theorem page_shows_sample:
  assumes "\<forall>x rest. fst (query q) = Inr (Vector (Finite x # rest)) \<longrightarrow> decimal_places x \<noteq> None"
    and "\<not> fresh (via_prometheus clk query) p cached w"
    and "temperature (via_prometheus clk query) p q cached w = (t, cached', w')"
  shows "t = (case fst (query q) of Inr (Vector (x # _)) \<Rightarrow> format_1f x @ degrees | _ \<Rightarrow> tempUnknown)
     \<and> (clk w2 < clk w' + p \<longrightarrow> temperature (via_prometheus clk query) p q cached' w2 = (t, cached', w2))"
proof -
  have r: "fetchTemp (via_prometheus clk query) q w = (case fst (query q) of
       Inr (Vector (x # _)) \<Rightarrow> (Inr (format_1f x @ degrees), w)
     | _ \<Rightarrow> (Inl (the (Augment (case QueryInstant query q of Inl e \<Rightarrow> Some e | Inr _ \<Rightarrow> None) ''failed to query temperature'' [])), w))"
  proof -
    have "parse_float (format_f x) = Some x" if "fst (query q) = Inr (Vector (x # rest))" for x rest
      using assms(1) that by (intro format_f_parses) auto
    then show ?thesis
      by (auto simp: fetchTemp_def via_prometheus_def QueryInstant_def
          split: sum.splits prod.splits model_Value.splits list.splits)
  qed
  show ?thesis
    using assms(2,3) r
    by (auto simp: temperature_def fresh_def Let_def via_prometheus_def
        split: sum.splits prod.splits model_Value.splits list.splits)
qed

theorem page_shows_sample_witness:
  "fst (temperature (via_prometheus id (\<lambda>_. (Inr (Vector [Finite (49 / 2)]), []))) tempPeriod roomTempQuery empty_temp (7 :: int))
     = ''24.5'' @ degrees"
proof -
  define h :: rat where "h = 49 / 2"
  have d: "decimal_places h \<noteq> None" unfolding h_def by code_simp
  have f: "format_1f (Finite h) = ''24.5''" unfolding h_def by code_simp
  let ?q = "\<lambda>_. (Inr (Vector [Finite h]), [])"
  obtain t c w' where t: "temperature (via_prometheus id ?q) tempPeriod roomTempQuery empty_temp 7 = (t, c, w')"
    by (metis prod_cases3)
  have "\<not> fresh (via_prometheus id ?q) tempPeriod empty_temp 7" by (simp add: fresh_def empty_temp_def)
  from page_shows_sample [OF _ this t] d f have "t = ''24.5'' @ degrees" by simp
  with t show ?thesis by (simp add: h_def)
qed


section \<open>Publishing statistics\<close>

text \<open>What the spans of a loop's turns report: always success, with the error of a turn that failed.\<close>

definition spans_report :: "span list \<Rightarrow> (nat \<Rightarrow> err) \<Rightarrow> bool" where
  "spans_report spans errs \<longleftrightarrow> (\<forall>k < length spans. span_code (spans ! k) = StatusOk
     \<and> span_errors (spans ! k) = (case errs k of None \<Rightarrow> [] | Some x \<Rightarrow> [error_text x]))"

lemma refresh_loop_report:
  assumes "\<forall>t s. t \<le> snd (snd (turn t s)) \<and> snd (snd (turn t s)) \<le> t + longest" "0 < rate"
  shows "\<exists>s' spans t'. refresh_loop turn rate (Some c) now s = Some (s', spans, t')
    \<and> c \<le> t' \<and> t' \<le> max now (c + rate) + longest
    \<and> spans_report spans (\<lambda>k. fst (nth_turn turn rate now s k))"
proof -
  have "\<And>t s. t \<le> snd (snd (turn t s))" "\<And>t s. snd (snd (turn t s)) \<le> t + longest"
    using assms(1) by blast+
  from refresh_loop_returns [where turn = turn, OF this assms(2), where c = c and now = now and s = s] obtain s' spans t' where
    r: "refresh_loop turn rate (Some c) now s = Some (s', spans, t')" "c \<le> t'" "t' \<le> max now (c + rate) + longest"
    and spans: "\<forall>k < length spans. spans ! k = refresh_span (fst (nth_turn turn rate now s k))"
    by blast
  from spans have "spans_report spans (\<lambda>k. fst (nth_turn turn rate now s k))"
    by (simp add: spans_report_def)
  with r show ?thesis by blast
qed

lemma turn_ends:
  "snd (snd (flights_turn fa t g)) = snd (fa t)" "snd (snd (visits_turn va t v)) = snd (snd (va t))"
  by (simp_all add: flights_turn_def visits_turn_def split: prod.splits)

text \<open>
  C26: The flight and the visit statistics are refreshed until the service is cancelled,
  whatever the refreshes answer: without a cancellation the loops never end; with one, and
  turns that take a bounded time, they end after it, but only once a turn looks at it, which
  is up to ten minutes and half a minute of sleep and a turn later. Every turn is traced by a
  span that reports success, also the turns that failed.
\<close>

theorem statistics_refresh_until_cancelled:
  assumes "\<forall>t. t \<le> snd (fa t) \<and> snd (fa t) \<le> t + longest"
    and "\<forall>t. t \<le> snd (snd (va t)) \<and> snd (snd (va t)) \<le> t + longest"
  shows "flights_RefreshPromStats fa None now g = None \<and> visits_RefreshPromStats va None now v = None
     \<and> (\<exists>g' spans t. flights_RefreshPromStats fa (Some c) now g = Some (g', spans, t)
          \<and> c \<le> t \<and> t \<le> max now (c + 600) + longest
          \<and> spans_report spans (\<lambda>k. fst (nth_turn (flights_turn fa) flights_refreshRate now g k)))
     \<and> (\<exists>v' spans t. visits_RefreshPromStats va (Some c) now v = Some (v', spans, t)
          \<and> c \<le> t \<and> t \<le> max now (c + 30) + longest
          \<and> spans_report spans (\<lambda>k. fst (nth_turn (visits_turn va) visits_refreshRate now v k)))"
  using refresh_loop_report [of "flights_turn fa" longest flights_refreshRate c now g]
    refresh_loop_report [of "visits_turn va" longest visits_refreshRate c now v] assms
  by (simp add: flights_RefreshPromStats_def visits_RefreshPromStats_def refresh_loop_forever turn_ends
      flights_refreshRate_def visits_refreshRate_def)

theorem statistics_refresh_until_cancelled_witness:
  "\<exists>v' spans t. visits_RefreshPromStats
       (\<lambda>t. (\<lparr>q_visits = (\<lambda>_. Inl (Plain ''down'')), q_unique = (\<lambda>_. Inr []), q_url = (\<lambda>_. Inr [])\<rparr>, t, t + 1))
       (Some 100) 0 \<lparr>page_visits = Map.empty, page_visits_unique = Map.empty, page_visits_unique_url = Map.empty\<rparr>
     = Some (v', spans, t) \<and> 100 \<le> t \<and> t \<le> 131"
proof -
  let ?va = "\<lambda>t. (\<lparr>q_visits = (\<lambda>_. Inl (Plain ''down'')), q_unique = (\<lambda>_. Inr []), q_url = (\<lambda>_. Inr [])\<rparr>, t, t + 1)"
  let ?fa = "\<lambda>t. (\<lparr>a_latest = Inr 0, a_airlines = (None, []), a_flights = (None, []), a_airports = (None, []),
     a_list_err = None, a_emissions = (\<lambda>_ _. Inl io_EOF), a_listing = []\<rparr>, t + 1)"
  let ?v = "\<lparr>page_visits = Map.empty, page_visits_unique = Map.empty, page_visits_unique_url = Map.empty\<rparr>"
  from statistics_refresh_until_cancelled [of ?fa 1 ?va 0 undefined ?v 100]
  show ?thesis by fastforce
qed

end
